(* ===== verification/Prelude.thy ===== *)
theory Prelude
  imports Main "HOL-Library.Word"
begin

text \<open>
  Shared vocabulary of the development: machine integers and byte strings, the result type of
  code that may abort, little-endian encodings (\<^verbatim>\<open>memcpy\<close> of a standard-layout value on the
  little-endian targets of the tools), \<open>Align\<close>, bounded reads and writes at a pointer, and the
  generic list lemmas the components use.

  A read pointer into a buffer is modelled by the bytes from that address to the end of the
  buffer, so \<open>p \<le> end\<close> is a comparison of lengths. A write cursor is the pair of the bytes
  already written and the bytes that follow the cursor.
\<close>

unbundle bit_operations_syntax

type_synonym u8 = "8 word"
type_synonym u16 = "16 word"
type_synonym u32 = "32 word"
type_synonym u64 = "64 word"
type_synonym bytes = "u8 list"

named_theorems cursor_simps
named_theorems size_simps

section \<open>Results of code that may abort\<close>

text \<open>
  \<open>CHECK_failed\<close> is a failed \<^verbatim>\<open>CHECK*\<close> macro or a \<^verbatim>\<open>LOG(FATAL)\<close>, which aborts the process;
  \<open>OutOfBounds\<close> is an access outside the buffer a pointer points into.
\<close>

datatype abort = OutOfBounds | CHECK_failed

definition rbind :: "'e + 'a \<Rightarrow> ('a \<Rightarrow> 'e + 'b) \<Rightarrow> 'e + 'b" where
  "rbind r f = (case r of Inl e \<Rightarrow> Inl e | Inr x \<Rightarrow> f x)"

lemma rbind_simps [simp]:
  "rbind (Inl e) f = Inl e"
  "rbind (Inr x) f = f x"
  by (simp_all add: rbind_def)

lemma rbind_Inr_iff: "rbind r f = Inr y \<longleftrightarrow> (\<exists>x. r = Inr x \<and> f x = Inr y)"
  by (cases r) auto

lemma rbind_InrE [elim!]:
  assumes "rbind r f = Inr y"
  obtains x where "r = Inr x" and "f x = Inr y"
  using assms by (auto simp: rbind_Inr_iff)

lemma rbind_assoc: "rbind (rbind r f) g = rbind r (\<lambda>x. rbind (f x) g)"
  by (cases r) simp_all

definition CHECK :: "bool \<Rightarrow> abort + unit" where
  "CHECK b = (if b then Inr () else Inl CHECK_failed)"

lemma CHECK_simps [simp]:
  "CHECK True = Inr ()"
  "CHECK False = Inl CHECK_failed"
  by (simp_all add: CHECK_def)

lemma CHECK_Inr_iff [simp]: "CHECK b = Inr u \<longleftrightarrow> b"
  by (simp add: CHECK_def)

section \<open>Little-endian encodings\<close>

primrec to_le :: "nat \<Rightarrow> 'a::len word \<Rightarrow> bytes" where
  "to_le 0 w = []"
| "to_le (Suc n) w = ucast w # to_le n (drop_bit 8 w)"

primrec from_le :: "bytes \<Rightarrow> 'a::len word" where
  "from_le [] = 0"
| "from_le (b # bs) = ucast b OR push_bit 8 (from_le bs)"

lemma length_to_le [simp]: "length (to_le n w) = n"
  by (induction n arbitrary: w) simp_all

lemma from_le_to_le_take: "from_le (to_le n w) = take_bit (8 * n) w"
proof (induction n arbitrary: w)
  case 0
  then show ?case by simp
next
  case (Suc n)
  show ?case
  proof (rule bit_word_eqI)
    fix i assume i: "i < LENGTH('a)"
    have "bit (from_le (to_le (Suc n) w) :: 'a word) i
      = (bit (ucast (ucast w :: u8) :: 'a word) i
          \<or> bit (push_bit 8 (take_bit (8 * n) (drop_bit 8 w))) i)"
      by (simp add: Suc.IH bit_or_iff)
    also have "\<dots> = bit (take_bit (8 * Suc n) w) i"
      using i by (cases "i < 8") (auto simp: bit_simps)
    finally show "bit (from_le (to_le (Suc n) w) :: 'a word) i = bit (take_bit (8 * Suc n) w) i" .
  qed
qed

lemma from_le_to_le:
  assumes "LENGTH('a::len) \<le> 8 * n"
  shows "from_le (to_le n w) = (w :: 'a word)"
  using assms by (simp add: from_le_to_le_take take_bit_word_eq_self)

lemma to_le_from_le:
  assumes "8 * length bs \<le> LENGTH('a::len)"
  shows "to_le (length bs) (from_le bs :: 'a word) = bs"
  using assms
proof (induction bs)
  case Nil
  then show ?case by simp
next
  case (Cons b bs)
  have head: "ucast (ucast b OR push_bit 8 (from_le bs :: 'a word)) = b"
    using Cons.prems by (intro bit_word_eqI) (auto simp: bit_simps)
  have bound: "bit (from_le bs :: 'a word) i \<Longrightarrow> i < 8 * length bs" for i
  proof (induction bs arbitrary: i)
    case Nil
    then show ?case by simp
  next
    case (Cons c cs)
    show ?case
    proof (cases "i < 8")
      case False
      with Cons.prems have "bit (from_le cs :: 'a word) (i - 8)"
        by (auto simp: bit_simps dest: bit_imp_le_length)
      from Cons.IH [OF this] False show ?thesis by simp
    qed simp
  qed
  have tail: "drop_bit 8 (ucast b OR push_bit 8 (from_le bs :: 'a word)) = from_le bs"
  proof (rule bit_word_eqI)
    fix i assume "i < LENGTH('a)"
    have "\<not> bit b (8 + i)"
      by (auto dest: bit_imp_le_length)
    moreover have "8 + i < LENGTH('a)" if "bit (from_le bs :: 'a word) i"
      using bound [OF that] Cons.prems by simp
    ultimately show "bit (drop_bit 8 (ucast b OR push_bit 8 (from_le bs :: 'a word))) i
        = bit (from_le bs :: 'a word) i"
      by (auto simp: bit_simps)
  qed
  have "to_le (length bs) (from_le bs :: 'a word) = bs"
    using Cons by simp
  then show ?case
    by (simp only: from_le.simps length_Cons to_le.simps head tail)
qed

section \<open>Bounded reads\<close>

definition get_bytes :: "nat \<Rightarrow> bytes \<Rightarrow> abort + bytes \<times> bytes" where
  "get_bytes n p = (if n \<le> length p then Inr (take n p, drop n p) else Inl OutOfBounds)"

definition get_u16 :: "bytes \<Rightarrow> abort + u16 \<times> bytes" where
  "get_u16 p = rbind (get_bytes 2 p) (\<lambda>(b, p). Inr (from_le b, p))"

definition get_u32 :: "bytes \<Rightarrow> abort + u32 \<times> bytes" where
  "get_u32 p = rbind (get_bytes 4 p) (\<lambda>(b, p). Inr (from_le b, p))"

definition get_u64 :: "bytes \<Rightarrow> abort + u64 \<times> bytes" where
  "get_u64 p = rbind (get_bytes 8 p) (\<lambda>(b, p). Inr (from_le b, p))"

text \<open>The 64-bit values stored in a run of bytes; a shorter rest holds no value.\<close>

fun u64s_of :: "bytes \<Rightarrow> u64 list" where
  "u64s_of (a # b # c # d # e # f # g # h # p) = from_le [a, b, c, d, e, f, g, h] # u64s_of p"
| "u64s_of _ = []"

text \<open>
  A pointer to an array of \<open>n\<close> 64-bit values, followed by \<^verbatim>\<open>p += n * sizeof(uint64_t)\<close>. The
  product is computed in 64 bits, so it wraps around.
\<close>

definition get_u64_array :: "u64 \<Rightarrow> bytes \<Rightarrow> abort + u64 list \<times> bytes" where
  "get_u64_array n p = rbind (get_bytes (unat (n * 8)) p) (\<lambda>(b, p). Inr (u64s_of b, p))"

text \<open>A read that the code makes under a condition; the variable keeps its value otherwise.\<close>

definition get_if :: "bool \<Rightarrow> (bytes \<Rightarrow> abort + 'a \<times> bytes) \<Rightarrow> 'a \<Rightarrow> bytes \<Rightarrow> abort + 'a \<times> bytes" where
  "get_if c g d p = (if c then g p else Inr (d, p))"

text \<open>\<^verbatim>\<open>p += n\<close> on a pointer that must stay inside its buffer to be used.\<close>

definition skip :: "nat \<Rightarrow> bytes \<Rightarrow> abort + bytes" where
  "skip n p = (if n \<le> length p then Inr (drop n p) else Inl OutOfBounds)"

text \<open>The NUL-terminated string at a pointer (\<^verbatim>\<open>strlen\<close> is the length of the result).\<close>

definition get_cstr :: "bytes \<Rightarrow> abort + bytes" where
  "get_cstr p = (if 0 \<in> set p then Inr (takeWhile (\<lambda>b. b \<noteq> 0) p) else Inl OutOfBounds)"

text \<open>
  A pointer \<^verbatim>\<open>p + n\<close> that is only compared is kept as its distance from the end of the
  buffer, which is negative when it lies beyond the buffer.
\<close>

definition ptr_end :: "bytes \<Rightarrow> u32 \<Rightarrow> int" where
  "ptr_end p n = int (length p) - uint n"

definition CHECK_LE :: "bytes \<Rightarrow> int \<Rightarrow> abort + unit" where
  "CHECK_LE p e = CHECK (e \<le> int (length p))"

definition CHECK_EQ :: "bytes \<Rightarrow> int \<Rightarrow> abort + unit" where
  "CHECK_EQ p e = CHECK (int (length p) = e)"

definition u64s_bytes :: "u64 list \<Rightarrow> bytes" where
  "u64s_bytes xs = concat (map (to_le 8) xs)"

text \<open>Bytes that are present under a condition.\<close>

definition opt :: "bool \<Rightarrow> bytes \<Rightarrow> bytes" where
  "opt c bs = (if c then bs else [])"

lemma get_bytes_append [cursor_simps]: "n = length bs \<Longrightarrow> get_bytes n (bs @ p) = Inr (bs, p)"
  by (simp add: get_bytes_def)

lemma get_u16_le [cursor_simps]: "get_u16 (to_le 2 w @ p) = Inr (w, p)"
  by (simp add: get_u16_def get_bytes_append from_le_to_le)

lemma get_u32_le [cursor_simps]: "get_u32 (to_le 4 w @ p) = Inr (w, p)"
  by (simp add: get_u32_def get_bytes_append from_le_to_le)

lemma get_u64_le [cursor_simps]: "get_u64 (to_le 8 w @ p) = Inr (w, p)"
  by (simp add: get_u64_def get_bytes_append from_le_to_le)

lemma u64s_bytes_simps [simp]:
  "u64s_bytes [] = []"
  "u64s_bytes (x # xs) = to_le 8 x @ u64s_bytes xs"
  "u64s_bytes (xs @ ys) = u64s_bytes xs @ u64s_bytes ys"
  by (simp_all add: u64s_bytes_def)

lemma length_u64s_bytes [simp]: "length (u64s_bytes xs) = 8 * length xs"
  by (induction xs) simp_all

lemma u64s_of_to_le [simp]: "u64s_of (to_le 8 w @ p) = w # u64s_of p"
proof -
  have "\<exists>a b c d e f g h. to_le 8 w = [a, b, c, d, e, f, g, h]"
    by (simp add: numeral_eq_Suc)
  then obtain a b c d e f g h where eq: "to_le 8 w = [a, b, c, d, e, f, g, h]"
    by blast
  have "from_le (to_le 8 w) = w"
    by (simp add: from_le_to_le)
  then show ?thesis
    unfolding eq by simp
qed

lemma u64s_of_bytes_append [simp]: "u64s_of (u64s_bytes xs @ p) = xs @ u64s_of p"
  by (induction xs) simp_all

lemma u64s_of_bytes [simp]: "u64s_of (u64s_bytes xs) = xs"
  using u64s_of_bytes_append [of xs "[]"] by simp

lemma unat_of_nat_u64: "n < 2 ^ 64 \<Longrightarrow> unat (of_nat n :: u64) = n"
  by (simp add: unat_of_nat)

lemma unat_of_nat_u32: "n < 2 ^ 32 \<Longrightarrow> unat (of_nat n :: u32) = n"
  by (simp add: unat_of_nat)

lemma unat_of_nat_times_8: "8 * n < 2 ^ 64 \<Longrightarrow> unat (of_nat n * 8 :: u64) = 8 * n"
proof -
  assume "8 * n < 2 ^ 64"
  moreover have "of_nat n * 8 = (of_nat (8 * n) :: u64)"
    by simp
  ultimately show ?thesis
    by (simp only: unat_of_nat_u64)
qed

lemma get_u64_array_bytes [cursor_simps]:
  assumes "8 * length xs < 2 ^ 64"
  shows "get_u64_array (of_nat (length xs)) (u64s_bytes xs @ p) = Inr (xs, p)"
  using assms by (simp add: get_u64_array_def unat_of_nat_times_8 get_bytes_append)

lemma get_if_opt [cursor_simps]:
  assumes "\<And>p. g (enc @ p) = Inr (x, p)"
  shows "get_if c g d (opt c enc @ p) = Inr (if c then x else d, p)"
  using assms by (simp add: get_if_def opt_def)

lemma skip_append [cursor_simps]: "n = length bs \<Longrightarrow> skip n (bs @ p) = Inr p"
  by (simp add: skip_def)

lemma takeWhile_nul: "0 \<notin> set s \<Longrightarrow> takeWhile (\<lambda>b::u8. b \<noteq> 0) (s @ 0 # p) = s"
  by (induction s) auto

lemma get_cstr_append [cursor_simps]: "0 \<notin> set s \<Longrightarrow> get_cstr (s @ 0 # p) = Inr s"
  by (simp add: get_cstr_def takeWhile_nul)

lemma CHECK_LE_ok [cursor_simps]: "e \<le> int (length p) \<Longrightarrow> CHECK_LE p e = Inr ()"
  by (simp add: CHECK_LE_def)

lemma CHECK_EQ_ok [cursor_simps]: "e = int (length p) \<Longrightarrow> CHECK_EQ p e = Inr ()"
  by (simp add: CHECK_EQ_def)

lemma length_opt: "length (opt c bs) = (if c then length bs else 0)"
  by (simp add: opt_def)

lemma get_bytes_Inr:
  "get_bytes n p = Inr (bs, q) \<longleftrightarrow> n \<le> length p \<and> bs = take n p \<and> q = drop n p"
  by (auto simp: get_bytes_def)

lemma skip_cstr [cursor_simps]:
  assumes "length pad + length s + 1 = n"
  shows "skip n (s @ 0 # pad @ q) = Inr q"
  using assms skip_append [of n "s @ 0 # pad" q] by simp

lemma skip_pad [cursor_simps]: "length a + length b = n \<Longrightarrow> skip n (a @ b @ t) = Inr t"
  using skip_append [of n "a @ b" t] by simp

lemma ptr_end_full: "length bin = unat n \<Longrightarrow> ptr_end (bin @ t) n = int (length t)"
  by (simp add: ptr_end_def)

lemma ucast_u32_u64 [simp]: "(ucast (ucast (x :: u32) :: u64) :: u32) = x"
  by (rule bit_word_eqI) (auto simp: bit_simps)

lemma unat_of_nat_times_24: "24 * n < 2 ^ 64 \<Longrightarrow> unat (of_nat n * 24 :: u64) = 24 * n"
proof -
  assume "24 * n < 2 ^ 64"
  moreover have "of_nat n * 24 = (of_nat (24 * n) :: u64)"
    by simp
  ultimately show ?thesis
    by (simp only: unat_of_nat_u64)
qed

lemma ptr_end_int: "ptr_end p n = int (length p) - int (unat n)"
  by (simp add: ptr_end_def)

lemma CHECK_LE_ptr_end:
  assumes "length b \<le> unat n + length p"
  shows "CHECK_LE p (ptr_end b n) = Inr ()"
proof -
  have "int (length b) - int (unat n) \<le> int (length p)"
    using assms by linarith
  then show ?thesis
    by (simp only: CHECK_LE_def ptr_end_int CHECK_simps simp_thms)
qed

lemma get_if_opt_cond2:
  assumes "cond \<Longrightarrow> g (enc @ p) = Inr ((x, y), p)"
  shows "get_if cond g (d, d2) (opt cond enc @ p) = Inr ((if cond then x else d, if cond then y else d2), p)"
  using assms by (simp add: get_if_def opt_def)

lemma get_if_opt_cond3:
  assumes "cond \<Longrightarrow> g (enc @ p) = Inr ((x, y, z), p)"
  shows "get_if cond g (d, d2, d3) (opt cond enc @ p)
    = Inr ((if cond then x else d, if cond then y else d2, if cond then z else d3), p)"
  using assms by (simp add: get_if_def opt_def)

lemma get_if_opt_cond4:
  assumes "cond \<Longrightarrow> g (enc @ p) = Inr ((x, y, z, u), p)"
  shows "get_if cond g (d, d2, d3, d4) (opt cond enc @ p)
    = Inr ((if cond then x else d, if cond then y else d2, if cond then z else d3, if cond then u else d4), p)"
  using assms by (simp add: get_if_def opt_def)

lemma if_if_or: "(if a then x else if b then x else y) = (if a \<or> b then x else y)"
  by simp

lemma if_if_and: "(if a then if b then x else y else y) = (if a \<and> b then x else y)"
  by simp

section \<open>Bounded writes\<close>

type_synonym wcursor = "bytes \<times> bytes"

definition put_bytes :: "bytes \<Rightarrow> wcursor \<Rightarrow> abort + wcursor" where
  "put_bytes bs = (\<lambda>(d, r). if length bs \<le> length r
     then Inr (d @ bs, drop (length bs) r) else Inl OutOfBounds)"

definition put_if :: "bool \<Rightarrow> bytes \<Rightarrow> wcursor \<Rightarrow> abort + wcursor" where
  "put_if c bs w = (if c then put_bytes bs w else Inr w)"

text \<open>\<^verbatim>\<open>p += n\<close> on a write cursor: the bytes skipped keep what the buffer held.\<close>

definition put_skip :: "nat \<Rightarrow> wcursor \<Rightarrow> abort + wcursor" where
  "put_skip n = (\<lambda>(d, r). if n \<le> length r then Inr (d @ take n r, drop n r) else Inl OutOfBounds)"

text \<open>\<^verbatim>\<open>new char[n]\<close>: the buffer holds whatever the heap held, given by \<open>junk\<close>.\<close>

definition new_char :: "(nat \<Rightarrow> u8) \<Rightarrow> nat \<Rightarrow> bytes" where
  "new_char junk n = map junk [0..<n]"

definition wcursor_bytes :: "wcursor \<Rightarrow> bytes" where
  "wcursor_bytes = (\<lambda>(d, r). d @ r)"

text \<open>\<^verbatim>\<open>std::string::c_str()\<close> as seen by \<^verbatim>\<open>strcpy\<close>: the bytes before the first NUL.\<close>

definition c_str :: "bytes \<Rightarrow> bytes" where
  "c_str s = takeWhile (\<lambda>b. b \<noteq> 0) s"

lemma length_new_char [simp]: "length (new_char junk n) = n"
  by (simp add: new_char_def)

lemma c_str_id [simp]: "0 \<notin> set s \<Longrightarrow> c_str s = s"
  unfolding c_str_def takeWhile_eq_all_conv by auto

lemma put_bytes_ok [cursor_simps]:
  "length bs \<le> length r \<Longrightarrow> put_bytes bs (d, r) = Inr (d @ bs, drop (length bs) r)"
  by (simp add: put_bytes_def)

lemma put_if_opt [cursor_simps]:
  "length (opt c bs) \<le> length r \<Longrightarrow>
   put_if c bs (d, r) = Inr (d @ opt c bs, drop (length (opt c bs)) r)"
  by (cases c) (simp_all add: put_if_def put_bytes_def opt_def)

lemma put_skip_ok [cursor_simps]:
  "n \<le> length r \<Longrightarrow> put_skip n (d, r) = Inr (d @ take n r, drop n r)"
  by (simp add: put_skip_def)

text \<open>\<^verbatim>\<open>strcpy(p, s.c_str()); p += n\<close> at a write cursor.\<close>

definition put_strcpy :: "bytes \<Rightarrow> nat \<Rightarrow> wcursor \<Rightarrow> abort + wcursor" where
  "put_strcpy s n = (\<lambda>(d, r).
     if length (c_str s) + 1 \<le> length r \<and> n \<le> length r
     then let r = c_str s @ 0 # drop (length (c_str s) + 1) r in Inr (d @ take n r, drop n r)
     else Inl OutOfBounds)"

lemma put_strcpy_ok [cursor_simps]:
  assumes "0 \<notin> set s" and "length s < n" and "n \<le> length r"
  shows "put_strcpy s n (d, r) = Inr (d @ s @ 0 # take (n - Suc (length s)) (drop (Suc (length s)) r), drop n r)"
  using assms by (simp add: put_strcpy_def take_Cons' drop_Cons' min_def)

lemma put_bytes_put_bytes [cursor_simps]:
  "rbind (put_bytes a w) (\<lambda>w. rbind (put_bytes b w) k) = rbind (put_bytes (a @ b) w) k"
  by (cases w) (auto simp: put_bytes_def add.commute)

lemma drop_new_char: "drop k (new_char junk n) = map junk [k..<n]"
  by (simp add: new_char_def drop_map)

section \<open>Alignment\<close>

definition Align :: "u64 \<Rightarrow> u64 \<Rightarrow> u64" where
  "Align v a = (v + a - 1) AND NOT (a - 1)"

lemma unat_u64_less: "unat (x :: u64) < 2 ^ 64"
  by (rule order_less_le_trans [OF unsigned_less]) simp

lemma and_not_mask_unat:
  fixes x :: u64
  shows "unat (x AND NOT (mask k)) = unat x div 2 ^ k * 2 ^ k"
proof -
  have "x AND NOT (mask k) = push_bit k (drop_bit k x)"
    by (rule bit_word_eqI) (auto simp: bit_simps)
  moreover have tb: "take_bit 64 (unat x) = unat x"
    by (rule take_bit_nat_eq_self) (rule unat_u64_less)
  then have "unat (push_bit k (drop_bit k x)) = take_bit 64 (push_bit k (drop_bit k (unat x)))"
    by (simp add: unsigned_push_bit_eq unsigned_drop_bit_eq)
  moreover have "push_bit k (drop_bit k (unat x)) \<le> unat x"
    by (simp add: push_bit_eq_mult drop_bit_eq_div)
  then have "take_bit 64 (push_bit k (drop_bit k (unat x))) = push_bit k (drop_bit k (unat x))"
    using unat_u64_less [of x] by (intro take_bit_nat_eq_self) (rule le_less_trans)
  ultimately show ?thesis
    by (simp add: push_bit_eq_mult drop_bit_eq_div)
qed

lemma unat_mask_u64:
  assumes "k < 64"
  shows "unat (mask k :: u64) = 2 ^ k - 1"
proof -
  have "uint (mask k :: u64) = mask k"
    using assms by (simp only: uint_mask_eq) simp
  also have "mask k = int (2 ^ k - 1)"
    by (simp add: mask_eq_exp_minus_1 of_nat_diff)
  finally show ?thesis
    by (simp only: unat_eq_nat_uint nat_int)
qed

lemma Align_unat:
  assumes a: "a = 2 ^ k" and k: "k < 64" and v: "unat v + 2 ^ k \<le> 2 ^ 64"
  shows "unat (Align v a) = (unat v + 2 ^ k - 1) div 2 ^ k * 2 ^ k"
proof -
  have m: "a - 1 = mask k"
    using a by (simp add: mask_eq_exp_minus_1)
  have pos: "(0::nat) < 2 ^ k"
    by simp
  have "unat v + unat (mask k :: u64) < 2 ^ LENGTH(64)"
    using v pos unfolding unat_mask_u64 [OF k] by simp
  then have "unat (v + mask k) = unat v + unat (mask k :: u64)"
    by (rule unat_add_lem [THEN iffD1])
  then have "unat (v + mask k) = unat v + (2 ^ k - 1)"
    by (simp only: unat_mask_u64 [OF k])
  moreover have "Align v a = (v + mask k) AND NOT (mask k)"
    unfolding Align_def m [symmetric] by (simp only: add_diff_eq)
  moreover have "unat v + (2 ^ k - 1) = unat v + 2 ^ k - 1"
    using pos by simp
  ultimately show ?thesis
    by (simp only: and_not_mask_unat)
qed

text \<open>\<open>Align\<close> of the size of an object in memory.\<close>

definition align_size :: "nat \<Rightarrow> u64 \<Rightarrow> nat" where
  "align_size n a = unat (Align (of_nat n) a)"

text \<open>The alignment of a length that is far from the end of the address space.\<close>

lemma align_size_8:
  assumes "n + 8 \<le> 2 ^ 64"
  shows "align_size n 8 = (n + 7) div 8 * 8"
proof -
  have "unat (of_nat n :: u64) = n"
    using assms by (simp add: unat_of_nat)
  then show ?thesis
    using Align_unat [where k = 3 and a = 8 and v = "of_nat n"] assms by (simp add: align_size_def)
qed

lemma align_size_64:
  assumes "n + 64 \<le> 2 ^ 64"
  shows "align_size n 64 = (n + 63) div 64 * 64"
proof -
  have "unat (of_nat n :: u64) = n"
    using assms by (simp add: unat_of_nat)
  then show ?thesis
    using Align_unat [where k = 6 and a = 64 and v = "of_nat n"] assms by (simp add: align_size_def)
qed

lemma align_size_8_bounds:
  assumes "n + 8 \<le> 2 ^ 64"
  shows "n \<le> align_size n 8" and "align_size n 8 < n + 8" and "8 dvd align_size n 8"
  unfolding align_size_8 [OF assms] by (arith, arith, simp)

lemma align_size_64_bounds:
  assumes "n + 64 \<le> 2 ^ 64"
  shows "n \<le> align_size n 64" and "align_size n 64 < n + 64" and "64 dvd align_size n 64"
  unfolding align_size_64 [OF assms] by (arith, arith, simp)

end
