(* ===== verification/Record_Base.thy ===== *)
theory Record_Base
  imports Prelude
begin

text \<open>
  The parts every record of \<^verbatim>\<open>simpleperf/record.h\<close> shares: the record header with its two
  binary layouts, the optional \<open>SampleId\<close> trailer, and the base class \<open>Record\<close>.

  The \<open>PERF_*\<close> constants are those of the kernel's perf user-space ABI
  (\<^verbatim>\<open>linux/perf_event.h\<close>); \<open>perf_event_attr\<close> keeps the attributes the record code reads.
\<close>

section \<open>Constants of the perf ABI\<close>

abbreviation (input) PERF_SAMPLE_IP :: u64 where "PERF_SAMPLE_IP \<equiv> 0x1"
abbreviation (input) PERF_SAMPLE_TID :: u64 where "PERF_SAMPLE_TID \<equiv> 0x2"
abbreviation (input) PERF_SAMPLE_TIME :: u64 where "PERF_SAMPLE_TIME \<equiv> 0x4"
abbreviation (input) PERF_SAMPLE_ADDR :: u64 where "PERF_SAMPLE_ADDR \<equiv> 0x8"
abbreviation (input) PERF_SAMPLE_CALLCHAIN :: u64 where "PERF_SAMPLE_CALLCHAIN \<equiv> 0x20"
abbreviation (input) PERF_SAMPLE_ID :: u64 where "PERF_SAMPLE_ID \<equiv> 0x40"
abbreviation (input) PERF_SAMPLE_CPU :: u64 where "PERF_SAMPLE_CPU \<equiv> 0x80"
abbreviation (input) PERF_SAMPLE_PERIOD :: u64 where "PERF_SAMPLE_PERIOD \<equiv> 0x100"
abbreviation (input) PERF_SAMPLE_STREAM_ID :: u64 where "PERF_SAMPLE_STREAM_ID \<equiv> 0x200"
abbreviation (input) PERF_SAMPLE_RAW :: u64 where "PERF_SAMPLE_RAW \<equiv> 0x400"
abbreviation (input) PERF_SAMPLE_BRANCH_STACK :: u64 where "PERF_SAMPLE_BRANCH_STACK \<equiv> 0x800"
abbreviation (input) PERF_SAMPLE_REGS_USER :: u64 where "PERF_SAMPLE_REGS_USER \<equiv> 0x1000"
abbreviation (input) PERF_SAMPLE_STACK_USER :: u64 where "PERF_SAMPLE_STACK_USER \<equiv> 0x2000"
abbreviation (input) PERF_SAMPLE_IDENTIFIER :: u64 where "PERF_SAMPLE_IDENTIFIER \<equiv> 0x10000"

abbreviation (input) PERF_RECORD_MMAP :: u32 where "PERF_RECORD_MMAP \<equiv> 1"
abbreviation (input) PERF_RECORD_LOST :: u32 where "PERF_RECORD_LOST \<equiv> 2"
abbreviation (input) PERF_RECORD_COMM :: u32 where "PERF_RECORD_COMM \<equiv> 3"
abbreviation (input) PERF_RECORD_EXIT :: u32 where "PERF_RECORD_EXIT \<equiv> 4"
abbreviation (input) PERF_RECORD_FORK :: u32 where "PERF_RECORD_FORK \<equiv> 7"
abbreviation (input) PERF_RECORD_SAMPLE :: u32 where "PERF_RECORD_SAMPLE \<equiv> 9"
abbreviation (input) PERF_RECORD_MMAP2 :: u32 where "PERF_RECORD_MMAP2 \<equiv> 10"

abbreviation (input) PERF_RECORD_MISC_CPUMODE_MASK :: u16 where "PERF_RECORD_MISC_CPUMODE_MASK \<equiv> 7"
abbreviation (input) PERF_RECORD_MISC_KERNEL :: u16 where "PERF_RECORD_MISC_KERNEL \<equiv> 1"
abbreviation (input) PERF_RECORD_MISC_USER :: u16 where "PERF_RECORD_MISC_USER \<equiv> 2"

abbreviation (input) PERF_CONTEXT_KERNEL :: u64 where "PERF_CONTEXT_KERNEL \<equiv> - 128"
abbreviation (input) PERF_CONTEXT_USER :: u64 where "PERF_CONTEXT_USER \<equiv> - 512"
abbreviation (input) PERF_CONTEXT_MAX :: u64 where "PERF_CONTEXT_MAX \<equiv> - 4095"

record perf_event_attr =
  attr_sample_type :: u64
  attr_sample_id_all :: bool
  attr_sample_regs_user :: u64

definition flag :: "u64 \<Rightarrow> u64 \<Rightarrow> bool" where
  "flag t f \<longleftrightarrow> t AND f \<noteq> 0"

section \<open>Record types defined by simpleperf\<close>

definition PERF_RECORD_USER_DEFINED_TYPE_START :: u32 where
  "PERF_RECORD_USER_DEFINED_TYPE_START = 64"

definition PERF_RECORD_TRACING_DATA :: u32 where
  "PERF_RECORD_TRACING_DATA = 66"

definition PERF_RECORD_BUILD_ID :: u32 where
  "PERF_RECORD_BUILD_ID = 67"

definition SIMPLE_PERF_RECORD_TYPE_START :: u32 where
  "SIMPLE_PERF_RECORD_TYPE_START = 32768"

definition SIMPLE_PERF_RECORD_KERNEL_SYMBOL :: u32 where
  "SIMPLE_PERF_RECORD_KERNEL_SYMBOL = 32769"

definition SIMPLE_PERF_RECORD_DSO :: u32 where
  "SIMPLE_PERF_RECORD_DSO = 32770"

definition SIMPLE_PERF_RECORD_SYMBOL :: u32 where
  "SIMPLE_PERF_RECORD_SYMBOL = 32771"

definition SIMPLE_PERF_RECORD_SPLIT :: u32 where
  "SIMPLE_PERF_RECORD_SPLIT = 32772"

definition SIMPLE_PERF_RECORD_SPLIT_END :: u32 where
  "SIMPLE_PERF_RECORD_SPLIT_END = 32773"

definition SIMPLE_PERF_RECORD_EVENT_ID :: u32 where
  "SIMPLE_PERF_RECORD_EVENT_ID = 32774"

definition SIMPLE_PERF_RECORD_CALLCHAIN :: u32 where
  "SIMPLE_PERF_RECORD_CALLCHAIN = 32775"

definition SIMPLE_PERF_RECORD_UNWINDING_RESULT :: u32 where
  "SIMPLE_PERF_RECORD_UNWINDING_RESULT = 32776"

definition SIMPLE_PERF_RECORD_TRACING_DATA :: u32 where
  "SIMPLE_PERF_RECORD_TRACING_DATA = 32777"

lemmas record_type_defs =
  PERF_RECORD_USER_DEFINED_TYPE_START_def PERF_RECORD_TRACING_DATA_def PERF_RECORD_BUILD_ID_def
  SIMPLE_PERF_RECORD_TYPE_START_def SIMPLE_PERF_RECORD_KERNEL_SYMBOL_def SIMPLE_PERF_RECORD_DSO_def
  SIMPLE_PERF_RECORD_SYMBOL_def SIMPLE_PERF_RECORD_SPLIT_def SIMPLE_PERF_RECORD_SPLIT_END_def
  SIMPLE_PERF_RECORD_EVENT_ID_def SIMPLE_PERF_RECORD_CALLCHAIN_def
  SIMPLE_PERF_RECORD_UNWINDING_RESULT_def SIMPLE_PERF_RECORD_TRACING_DATA_def

section \<open>RecordHeader\<close>

record RecordHeader =
  rh_type :: u32
  rh_misc :: u16
  rh_size :: u32

definition RecordHeader_zero :: RecordHeader where
  "RecordHeader_zero = \<lparr>rh_type = 0, rh_misc = 0, rh_size = 0\<rparr>"

text \<open>
  \<^verbatim>\<open>RecordHeader(const char*)\<close>: kernel records carry \<open>type, misc, size\<close>; records whose type
  is at least \<open>SIMPLE_PERF_RECORD_TYPE_START\<close> carry \<open>type, size1, size0\<close>, a size of 32 bits.
\<close>

definition RecordHeader_parse :: "bytes \<Rightarrow> abort + RecordHeader" where
  "RecordHeader_parse p =
     rbind (get_u32 p) (\<lambda>(ty, p).
     rbind (get_u16 p) (\<lambda>(a, p).
     rbind (get_u16 p) (\<lambda>(b, p).
     if ty < SIMPLE_PERF_RECORD_TYPE_START
     then Inr \<lparr>rh_type = ty, rh_misc = a, rh_size = ucast b\<rparr>
     else Inr \<lparr>rh_type = ty, rh_misc = 0, rh_size = push_bit 16 (ucast a) OR ucast b\<rparr>)))"

definition RecordHeader_MoveToBinaryFormat :: "RecordHeader \<Rightarrow> wcursor \<Rightarrow> abort + wcursor" where
  "RecordHeader_MoveToBinaryFormat h w =
     (if rh_type h < SIMPLE_PERF_RECORD_TYPE_START
      then rbind (CHECK (rh_size h < 65536)) (\<lambda>_.
        put_bytes (to_le 4 (rh_type h) @ to_le 2 (rh_misc h) @ to_le 2 (ucast (rh_size h) :: u16)) w)
      else rbind (CHECK (rh_misc h = 0)) (\<lambda>_.
        put_bytes (to_le 4 (rh_type h) @ to_le 2 (ucast (drop_bit 16 (rh_size h)) :: u16)
          @ to_le 2 (ucast (rh_size h AND 0xffff) :: u16)) w))"

section \<open>SampleId\<close>

record SampleId =
  sample_id_all :: bool
  sid_sample_type :: u64
  sid_pid :: u32
  sid_tid :: u32
  sid_time :: u64
  sid_id :: u64
  sid_stream_id :: u64
  sid_cpu :: u32
  sid_res :: u32

definition SampleId_init :: SampleId where
  "SampleId_init = \<lparr>sample_id_all = False, sid_sample_type = 0, sid_pid = 0, sid_tid = 0,
     sid_time = 0, sid_id = 0, sid_stream_id = 0, sid_cpu = 0, sid_res = 0\<rparr>"

definition SampleId_Size :: "SampleId \<Rightarrow> nat" where
  "SampleId_Size s =
     (if sample_id_all s then
        (if flag (sid_sample_type s) PERF_SAMPLE_TID then 8 else 0)
      + (if flag (sid_sample_type s) PERF_SAMPLE_TIME then 8 else 0)
      + (if flag (sid_sample_type s) PERF_SAMPLE_ID then 8 else 0)
      + (if flag (sid_sample_type s) PERF_SAMPLE_STREAM_ID then 8 else 0)
      + (if flag (sid_sample_type s) PERF_SAMPLE_CPU then 8 else 0)
      + (if flag (sid_sample_type s) PERF_SAMPLE_IDENTIFIER then 8 else 0)
      else 0)"

definition SampleId_CreateContent :: "perf_event_attr \<Rightarrow> u64 \<Rightarrow> SampleId \<Rightarrow> SampleId \<times> nat" where
  "SampleId_CreateContent attr event_id s =
     (let s = s\<lparr>sample_id_all := attr_sample_id_all attr, sid_sample_type := attr_sample_type attr,
                sid_id := event_id\<rparr>
      in (s, SampleId_Size s))"

text \<open>The two-word values \<open>PerfSampleTidType\<close> and \<open>PerfSampleCpuType\<close>.\<close>

definition get_u32_pair :: "bytes \<Rightarrow> abort + (u32 \<times> u32) \<times> bytes" where
  "get_u32_pair p = rbind (get_u32 p) (\<lambda>(a, p). rbind (get_u32 p) (\<lambda>(b, p). Inr ((a, b), p)))"

definition SampleId_ReadFromBinaryFormat ::
    "perf_event_attr \<Rightarrow> bytes \<Rightarrow> int \<Rightarrow> SampleId \<Rightarrow> abort + SampleId" where
  "SampleId_ReadFromBinaryFormat attr p e s =
     (let all = attr_sample_id_all attr; t = attr_sample_type attr in
      rbind (get_if (all \<and> flag t PERF_SAMPLE_TID) get_u32_pair (sid_pid s, sid_tid s) p) (\<lambda>((pid, tid), p).
      rbind (get_if (all \<and> flag t PERF_SAMPLE_TIME) get_u64 (sid_time s) p) (\<lambda>(time, p).
      rbind (get_if (all \<and> flag t PERF_SAMPLE_ID) get_u64 (sid_id s) p) (\<lambda>(id, p).
      rbind (get_if (all \<and> flag t PERF_SAMPLE_STREAM_ID) get_u64 (sid_stream_id s) p) (\<lambda>(stream_id, p).
      rbind (get_if (all \<and> flag t PERF_SAMPLE_CPU) get_u32_pair (sid_cpu s, sid_res s) p) (\<lambda>((cpu, res), p).
      rbind (get_if (all \<and> flag t PERF_SAMPLE_IDENTIFIER) get_u64 id p) (\<lambda>(id, p).
      rbind (CHECK_LE p e) (\<lambda>_.
      Inr \<lparr>sample_id_all = all, sid_sample_type = t, sid_pid = pid, sid_tid = tid, sid_time = time,
           sid_id = id, sid_stream_id = stream_id, sid_cpu = cpu, sid_res = res\<rparr>))))))))"

definition SampleId_WriteToBinaryFormat :: "SampleId \<Rightarrow> wcursor \<Rightarrow> abort + wcursor" where
  "SampleId_WriteToBinaryFormat s w =
     (let all = sample_id_all s; t = sid_sample_type s in
      rbind (put_if (all \<and> flag t PERF_SAMPLE_TID) (to_le 4 (sid_pid s) @ to_le 4 (sid_tid s)) w) (\<lambda>w.
      rbind (put_if (all \<and> flag t PERF_SAMPLE_TIME) (to_le 8 (sid_time s)) w) (\<lambda>w.
      rbind (put_if (all \<and> flag t PERF_SAMPLE_ID) (to_le 8 (sid_id s)) w) (\<lambda>w.
      rbind (put_if (all \<and> flag t PERF_SAMPLE_STREAM_ID) (to_le 8 (sid_stream_id s)) w) (\<lambda>w.
      put_if (all \<and> flag t PERF_SAMPLE_CPU) (to_le 4 (sid_cpu s) @ to_le 4 (sid_res s)) w)))))"

section \<open>Record\<close>

record Record =
  header :: RecordHeader
  sample_id :: SampleId
  binary :: bytes
  own_binary :: bool

definition header_size :: nat where
  "header_size = 8"

definition InKernel :: "'a Record_scheme \<Rightarrow> bool" where
  "InKernel r \<longleftrightarrow> rh_misc (header r) AND PERF_RECORD_MISC_CPUMODE_MASK = PERF_RECORD_MISC_KERNEL"

definition SetTypeAndMisc :: "u32 \<Rightarrow> u16 \<Rightarrow> 'a Record_scheme \<Rightarrow> 'a Record_scheme" where
  "SetTypeAndMisc ty mi r = r\<lparr>header := (header r)\<lparr>rh_type := ty, rh_misc := mi\<rparr>\<rparr>"

text \<open>\<open>SetSize\<close> takes a \<^verbatim>\<open>uint32_t\<close>: the size computed in \<^verbatim>\<open>size_t\<close> is truncated.\<close>

definition SetSize :: "nat \<Rightarrow> 'a Record_scheme \<Rightarrow> 'a Record_scheme" where
  "SetSize n r = r\<lparr>header := (header r)\<lparr>rh_size := of_nat n\<rparr>\<rparr>"

definition UpdateBinary :: "bytes \<Rightarrow> 'a Record_scheme \<Rightarrow> 'a Record_scheme" where
  "UpdateBinary b r = r\<lparr>own_binary := True, binary := b\<rparr>"

definition OwnBinary :: "'a Record_scheme \<Rightarrow> 'a Record_scheme" where
  "OwnBinary r = r\<lparr>own_binary := True\<rparr>"

definition Record_Timestamp :: "'a Record_scheme \<Rightarrow> u64" where
  "Record_Timestamp r = sid_time (sample_id r)"

definition Record_Cpu :: "'a Record_scheme \<Rightarrow> u32" where
  "Record_Cpu r = sid_cpu (sample_id r)"

definition Record_Id :: "'a Record_scheme \<Rightarrow> u64" where
  "Record_Id r = sid_id (sample_id r)"

section \<open>Header round trip\<close>

text \<open>The bytes of a header; \<open>header_ok\<close> is what the two \<^verbatim>\<open>CHECK\<close>s of the writer demand.\<close>

definition header_bytes :: "RecordHeader \<Rightarrow> bytes" where
  "header_bytes h = (if rh_type h < SIMPLE_PERF_RECORD_TYPE_START
     then to_le 4 (rh_type h) @ to_le 2 (rh_misc h) @ to_le 2 (ucast (rh_size h) :: u16)
     else to_le 4 (rh_type h) @ to_le 2 (ucast (drop_bit 16 (rh_size h)) :: u16)
       @ to_le 2 (ucast (rh_size h AND 0xffff) :: u16))"

definition header_ok :: "RecordHeader \<Rightarrow> bool" where
  "header_ok h \<longleftrightarrow> (if rh_type h < SIMPLE_PERF_RECORD_TYPE_START
     then rh_size h < 65536 else rh_misc h = 0)"

lemma length_header_bytes [simp]: "length (header_bytes h) = 8"
  by (simp add: header_bytes_def)

lemma RecordHeader_write_ok [cursor_simps]:
  assumes "header_ok h" and "8 \<le> length r"
  shows "RecordHeader_MoveToBinaryFormat h (d, r) = Inr (d @ header_bytes h, drop 8 r)"
  using assms
  by (auto simp: RecordHeader_MoveToBinaryFormat_def header_ok_def header_bytes_def put_bytes_def)

lemma RecordHeader_write_error:
  assumes "\<not> header_ok h"
  shows "RecordHeader_MoveToBinaryFormat h w = Inl CHECK_failed"
  using assms by (auto simp: RecordHeader_MoveToBinaryFormat_def header_ok_def)

lemma ucast_ucast_u16:
  fixes x :: u32
  assumes "x < 65536"
  shows "(ucast (ucast x :: u16) :: u32) = x"
proof -
  have "unat x < 2 ^ 16"
    using assms by (simp add: word_less_nat_alt)
  then have "unat (ucast (ucast x :: u16) :: u32) = unat x"
    by (simp add: unsigned_ucast_eq unsigned_take_bit_eq take_bit_nat_eq_self)
  then show ?thesis
    by (simp only: word_unat_eq_iff)
qed

lemma size_split_u32:
  fixes x :: u32
  shows "push_bit 16 (ucast (ucast (drop_bit 16 x) :: u16)) OR ucast (ucast (x AND 0xffff) :: u16) = x"
    (is "?l = x")
proof (rule bit_word_eqI)
  fix i assume i: "i < LENGTH(32)"
  have m: "(0xffff :: u32) = mask 16"
    by (simp add: mask_eq_exp_minus_1)
  show "bit ?l i = bit x i"
    using i unfolding m by (cases "i < 16") (auto simp: bit_simps)
qed

lemma RecordHeader_parse_bytes [cursor_simps]:
  assumes "header_ok h"
  shows "RecordHeader_parse (header_bytes h @ p) = Inr h"
  using assms
  by (auto simp: RecordHeader_parse_def header_bytes_def header_ok_def cursor_simps
      ucast_ucast_u16 size_split_u32)

section \<open>SampleId in binary\<close>

text \<open>What the writer emits for a \<open>SampleId\<close>: five optional fields, no identifier field.\<close>

definition SampleId_bytes :: "SampleId \<Rightarrow> bytes" where
  "SampleId_bytes s =
     (let all = sample_id_all s; t = sid_sample_type s in
        opt (all \<and> flag t PERF_SAMPLE_TID) (to_le 4 (sid_pid s) @ to_le 4 (sid_tid s))
      @ opt (all \<and> flag t PERF_SAMPLE_TIME) (to_le 8 (sid_time s))
      @ opt (all \<and> flag t PERF_SAMPLE_ID) (to_le 8 (sid_id s))
      @ opt (all \<and> flag t PERF_SAMPLE_STREAM_ID) (to_le 8 (sid_stream_id s))
      @ opt (all \<and> flag t PERF_SAMPLE_CPU) (to_le 4 (sid_cpu s) @ to_le 4 (sid_res s)))"

definition has_identifier :: "SampleId \<Rightarrow> bool" where
  "has_identifier s \<longleftrightarrow> sample_id_all s \<and> flag (sid_sample_type s) PERF_SAMPLE_IDENTIFIER"

definition sid_attr :: "SampleId \<Rightarrow> perf_event_attr \<Rightarrow> bool" where
  "sid_attr s attr \<longleftrightarrow> sample_id_all s = attr_sample_id_all attr \<and> sid_sample_type s = attr_sample_type attr"

text \<open>
  The fields a reader recovers: those the sample type selects, zero elsewhere, as in the freshly
  constructed object the reader fills.
\<close>

definition SampleId_selected :: "SampleId \<Rightarrow> SampleId" where
  "SampleId_selected s =
     (let all = sample_id_all s; t = sid_sample_type s in
      \<lparr>sample_id_all = all, sid_sample_type = t,
       sid_pid = (if all \<and> flag t PERF_SAMPLE_TID then sid_pid s else 0),
       sid_tid = (if all \<and> flag t PERF_SAMPLE_TID then sid_tid s else 0),
       sid_time = (if all \<and> flag t PERF_SAMPLE_TIME then sid_time s else 0),
       sid_id = (if all \<and> flag t PERF_SAMPLE_ID then sid_id s else 0),
       sid_stream_id = (if all \<and> flag t PERF_SAMPLE_STREAM_ID then sid_stream_id s else 0),
       sid_cpu = (if all \<and> flag t PERF_SAMPLE_CPU then sid_cpu s else 0),
       sid_res = (if all \<and> flag t PERF_SAMPLE_CPU then sid_res s else 0)\<rparr>)"

lemma length_SampleId_bytes:
  "length (SampleId_bytes s) + (if has_identifier s then 8 else 0) = SampleId_Size s"
  by (simp add: SampleId_bytes_def SampleId_Size_def has_identifier_def length_opt Let_def)

lemma SampleId_Size_le: "SampleId_Size s \<le> 48"
  by (simp add: SampleId_Size_def)

lemma SampleId_write_ok [cursor_simps]:
  assumes "length (SampleId_bytes s) \<le> length r"
  shows "SampleId_WriteToBinaryFormat s (d, r)
    = Inr (d @ SampleId_bytes s, drop (length (SampleId_bytes s)) r)"
  using assms
  by (simp add: SampleId_WriteToBinaryFormat_def SampleId_bytes_def put_if_opt Let_def add.assoc add.commute add.left_commute)

lemma get_u32_pair_le [cursor_simps]: "get_u32_pair (to_le 4 a @ to_le 4 b @ p) = Inr ((a, b), p)"
  by (simp add: get_u32_pair_def cursor_simps)

lemma get_if_u64_opt: "get_if c get_u64 d (opt c (to_le 8 x) @ p) = Inr (if c then x else d, p)"
  by (rule get_if_opt) (rule get_u64_le)

lemma get_if_u32_pair_opt:
  "get_if c get_u32_pair (d, d') (opt c (to_le 4 x @ to_le 4 y) @ p)
    = Inr ((if c then x else d, if c then y else d'), p)"
  by (simp add: get_if_def opt_def get_u32_pair_le)

text \<open>Reading back what was written, with the eight bytes an identifier field would take.\<close>

lemma SampleId_read_bytes [cursor_simps]:
  assumes "sid_attr s attr" and "e \<le> int (length q)"
  shows "SampleId_ReadFromBinaryFormat attr
      (SampleId_bytes s @ opt (has_identifier s) (to_le 8 ident) @ q) e SampleId_init
    = Inr ((SampleId_selected s)\<lparr>sid_id := (if has_identifier s then ident else sid_id (SampleId_selected s))\<rparr>)"
  using assms
  by (simp add: SampleId_ReadFromBinaryFormat_def SampleId_bytes_def SampleId_selected_def Let_def sid_attr_def
      has_identifier_def get_if_u64_opt get_if_u32_pair_opt CHECK_LE_ok SampleId_init_def)

end
