(* ===== verification/Records.thy ===== *)
theory Records
  imports Record_Base
begin

text \<open>
  The record classes of \<^verbatim>\<open>simpleperf/record.cpp\<close> without sampled data: for each class the
  constructor that parses a binary record (\<open>_parse\<close>) and the one that builds a new binary
  (\<open>_new\<close>), and the lemmas that parsing what was built gives the record back.

  A constructor that allocates a buffer takes \<open>junk\<close>, the previous contents of the heap, and one
  that leaves members of a local structure unassigned takes their previous contents as \<open>uninit\<close>:
  both reach the binary record.
\<close>

section \<open>Base of a parsed and of a new record\<close>

text \<open>\<^verbatim>\<open>Record(char* p)\<close> and \<^verbatim>\<open>Record()\<close>.\<close>

definition Record_parse :: "bytes \<Rightarrow> abort + Record" where
  "Record_parse p = rbind (RecordHeader_parse p) (\<lambda>h.
     Inr \<lparr>header = h, sample_id = SampleId_init, binary = p, own_binary = False\<rparr>)"

definition Record_init :: Record where
  "Record_init = \<lparr>header = RecordHeader_zero, sample_id = SampleId_init, binary = [], own_binary = False\<rparr>"

section \<open>MmapRecord\<close>

record MmapData =
  mm_pid :: u32
  mm_tid :: u32
  mm_addr :: u64
  mm_len :: u64
  mm_pgoff :: u64

record MmapRecord = Record +
  mmap_data :: MmapData
  mmap_filename :: bytes

definition MmapData_bytes :: "MmapData \<Rightarrow> bytes" where
  "MmapData_bytes d = to_le 4 (mm_pid d) @ to_le 4 (mm_tid d) @ to_le 8 (mm_addr d)
     @ to_le 8 (mm_len d) @ to_le 8 (mm_pgoff d)"

definition get_MmapData :: "bytes \<Rightarrow> abort + MmapData \<times> bytes" where
  "get_MmapData p =
     rbind (get_u32 p) (\<lambda>(pid, p). rbind (get_u32 p) (\<lambda>(tid, p).
     rbind (get_u64 p) (\<lambda>(addr, p). rbind (get_u64 p) (\<lambda>(len, p). rbind (get_u64 p) (\<lambda>(pgoff, p).
     Inr (\<lparr>mm_pid = pid, mm_tid = tid, mm_addr = addr, mm_len = len, mm_pgoff = pgoff\<rparr>, p))))))"

definition MmapRecord_parse :: "perf_event_attr \<Rightarrow> bytes \<Rightarrow> abort + MmapRecord" where
  "MmapRecord_parse attr p =
     rbind (Record_parse p) (\<lambda>r.
     let e = ptr_end p (rh_size (header r)) in
     rbind (skip header_size p) (\<lambda>p.
     rbind (get_MmapData p) (\<lambda>(d, p).
     rbind (get_cstr p) (\<lambda>name.
     rbind (skip (align_size (length name + 1) 8) p) (\<lambda>p.
     rbind (CHECK_LE p e) (\<lambda>_.
     rbind (SampleId_ReadFromBinaryFormat attr p e (sample_id r)) (\<lambda>sid.
     Inr (Record.extend (r\<lparr>sample_id := sid\<rparr>) (MmapRecord.fields d name)))))))))"

definition MmapRecord_SetDataAndFilename ::
    "(nat \<Rightarrow> u8) \<Rightarrow> MmapData \<Rightarrow> bytes \<Rightarrow> MmapRecord \<Rightarrow> abort + MmapRecord" where
  "MmapRecord_SetDataAndFilename junk d name r =
     (let r = SetSize (header_size + 32 + align_size (length name + 1) 8 + SampleId_Size (sample_id r)) r
      in
      rbind (RecordHeader_MoveToBinaryFormat (header r) ([], new_char junk (unat (rh_size (header r))))) (\<lambda>w.
      rbind (put_bytes (MmapData_bytes d) w) (\<lambda>w.
      rbind (put_strcpy name (align_size (length name + 1) 8) w) (\<lambda>w.
      rbind (SampleId_WriteToBinaryFormat (sample_id r) w) (\<lambda>w.
      Inr (UpdateBinary (wcursor_bytes w) (r\<lparr>mmap_data := d, mmap_filename := c_str name\<rparr>)))))))"

definition MmapRecord_new ::
    "(nat \<Rightarrow> u8) \<Rightarrow> perf_event_attr \<Rightarrow> bool \<Rightarrow> u32 \<Rightarrow> u32 \<Rightarrow> u64 \<Rightarrow> u64 \<Rightarrow> u64 \<Rightarrow> bytes
      \<Rightarrow> u64 \<Rightarrow> u64 \<Rightarrow> abort + MmapRecord" where
  "MmapRecord_new junk attr in_kernel pid tid addr len pgoff filename event_id time =
     (let d = \<lparr>mm_pid = pid, mm_tid = tid, mm_addr = addr, mm_len = len, mm_pgoff = pgoff\<rparr>;
          r = Record.extend Record_init (MmapRecord.fields d []);
          r = SetTypeAndMisc PERF_RECORD_MMAP
                (if in_kernel then PERF_RECORD_MISC_KERNEL else PERF_RECORD_MISC_USER) r;
          r = r\<lparr>sample_id := (fst (SampleId_CreateContent attr event_id (sample_id r)))\<lparr>sid_time := time\<rparr>\<rparr>
      in MmapRecord_SetDataAndFilename junk d filename r)"

section \<open>Mmap2Record\<close>

record Mmap2Data =
  m2_pid :: u32
  m2_tid :: u32
  m2_addr :: u64
  m2_len :: u64
  m2_pgoff :: u64
  m2_maj :: u32
  m2_min :: u32
  m2_ino :: u64
  m2_ino_generation :: u64
  m2_prot :: u32
  m2_flags :: u32

record Mmap2Record = Record +
  mmap2_data :: Mmap2Data
  mmap2_filename :: bytes

definition Mmap2Data_bytes :: "Mmap2Data \<Rightarrow> bytes" where
  "Mmap2Data_bytes d = to_le 4 (m2_pid d) @ to_le 4 (m2_tid d) @ to_le 8 (m2_addr d)
     @ to_le 8 (m2_len d) @ to_le 8 (m2_pgoff d) @ to_le 4 (m2_maj d) @ to_le 4 (m2_min d)
     @ to_le 8 (m2_ino d) @ to_le 8 (m2_ino_generation d) @ to_le 4 (m2_prot d) @ to_le 4 (m2_flags d)"

definition get_Mmap2Data :: "bytes \<Rightarrow> abort + Mmap2Data \<times> bytes" where
  "get_Mmap2Data p =
     rbind (get_u32 p) (\<lambda>(pid, p). rbind (get_u32 p) (\<lambda>(tid, p).
     rbind (get_u64 p) (\<lambda>(addr, p). rbind (get_u64 p) (\<lambda>(len, p). rbind (get_u64 p) (\<lambda>(pgoff, p).
     rbind (get_u32 p) (\<lambda>(maj, p). rbind (get_u32 p) (\<lambda>(mi, p).
     rbind (get_u64 p) (\<lambda>(ino, p). rbind (get_u64 p) (\<lambda>(gen, p).
     rbind (get_u32 p) (\<lambda>(prot, p). rbind (get_u32 p) (\<lambda>(flags, p).
     Inr (\<lparr>m2_pid = pid, m2_tid = tid, m2_addr = addr, m2_len = len, m2_pgoff = pgoff,
           m2_maj = maj, m2_min = mi, m2_ino = ino, m2_ino_generation = gen,
           m2_prot = prot, m2_flags = flags\<rparr>, p))))))))))))"

definition Mmap2Record_parse :: "perf_event_attr \<Rightarrow> bytes \<Rightarrow> abort + Mmap2Record" where
  "Mmap2Record_parse attr p =
     rbind (Record_parse p) (\<lambda>r.
     let e = ptr_end p (rh_size (header r)) in
     rbind (skip header_size p) (\<lambda>p.
     rbind (get_Mmap2Data p) (\<lambda>(d, p).
     rbind (get_cstr p) (\<lambda>name.
     rbind (skip (align_size (length name + 1) 8) p) (\<lambda>p.
     rbind (CHECK_LE p e) (\<lambda>_.
     rbind (SampleId_ReadFromBinaryFormat attr p e (sample_id r)) (\<lambda>sid.
     Inr (Record.extend (r\<lparr>sample_id := sid\<rparr>) (Mmap2Record.fields d name)))))))))"

definition Mmap2Record_SetDataAndFilename ::
    "(nat \<Rightarrow> u8) \<Rightarrow> Mmap2Data \<Rightarrow> bytes \<Rightarrow> Mmap2Record \<Rightarrow> abort + Mmap2Record" where
  "Mmap2Record_SetDataAndFilename junk d name r =
     (let r = SetSize (header_size + 64 + align_size (length name + 1) 8 + SampleId_Size (sample_id r)) r
      in
      rbind (RecordHeader_MoveToBinaryFormat (header r) ([], new_char junk (unat (rh_size (header r))))) (\<lambda>w.
      rbind (put_bytes (Mmap2Data_bytes d) w) (\<lambda>w.
      rbind (put_strcpy name (align_size (length name + 1) 8) w) (\<lambda>w.
      rbind (SampleId_WriteToBinaryFormat (sample_id r) w) (\<lambda>w.
      Inr (UpdateBinary (wcursor_bytes w) (r\<lparr>mmap2_data := d, mmap2_filename := c_str name\<rparr>)))))))"

text \<open>The constructor assigns six members of the local structure; the rest keep \<open>uninit\<close>.\<close>

definition Mmap2Record_new ::
    "(nat \<Rightarrow> u8) \<Rightarrow> Mmap2Data \<Rightarrow> perf_event_attr \<Rightarrow> bool \<Rightarrow> u32 \<Rightarrow> u32 \<Rightarrow> u64 \<Rightarrow> u64 \<Rightarrow> u64 \<Rightarrow> u32
      \<Rightarrow> bytes \<Rightarrow> u64 \<Rightarrow> u64 \<Rightarrow> abort + Mmap2Record" where
  "Mmap2Record_new junk uninit attr in_kernel pid tid addr len pgoff prot filename event_id time =
     (let d = uninit\<lparr>m2_pid := pid, m2_tid := tid, m2_addr := addr, m2_len := len, m2_pgoff := pgoff,
                     m2_prot := prot\<rparr>;
          r = Record.extend Record_init (Mmap2Record.fields d []);
          r = SetTypeAndMisc PERF_RECORD_MMAP2
                (if in_kernel then PERF_RECORD_MISC_KERNEL else PERF_RECORD_MISC_USER) r;
          r = r\<lparr>sample_id := (fst (SampleId_CreateContent attr event_id (sample_id r)))\<lparr>sid_time := time\<rparr>\<rparr>
      in Mmap2Record_SetDataAndFilename junk d filename r)"

section \<open>CommRecord\<close>

record CommRecord = Record +
  comm_pid :: u32
  comm_tid :: u32
  comm_name :: bytes

definition CommRecord_parse :: "perf_event_attr \<Rightarrow> bytes \<Rightarrow> abort + CommRecord" where
  "CommRecord_parse attr p =
     rbind (Record_parse p) (\<lambda>r.
     let e = ptr_end p (rh_size (header r)) in
     rbind (skip header_size p) (\<lambda>p.
     rbind (get_u32 p) (\<lambda>(pid, p). rbind (get_u32 p) (\<lambda>(tid, p).
     rbind (get_cstr p) (\<lambda>comm.
     rbind (skip (align_size (length comm + 1) 8) p) (\<lambda>p.
     rbind (CHECK_LE p e) (\<lambda>_.
     rbind (SampleId_ReadFromBinaryFormat attr p e (sample_id r)) (\<lambda>sid.
     Inr (Record.extend (r\<lparr>sample_id := sid\<rparr>) (CommRecord.fields pid tid comm))))))))))"

definition CommRecord_new ::
    "(nat \<Rightarrow> u8) \<Rightarrow> perf_event_attr \<Rightarrow> u32 \<Rightarrow> u32 \<Rightarrow> bytes \<Rightarrow> u64 \<Rightarrow> u64 \<Rightarrow> abort + CommRecord" where
  "CommRecord_new junk attr pid tid comm event_id time =
     (let r = SetTypeAndMisc PERF_RECORD_COMM 0 (Record.extend Record_init (CommRecord.fields pid tid (c_str comm)));
          (sid, sample_id_size) = SampleId_CreateContent attr event_id (sample_id r);
          r = r\<lparr>sample_id := sid\<lparr>sid_time := time\<rparr>\<rparr>;
          r = SetSize (header_size + 8 + align_size (length comm + 1) 8 + sample_id_size) r
      in
      rbind (RecordHeader_MoveToBinaryFormat (header r) ([], new_char junk (unat (rh_size (header r))))) (\<lambda>w.
      rbind (put_bytes (to_le 4 pid @ to_le 4 tid) w) (\<lambda>w.
      rbind (put_strcpy comm (align_size (length comm + 1) 8) w) (\<lambda>w.
      rbind (SampleId_WriteToBinaryFormat (sample_id r) w) (\<lambda>w.
      Inr (UpdateBinary (wcursor_bytes w) r))))))"

section \<open>ExitRecord and ForkRecord\<close>

record ExitOrForkRecord = Record +
  ef_pid :: u32
  ef_ppid :: u32
  ef_tid :: u32
  ef_ptid :: u32
  ef_time :: u64

definition ExitOrForkRecord_parse :: "perf_event_attr \<Rightarrow> bytes \<Rightarrow> abort + ExitOrForkRecord" where
  "ExitOrForkRecord_parse attr p =
     rbind (Record_parse p) (\<lambda>r.
     let e = ptr_end p (rh_size (header r)) in
     rbind (skip header_size p) (\<lambda>p.
     rbind (get_u32 p) (\<lambda>(pid, p). rbind (get_u32 p) (\<lambda>(ppid, p).
     rbind (get_u32 p) (\<lambda>(tid, p). rbind (get_u32 p) (\<lambda>(ptid, p).
     rbind (get_u64 p) (\<lambda>(time, p).
     rbind (CHECK_LE p e) (\<lambda>_.
     rbind (SampleId_ReadFromBinaryFormat attr p e (sample_id r)) (\<lambda>sid.
     Inr (Record.extend (r\<lparr>sample_id := sid\<rparr>) (ExitOrForkRecord.fields pid ppid tid ptid time)))))))))))"

definition ForkRecord_new ::
    "(nat \<Rightarrow> u8) \<Rightarrow> perf_event_attr \<Rightarrow> u32 \<Rightarrow> u32 \<Rightarrow> u32 \<Rightarrow> u32 \<Rightarrow> u64 \<Rightarrow> abort + ExitOrForkRecord" where
  "ForkRecord_new junk attr pid tid ppid ptid event_id =
     (let r = SetTypeAndMisc PERF_RECORD_FORK 0
                (Record.extend Record_init (ExitOrForkRecord.fields pid ppid tid ptid 0));
          (sid, sample_id_size) = SampleId_CreateContent attr event_id (sample_id r);
          r = SetSize (header_size + 24 + sample_id_size) (r\<lparr>sample_id := sid\<rparr>)
      in
      rbind (RecordHeader_MoveToBinaryFormat (header r) ([], new_char junk (unat (rh_size (header r))))) (\<lambda>w.
      rbind (put_bytes (to_le 4 pid @ to_le 4 ppid @ to_le 4 tid @ to_le 4 ptid @ to_le 8 (0 :: u64)) w) (\<lambda>w.
      rbind (SampleId_WriteToBinaryFormat (sample_id r) w) (\<lambda>w.
      Inr (UpdateBinary (wcursor_bytes w) r)))))"

section \<open>LostRecord\<close>

record LostRecord = Record +
  lost_id :: u64
  lost_lost :: u64

definition LostRecord_parse :: "perf_event_attr \<Rightarrow> bytes \<Rightarrow> abort + LostRecord" where
  "LostRecord_parse attr p =
     rbind (Record_parse p) (\<lambda>r.
     let e = ptr_end p (rh_size (header r)) in
     rbind (skip header_size p) (\<lambda>p.
     rbind (get_u64 p) (\<lambda>(i, p). rbind (get_u64 p) (\<lambda>(lost, p).
     rbind (CHECK_LE p e) (\<lambda>_.
     rbind (SampleId_ReadFromBinaryFormat attr p e (sample_id r)) (\<lambda>sid.
     Inr (Record.extend (r\<lparr>sample_id := sid\<rparr>) (LostRecord.fields i lost))))))))"

section \<open>BuildIdRecord\<close>

text \<open>\<open>BuildId\<close> is an array of \<open>BUILD_ID_SIZE\<close> bytes.\<close>

definition BUILD_ID_SIZE :: nat where
  "BUILD_ID_SIZE = 20"

definition BuildId_copy :: "bytes \<Rightarrow> nat \<Rightarrow> bytes" where
  "BuildId_copy d len = take (min len BUILD_ID_SIZE) d @ replicate (BUILD_ID_SIZE - min len BUILD_ID_SIZE) 0"

record BuildIdRecord = Record +
  bi_pid :: u32
  bi_build_id :: bytes
  bi_filename :: bytes

definition BuildIdRecord_parse :: "bytes \<Rightarrow> abort + BuildIdRecord" where
  "BuildIdRecord_parse p =
     rbind (Record_parse p) (\<lambda>r.
     let e = ptr_end p (rh_size (header r)) in
     rbind (skip header_size p) (\<lambda>p.
     rbind (get_u32 p) (\<lambda>(pid, p).
     rbind (get_bytes BUILD_ID_SIZE p) (\<lambda>(d, _).
     rbind (skip (align_size BUILD_ID_SIZE 8) p) (\<lambda>p.
     rbind (get_cstr p) (\<lambda>name.
     rbind (skip (align_size (length name + 1) 64) p) (\<lambda>p.
     rbind (CHECK_EQ p e) (\<lambda>_.
     Inr (Record.extend r (BuildIdRecord.fields pid (BuildId_copy d BUILD_ID_SIZE) name))))))))))"

definition BuildIdRecord_new ::
    "(nat \<Rightarrow> u8) \<Rightarrow> bool \<Rightarrow> u32 \<Rightarrow> bytes \<Rightarrow> bytes \<Rightarrow> abort + BuildIdRecord" where
  "BuildIdRecord_new junk in_kernel pid build_id filename =
     (let r = SetTypeAndMisc PERF_RECORD_BUILD_ID
                (if in_kernel then PERF_RECORD_MISC_KERNEL else PERF_RECORD_MISC_USER)
                (Record.extend Record_init (BuildIdRecord.fields pid build_id (c_str filename)));
          r = SetSize (header_size + 4 + align_size BUILD_ID_SIZE 8 + align_size (length filename + 1) 64) r
      in
      rbind (RecordHeader_MoveToBinaryFormat (header r) ([], new_char junk (unat (rh_size (header r))))) (\<lambda>w.
      rbind (put_bytes (to_le 4 pid) w) (\<lambda>w.
      rbind (put_bytes build_id w) (\<lambda>w.
      rbind (put_skip (align_size BUILD_ID_SIZE 8 - BUILD_ID_SIZE) w) (\<lambda>w.
      rbind (put_bytes (c_str filename @ [0]) w) (\<lambda>w.
      Inr (UpdateBinary (wcursor_bytes w) r)))))))"

section \<open>KernelSymbolRecord and TracingDataRecord\<close>

record KernelSymbolRecord = Record +
  ks_kallsyms_size :: u32
  ks_kallsyms :: bytes

definition KernelSymbolRecord_parse :: "bytes \<Rightarrow> abort + KernelSymbolRecord" where
  "KernelSymbolRecord_parse p =
     rbind (Record_parse p) (\<lambda>r.
     let e = ptr_end p (rh_size (header r)) in
     rbind (skip header_size p) (\<lambda>p.
     rbind (get_u32 p) (\<lambda>(n, p).
     rbind (get_bytes (unat n) p) (\<lambda>(d, _).
     rbind (skip (align_size (unat n) 8) p) (\<lambda>p.
     rbind (CHECK_EQ p e) (\<lambda>_.
     Inr (Record.extend r (KernelSymbolRecord.fields n d))))))))"

definition KernelSymbolRecord_new :: "(nat \<Rightarrow> u8) \<Rightarrow> bytes \<Rightarrow> abort + KernelSymbolRecord" where
  "KernelSymbolRecord_new junk kallsyms =
     (let n = of_nat (length kallsyms);
          d = take (unat n) kallsyms;
          r = SetTypeAndMisc SIMPLE_PERF_RECORD_KERNEL_SYMBOL 0
                (Record.extend Record_init (KernelSymbolRecord.fields n d));
          r = SetSize (header_size + 4 + align_size (length kallsyms) 8) r
      in
      rbind (RecordHeader_MoveToBinaryFormat (header r) ([], new_char junk (unat (rh_size (header r))))) (\<lambda>w.
      rbind (put_bytes (to_le 4 n) w) (\<lambda>w.
      rbind (put_bytes d w) (\<lambda>w.
      Inr (UpdateBinary (wcursor_bytes w) r)))))"

record TracingDataRecord = Record +
  td_data_size :: u32
  td_data :: bytes

definition TracingDataRecord_parse :: "bytes \<Rightarrow> abort + TracingDataRecord" where
  "TracingDataRecord_parse p =
     rbind (Record_parse p) (\<lambda>r.
     let e = ptr_end p (rh_size (header r)) in
     rbind (skip header_size p) (\<lambda>p.
     rbind (get_u32 p) (\<lambda>(n, p).
     rbind (get_bytes (unat n) p) (\<lambda>(d, _).
     rbind (skip (align_size (unat n) 64) p) (\<lambda>p.
     rbind (CHECK_EQ p e) (\<lambda>_.
     Inr (Record.extend r (TracingDataRecord.fields n d))))))))"

definition TracingDataRecord_new :: "(nat \<Rightarrow> u8) \<Rightarrow> bytes \<Rightarrow> abort + TracingDataRecord" where
  "TracingDataRecord_new junk tracing_data =
     (let n = of_nat (length tracing_data);
          d = take (unat n) tracing_data;
          r = SetTypeAndMisc SIMPLE_PERF_RECORD_TRACING_DATA 0
                (Record.extend Record_init (TracingDataRecord.fields n d));
          r = SetSize (header_size + 4 + align_size (length tracing_data) 64) r
      in
      rbind (RecordHeader_MoveToBinaryFormat (header r) ([], new_char junk (unat (rh_size (header r))))) (\<lambda>w.
      rbind (put_bytes (to_le 4 n) w) (\<lambda>w.
      rbind (put_bytes d w) (\<lambda>w.
      Inr (UpdateBinary (wcursor_bytes w) r)))))"

section \<open>DsoRecord and SymbolRecord\<close>

record DsoRecord = Record +
  dr_dso_type :: u64
  dr_dso_id :: u64
  dr_min_vaddr :: u64
  dr_dso_name :: bytes

definition DsoRecord_parse :: "bytes \<Rightarrow> abort + DsoRecord" where
  "DsoRecord_parse p =
     rbind (Record_parse p) (\<lambda>r.
     let e = ptr_end p (rh_size (header r)) in
     rbind (skip header_size p) (\<lambda>p.
     rbind (get_u64 p) (\<lambda>(ty, p). rbind (get_u64 p) (\<lambda>(i, p). rbind (get_u64 p) (\<lambda>(vaddr, p).
     rbind (get_cstr p) (\<lambda>name.
     rbind (skip (align_size (length name + 1) 8) p) (\<lambda>p.
     rbind (CHECK_EQ p e) (\<lambda>_.
     Inr (Record.extend r (DsoRecord.fields ty i vaddr name))))))))))"

definition DsoRecord_new :: "(nat \<Rightarrow> u8) \<Rightarrow> u64 \<Rightarrow> u64 \<Rightarrow> bytes \<Rightarrow> u64 \<Rightarrow> abort + DsoRecord" where
  "DsoRecord_new junk dso_type dso_id dso_name min_vaddr =
     (let r = SetTypeAndMisc SIMPLE_PERF_RECORD_DSO 0
                (Record.extend Record_init (DsoRecord.fields dso_type dso_id min_vaddr (c_str dso_name)));
          r = SetSize (header_size + 3 * 8 + align_size (length dso_name + 1) 8) r
      in
      rbind (RecordHeader_MoveToBinaryFormat (header r) ([], new_char junk (unat (rh_size (header r))))) (\<lambda>w.
      rbind (put_bytes (to_le 8 dso_type) w) (\<lambda>w.
      rbind (put_bytes (to_le 8 dso_id) w) (\<lambda>w.
      rbind (put_bytes (to_le 8 min_vaddr) w) (\<lambda>w.
      rbind (put_bytes (c_str dso_name @ [0]) w) (\<lambda>w.
      Inr (UpdateBinary (wcursor_bytes w) r)))))))"

record SymbolRecord = Record +
  sy_addr :: u64
  sy_len :: u64
  sy_dso_id :: u64
  sy_name :: bytes

definition SymbolRecord_parse :: "bytes \<Rightarrow> abort + SymbolRecord" where
  "SymbolRecord_parse p =
     rbind (Record_parse p) (\<lambda>r.
     let e = ptr_end p (rh_size (header r)) in
     rbind (skip header_size p) (\<lambda>p.
     rbind (get_u64 p) (\<lambda>(addr, p). rbind (get_u64 p) (\<lambda>(len, p). rbind (get_u64 p) (\<lambda>(i, p).
     rbind (get_cstr p) (\<lambda>name.
     rbind (skip (align_size (length name + 1) 8) p) (\<lambda>p.
     rbind (CHECK_EQ p e) (\<lambda>_.
     Inr (Record.extend r (SymbolRecord.fields addr len i name))))))))))"

definition SymbolRecord_new :: "(nat \<Rightarrow> u8) \<Rightarrow> u64 \<Rightarrow> u64 \<Rightarrow> bytes \<Rightarrow> u64 \<Rightarrow> abort + SymbolRecord" where
  "SymbolRecord_new junk addr len name dso_id =
     (let r = SetTypeAndMisc SIMPLE_PERF_RECORD_SYMBOL 0
                (Record.extend Record_init (SymbolRecord.fields addr len dso_id (c_str name)));
          r = SetSize (header_size + 3 * 8 + align_size (length name + 1) 8) r
      in
      rbind (RecordHeader_MoveToBinaryFormat (header r) ([], new_char junk (unat (rh_size (header r))))) (\<lambda>w.
      rbind (put_bytes (to_le 8 addr) w) (\<lambda>w.
      rbind (put_bytes (to_le 8 len) w) (\<lambda>w.
      rbind (put_bytes (to_le 8 dso_id) w) (\<lambda>w.
      rbind (put_bytes (c_str name @ [0]) w) (\<lambda>w.
      Inr (UpdateBinary (wcursor_bytes w) r)))))))"

section \<open>EventIdRecord\<close>

text \<open>\<open>ei_data\<close> holds \<open>count\<close> pairs of an attribute id and an event id, as stored.\<close>

record EventIdRecord = Record +
  ei_count :: u64
  ei_data :: "u64 list"

definition EventIdRecord_parse :: "bytes \<Rightarrow> abort + EventIdRecord" where
  "EventIdRecord_parse p =
     rbind (Record_parse p) (\<lambda>r.
     let e = ptr_end p (rh_size (header r)) in
     rbind (skip header_size p) (\<lambda>p.
     rbind (get_u64 p) (\<lambda>(count, p).
     rbind (get_u64_array (count * 2) p) (\<lambda>(d, p).
     rbind (CHECK_EQ p e) (\<lambda>_.
     Inr (Record.extend r (EventIdRecord.fields count d)))))))"

definition EventIdRecord_new :: "(nat \<Rightarrow> u8) \<Rightarrow> u64 list \<Rightarrow> abort + EventIdRecord" where
  "EventIdRecord_new junk d =
     (let count = of_nat (length d div 2);
          r = SetTypeAndMisc SIMPLE_PERF_RECORD_EVENT_ID 0
                (Record.extend Record_init (EventIdRecord.fields count d));
          r = SetSize (header_size + 8 * (1 + length d)) r
      in
      rbind (RecordHeader_MoveToBinaryFormat (header r) ([], new_char junk (unat (rh_size (header r))))) (\<lambda>w.
      rbind (put_bytes (to_le 8 count) w) (\<lambda>w.
      rbind (put_bytes (u64s_bytes d) w) (\<lambda>w.
      Inr (UpdateBinary (wcursor_bytes w) r)))))"

section \<open>CallChainRecord\<close>

datatype ChainType = ORIGINAL_OFFLINE | ORIGINAL_REMOTE | JOINED_OFFLINE | JOINED_REMOTE

fun chain_type_num :: "ChainType \<Rightarrow> nat" where
  "chain_type_num ORIGINAL_OFFLINE = 0"
| "chain_type_num ORIGINAL_REMOTE = 1"
| "chain_type_num JOINED_OFFLINE = 2"
| "chain_type_num JOINED_REMOTE = 3"

record CallChainRecord = Record +
  cr_pid :: u32
  cr_tid :: u32
  cr_chain_type :: u64
  cr_time :: u64
  cr_ip_nr :: u64
  cr_ips :: "u64 list"
  cr_sps :: "u64 list"

definition CallChainRecord_parse :: "bytes \<Rightarrow> abort + CallChainRecord" where
  "CallChainRecord_parse p =
     rbind (Record_parse p) (\<lambda>r.
     let e = ptr_end p (rh_size (header r)) in
     rbind (skip header_size p) (\<lambda>p.
     rbind (get_u32 p) (\<lambda>(pid, p). rbind (get_u32 p) (\<lambda>(tid, p).
     rbind (get_u64 p) (\<lambda>(ct, p). rbind (get_u64 p) (\<lambda>(time, p). rbind (get_u64 p) (\<lambda>(n, p).
     rbind (get_u64_array n p) (\<lambda>(ips, p).
     rbind (get_u64_array n p) (\<lambda>(sps, p).
     rbind (CHECK_EQ p e) (\<lambda>_.
     Inr (Record.extend r (CallChainRecord.fields pid tid ct time n ips sps))))))))))))"

definition CallChainRecord_new ::
    "(nat \<Rightarrow> u8) \<Rightarrow> u32 \<Rightarrow> u32 \<Rightarrow> ChainType \<Rightarrow> u64 \<Rightarrow> u64 list \<Rightarrow> u64 list \<Rightarrow> abort + CallChainRecord" where
  "CallChainRecord_new junk pid tid ty time ips sps =
     rbind (CHECK (length ips = length sps)) (\<lambda>_.
     let ct = of_nat (chain_type_num ty);
         n = of_nat (length ips);
         r = SetTypeAndMisc SIMPLE_PERF_RECORD_CALLCHAIN 0
               (Record.extend Record_init (CallChainRecord.fields pid tid ct time n ips sps));
         r = SetSize (header_size + (4 + length ips * 2) * 8) r
     in
     rbind (RecordHeader_MoveToBinaryFormat (header r) ([], new_char junk (unat (rh_size (header r))))) (\<lambda>w.
     rbind (put_bytes (to_le 4 pid) w) (\<lambda>w.
     rbind (put_bytes (to_le 4 tid) w) (\<lambda>w.
     rbind (put_bytes (to_le 8 ct) w) (\<lambda>w.
     rbind (put_bytes (to_le 8 time) w) (\<lambda>w.
     rbind (put_bytes (to_le 8 n) w) (\<lambda>w.
     rbind (put_bytes (u64s_bytes ips) w) (\<lambda>w.
     rbind (put_bytes (u64s_bytes sps) w) (\<lambda>w.
     Inr (UpdateBinary (wcursor_bytes w) r))))))))))"

section \<open>UnwindingResultRecord\<close>

record UnwindingResult =
  ur_used_time :: u64
  ur_stop_reason :: u32
  ur_stop_info :: u64
  ur_stack_start :: u64
  ur_stack_end :: u64

record UnwindingResultRecord = Record +
  urr_time :: u64
  urr_result :: UnwindingResult

text \<open>The stop reason is an enumeration, stored in 64 bits and cut to 32 when read.\<close>

definition UnwindingResultRecord_parse :: "bytes \<Rightarrow> abort + UnwindingResultRecord" where
  "UnwindingResultRecord_parse p =
     rbind (Record_parse p) (\<lambda>r.
     let e = ptr_end p (rh_size (header r)) in
     rbind (skip header_size p) (\<lambda>p.
     rbind (get_u64 p) (\<lambda>(time, p). rbind (get_u64 p) (\<lambda>(used, p). rbind (get_u64 p) (\<lambda>(reason, p).
     rbind (get_u64 p) (\<lambda>(info, p). rbind (get_u64 p) (\<lambda>(st, p). rbind (get_u64 p) (\<lambda>(en, p).
     rbind (CHECK_EQ p e) (\<lambda>_.
     Inr (Record.extend r (UnwindingResultRecord.fields time
       \<lparr>ur_used_time = used, ur_stop_reason = ucast reason, ur_stop_info = info,
        ur_stack_start = st, ur_stack_end = en\<rparr>)))))))))))"

definition UnwindingResultRecord_new ::
    "(nat \<Rightarrow> u8) \<Rightarrow> u64 \<Rightarrow> UnwindingResult \<Rightarrow> abort + UnwindingResultRecord" where
  "UnwindingResultRecord_new junk time u =
     (let r = SetTypeAndMisc SIMPLE_PERF_RECORD_UNWINDING_RESULT 0
                (Record.extend Record_init (UnwindingResultRecord.fields time u));
          r = SetSize (header_size + 6 * 8) r
      in
      rbind (RecordHeader_MoveToBinaryFormat (header r) ([], new_char junk (unat (rh_size (header r))))) (\<lambda>w.
      rbind (put_bytes (to_le 8 time) w) (\<lambda>w.
      rbind (put_bytes (to_le 8 (ur_used_time u)) w) (\<lambda>w.
      rbind (put_bytes (to_le 8 (ucast (ur_stop_reason u) :: u64)) w) (\<lambda>w.
      rbind (put_bytes (to_le 8 (ur_stop_info u)) w) (\<lambda>w.
      rbind (put_bytes (to_le 8 (ur_stack_start u)) w) (\<lambda>w.
      rbind (put_bytes (to_le 8 (ur_stack_end u)) w) (\<lambda>w.
      Inr (UpdateBinary (wcursor_bytes w) r)))))))))"

section \<open>UnknownRecord\<close>

record UnknownRecord = Record +
  unk_data :: bytes

definition UnknownRecord_parse :: "bytes \<Rightarrow> abort + UnknownRecord" where
  "UnknownRecord_parse p =
     rbind (Record_parse p) (\<lambda>r.
     rbind (skip header_size p) (\<lambda>p.
     Inr (Record.extend r (UnknownRecord.fields p))))"

end
