(* ===== verification/Sample_Record.thy ===== *)
theory Sample_Record
  imports Records
begin

text \<open>
  \<open>SampleRecord\<close> of \<^verbatim>\<open>simpleperf/record.cpp\<close>: the parsing constructor, the constructor that builds
  a sample, and the member functions, which rewrite the binary of the sample in place.

  The members that point into the binary (\<^verbatim>\<open>callchain_data.ips\<close>, \<^verbatim>\<open>raw_data.data\<close>,
  \<^verbatim>\<open>branch_stack_data.stack\<close>, \<^verbatim>\<open>regs_user_data.regs\<close>, \<^verbatim>\<open>stack_user_data.data\<close>) are offsets into
  \<open>binary\<close>, so writing through one of them is an update of \<open>binary\<close> that the others see. Members
  that a constructor does not assign keep the contents \<open>uninit\<close> of the memory of the object.
\<close>

section \<open>Access at an offset\<close>

definition read_at :: "nat \<Rightarrow> nat \<Rightarrow> bytes \<Rightarrow> abort + bytes" where
  "read_at i n b = (if i + n \<le> length b then Inr (take n (drop i b)) else Inl OutOfBounds)"

definition read_u64_at :: "nat \<Rightarrow> bytes \<Rightarrow> abort + u64" where
  "read_u64_at i b = rbind (read_at i 8 b) (\<lambda>bs. Inr (from_le bs))"

definition write_at :: "nat \<Rightarrow> bytes \<Rightarrow> bytes \<Rightarrow> abort + bytes" where
  "write_at i bs b = (if i + length bs \<le> length b
     then Inr (take i b @ bs @ drop (i + length bs) b) else Inl OutOfBounds)"

text \<open>\<^verbatim>\<open>p -= n\<close> on a pointer into the binary.\<close>

definition sub_ptr :: "nat \<Rightarrow> nat \<Rightarrow> abort + nat" where
  "sub_ptr p n = (if n \<le> p then Inr (p - n) else Inl OutOfBounds)"

section \<open>The sample\<close>

record SampleRecord = Record +
  sample_type :: u64
  ip_data :: u64
  tid_data_pid :: u32
  tid_data_tid :: u32
  time_data :: u64
  addr_data :: u64
  id_data :: u64
  stream_id_data :: u64
  cpu_data_cpu :: u32
  cpu_data_res :: u32
  period_data :: u64
  callchain_ip_nr :: u64
  callchain_ips :: nat
  raw_size :: u32
  raw_data :: nat
  branch_stack_nr :: u64
  branch_stack :: nat
  regs_abi :: u64
  regs_mask :: u64
  regs_nr :: u64
  regs_regs :: nat
  stack_size :: u64
  stack_data :: nat
  stack_dyn_size :: u64

text \<open>\<^verbatim>\<open>for (i = 0; i < 64; ++i) if ((reg_mask >> i) & 1) bit_nr++;\<close>\<close>

definition reg_mask_bits :: "u64 \<Rightarrow> nat" where
  "reg_mask_bits m = length (filter (\<lambda>i. drop_bit i m AND 1 = 1) [0..<64])"

text \<open>The variable-sized parts; \<open>n0\<close> is the length of the buffer at the start of the record.\<close>

definition get_callchain :: "nat \<Rightarrow> bytes \<Rightarrow> abort + (u64 \<times> nat) \<times> bytes" where
  "get_callchain n0 p =
     rbind (get_u64 p) (\<lambda>(n, p). rbind (skip (unat (n * 8)) p) (\<lambda>q. Inr ((n, n0 - length p), q)))"

definition get_raw :: "nat \<Rightarrow> bytes \<Rightarrow> abort + (u32 \<times> nat) \<times> bytes" where
  "get_raw n0 p =
     rbind (get_u32 p) (\<lambda>(n, p). rbind (skip (unat n) p) (\<lambda>q. Inr ((n, n0 - length p), q)))"

definition get_branch_stack :: "nat \<Rightarrow> bytes \<Rightarrow> abort + (u64 \<times> nat) \<times> bytes" where
  "get_branch_stack n0 p =
     rbind (get_u64 p) (\<lambda>(n, p). rbind (skip (unat (n * 24)) p) (\<lambda>q. Inr ((n, n0 - length p), q)))"

definition get_regs :: "u64 \<Rightarrow> u64 \<times> nat \<Rightarrow> nat \<Rightarrow> bytes \<Rightarrow> abort + (u64 \<times> u64 \<times> u64 \<times> nat) \<times> bytes" where
  "get_regs attr_mask old n0 p =
     rbind (get_u64 p) (\<lambda>(abi, p).
     if abi = 0 then Inr ((abi, 0, old), p)
     else let bit_nr = reg_mask_bits attr_mask in
       rbind (skip (bit_nr * 8) p) (\<lambda>q. Inr ((abi, attr_mask, of_nat bit_nr, n0 - length p), q)))"

definition get_stack :: "nat \<Rightarrow> nat \<Rightarrow> bytes \<Rightarrow> abort + (u64 \<times> nat \<times> u64) \<times> bytes" where
  "get_stack old n0 p =
     rbind (get_u64 p) (\<lambda>(n, p).
     if n = 0 then Inr ((n, old, 0), p)
     else rbind (skip (unat n) p) (\<lambda>q.
       rbind (get_u64 q) (\<lambda>(dyn, q). Inr ((n, n0 - length p, dyn), q))))"

definition SampleRecord_parse :: "SampleRecord \<Rightarrow> perf_event_attr \<Rightarrow> bytes \<Rightarrow> abort + SampleRecord" where
  "SampleRecord_parse uninit attr p =
     rbind (Record_parse p) (\<lambda>r.
     let e = ptr_end p (rh_size (header r)); n0 = length p; t = attr_sample_type attr in
     rbind (skip header_size p) (\<lambda>p.
     rbind (get_if (flag t PERF_SAMPLE_IDENTIFIER) get_u64 0 p) (\<lambda>(i, p).
     rbind (get_if (flag t PERF_SAMPLE_IP) get_u64 (ip_data uninit) p) (\<lambda>(ip, p).
     rbind (get_if (flag t PERF_SAMPLE_TID) get_u32_pair (tid_data_pid uninit, tid_data_tid uninit) p) (\<lambda>((pid, tid), p).
     rbind (get_if (flag t PERF_SAMPLE_TIME) get_u64 (time_data uninit) p) (\<lambda>(time, p).
     rbind (get_if (flag t PERF_SAMPLE_ADDR) get_u64 (addr_data uninit) p) (\<lambda>(addr, p).
     rbind (get_if (flag t PERF_SAMPLE_ID) get_u64 i p) (\<lambda>(i, p).
     rbind (get_if (flag t PERF_SAMPLE_STREAM_ID) get_u64 (stream_id_data uninit) p) (\<lambda>(stream, p).
     rbind (get_if (flag t PERF_SAMPLE_CPU) get_u32_pair (cpu_data_cpu uninit, cpu_data_res uninit) p) (\<lambda>((cpu, res), p).
     rbind (get_if (flag t PERF_SAMPLE_PERIOD) get_u64 (period_data uninit) p) (\<lambda>(period, p).
     rbind (get_if (flag t PERF_SAMPLE_CALLCHAIN) (get_callchain n0)
              (callchain_ip_nr uninit, callchain_ips uninit) p) (\<lambda>((ip_nr, ips), p).
     rbind (get_if (flag t PERF_SAMPLE_RAW) (get_raw n0) (raw_size uninit, raw_data uninit) p) (\<lambda>((rsize, rdata), p).
     rbind (get_if (flag t PERF_SAMPLE_BRANCH_STACK) (get_branch_stack n0)
              (branch_stack_nr uninit, branch_stack uninit) p) (\<lambda>((bnr, bstack), p).
     rbind (get_if (flag t PERF_SAMPLE_REGS_USER)
              (get_regs (attr_sample_regs_user attr) (regs_nr uninit, regs_regs uninit) n0)
              (regs_abi uninit, regs_mask uninit, regs_nr uninit, regs_regs uninit) p) (\<lambda>((abi, rmask, rnr, regs), p).
     rbind (get_if (flag t PERF_SAMPLE_STACK_USER) (get_stack (stack_data uninit) n0)
              (stack_size uninit, stack_data uninit, stack_dyn_size uninit) p) (\<lambda>((ssize, sdata, dyn), p).
     rbind (CHECK_LE p e) (\<lambda>_.
     Inr (Record.extend r (SampleRecord.fields t ip pid tid time addr i stream cpu res period
       ip_nr ips rsize rdata bnr bstack abi rmask rnr regs ssize sdata dyn)))))))))))))))))))"

text \<open>
  The constructor of a new sample: only the sample types named in the \<^verbatim>\<open>CHECK_EQ\<close> are allowed, and
  the sizes are added in 32 bits.
\<close>

definition SampleRecord_new ::
    "(nat \<Rightarrow> u8) \<Rightarrow> SampleRecord \<Rightarrow> perf_event_attr \<Rightarrow> u64 \<Rightarrow> u64 \<Rightarrow> u32 \<Rightarrow> u32 \<Rightarrow> u64 \<Rightarrow> u32 \<Rightarrow> u64
      \<Rightarrow> u64 list \<Rightarrow> abort + SampleRecord" where
  "SampleRecord_new junk uninit attr i ip pid tid time cpu period ips =
     (let t = attr_sample_type attr in
      rbind (CHECK (0 = t AND NOT (PERF_SAMPLE_IP OR PERF_SAMPLE_TID OR PERF_SAMPLE_TIME OR PERF_SAMPLE_ID
        OR PERF_SAMPLE_CPU OR PERF_SAMPLE_PERIOD OR PERF_SAMPLE_CALLCHAIN OR PERF_SAMPLE_REGS_USER
        OR PERF_SAMPLE_STACK_USER))) (\<lambda>_.
      let r = SetTypeAndMisc PERF_RECORD_SAMPLE PERF_RECORD_MISC_USER
            (uninit\<lparr>header := RecordHeader_zero, sample_id := SampleId_init, binary := [], own_binary := False,
              sample_type := t, ip_data := ip, tid_data_pid := pid, tid_data_tid := tid, time_data := time,
              id_data := i, cpu_data_cpu := cpu, cpu_data_res := 0, period_data := period,
              callchain_ip_nr := of_nat (length ips), raw_size := 0, branch_stack_nr := 0,
              regs_abi := 0, regs_mask := 0, stack_size := 0\<rparr>);
          size = header_size
            + (if flag t PERF_SAMPLE_IP then 8 else 0)
            + (if flag t PERF_SAMPLE_TID then 8 else 0)
            + (if flag t PERF_SAMPLE_TIME then 8 else 0)
            + (if flag t PERF_SAMPLE_ID then 8 else 0)
            + (if flag t PERF_SAMPLE_CPU then 8 else 0)
            + (if flag t PERF_SAMPLE_PERIOD then 8 else 0)
            + (if flag t PERF_SAMPLE_CALLCHAIN then 8 * (length ips + 1) else 0)
            + (if flag t PERF_SAMPLE_REGS_USER then 8 else 0)
            + (if flag t PERF_SAMPLE_STACK_USER then 8 else 0);
          r = SetSize size r
      in
      rbind (RecordHeader_MoveToBinaryFormat (header r) ([], new_char junk (unat (rh_size (header r))))) (\<lambda>w.
      rbind (put_if (flag t PERF_SAMPLE_IP) (to_le 8 ip) w) (\<lambda>w.
      rbind (put_if (flag t PERF_SAMPLE_TID) (to_le 4 pid @ to_le 4 tid) w) (\<lambda>w.
      rbind (put_if (flag t PERF_SAMPLE_TIME) (to_le 8 time) w) (\<lambda>w.
      rbind (put_if (flag t PERF_SAMPLE_ID) (to_le 8 i) w) (\<lambda>w.
      rbind (put_if (flag t PERF_SAMPLE_CPU) (to_le 4 cpu @ to_le 4 (0 :: u32)) w) (\<lambda>w.
      rbind (put_if (flag t PERF_SAMPLE_PERIOD) (to_le 8 period) w) (\<lambda>w.
      let r = (if flag t PERF_SAMPLE_CALLCHAIN then r\<lparr>callchain_ips := length (fst w) + 8\<rparr> else r) in
      rbind (put_if (flag t PERF_SAMPLE_CALLCHAIN)
               (to_le 8 (of_nat (length ips) :: u64) @ u64s_bytes ips) w) (\<lambda>w.
      rbind (put_if (flag t PERF_SAMPLE_REGS_USER) (to_le 8 (regs_abi r)) w) (\<lambda>w.
      rbind (put_if (flag t PERF_SAMPLE_STACK_USER) (to_le 8 (stack_size r)) w) (\<lambda>w.
      rbind (CHECK (snd w = [])) (\<lambda>_.
      Inr (UpdateBinary (wcursor_bytes w) r))))))))))))))"

section \<open>Member functions\<close>

definition SampleRecord_Timestamp :: "SampleRecord \<Rightarrow> u64" where
  "SampleRecord_Timestamp r = time_data r"

definition SampleRecord_Cpu :: "SampleRecord \<Rightarrow> u32" where
  "SampleRecord_Cpu r = cpu_data_cpu r"

definition SampleRecord_Id :: "SampleRecord \<Rightarrow> u64" where
  "SampleRecord_Id r = id_data r"

definition GetValidStackSize :: "SampleRecord \<Rightarrow> u64" where
  "GetValidStackSize r = (if stack_dyn_size r = 0 then stack_size r else stack_dyn_size r)"

text \<open>
  The call chain of the unwinder replaces the registers and the stack in place, from the end of
  the record to its front; the parts in between move up by the size the call chain grows by.
\<close>

definition write_header :: "SampleRecord \<Rightarrow> abort + SampleRecord" where
  "write_header r = rbind (RecordHeader_MoveToBinaryFormat (header r) ([], binary r)) (\<lambda>w.
     Inr (r\<lparr>binary := wcursor_bytes w\<rparr>))"

definition move_branch_stack :: "SampleRecord \<Rightarrow> nat \<Rightarrow> bytes \<Rightarrow> abort + nat \<times> bytes" where
  "move_branch_stack r p b =
     (if flag (sample_type r) PERF_SAMPLE_BRANCH_STACK
      then rbind (sub_ptr p (unat (branch_stack_nr r * 24))) (\<lambda>p.
           rbind (read_at (branch_stack r) (unat (branch_stack_nr r * 24)) b) (\<lambda>d.
           rbind (write_at p d b) (\<lambda>b.
           rbind (sub_ptr p 8) (\<lambda>p.
           rbind (write_at p (to_le 8 (branch_stack_nr r)) b) (\<lambda>b. Inr (p, b))))))
      else Inr (p, b))"

definition move_raw_data :: "SampleRecord \<Rightarrow> nat \<Rightarrow> bytes \<Rightarrow> abort + nat \<times> bytes" where
  "move_raw_data r p b =
     (if flag (sample_type r) PERF_SAMPLE_RAW
      then rbind (sub_ptr p (unat (raw_size r))) (\<lambda>p.
           rbind (read_at (raw_data r) (unat (raw_size r)) b) (\<lambda>d.
           rbind (write_at p d b) (\<lambda>b.
           rbind (sub_ptr p 4) (\<lambda>p.
           rbind (write_at p (to_le 4 (raw_size r)) b) (\<lambda>b. Inr (p, b))))))
      else Inr (p, b))"

definition ReplaceRegAndStackWithCallChain :: "u64 list \<Rightarrow> SampleRecord \<Rightarrow> abort + SampleRecord" where
  "ReplaceRegAndStackWithCallChain ips r =
     (let added = of_nat (8 * (length ips + 1)) :: u32;
          reduced = ucast (regs_nr r * 8 + stack_size r + 8) :: u32
      in
      rbind (CHECK (added \<le> reduced)) (\<lambda>_.
      rbind (write_header (r\<lparr>header := (header r)\<lparr>rh_size := rh_size (header r) - (reduced - added)\<rparr>\<rparr>)) (\<lambda>r.
      rbind (sub_ptr (stack_data r + unat (stack_size r) + 8) (unat (reduced - added))) (\<lambda>p.
      let r = r\<lparr>stack_size := 0, regs_abi := 0\<rparr> in
      rbind (sub_ptr p 8) (\<lambda>p.
      rbind (write_at p (to_le 8 (stack_size r)) (binary r)) (\<lambda>b.
      rbind (sub_ptr p 8) (\<lambda>p.
      rbind (write_at p (to_le 8 (regs_abi r)) b) (\<lambda>b.
      rbind (move_branch_stack r p b) (\<lambda>(p, b).
      rbind (move_raw_data r p b) (\<lambda>(p, b).
      rbind (sub_ptr p (8 * length ips)) (\<lambda>p.
      rbind (write_at p (u64s_bytes ips) b) (\<lambda>b.
      rbind (sub_ptr p 8) (\<lambda>p.
      rbind (write_at p (to_le 8 PERF_CONTEXT_USER) b) (\<lambda>b.
      rbind (sub_ptr p (unat (8 * callchain_ip_nr r))) (\<lambda>p.
      let r = r\<lparr>callchain_ips := p, callchain_ip_nr := callchain_ip_nr r + (of_nat (length ips) + 1)\<rparr> in
      rbind (sub_ptr p 8) (\<lambda>p.
      rbind (write_at p (to_le 8 (callchain_ip_nr r)) b) (\<lambda>b.
      Inr (r\<lparr>binary := b\<rparr>))))))))))))))))))"

text \<open>
  What \<open>ExcludeKernelCallChain\<close> does at the first user space entry \<open>ip\<close>: it becomes the sampled
  \<open>ip\<close>, written right after the header, and the sample becomes one of user space.
\<close>

definition mark_user_ip :: "u64 \<Rightarrow> SampleRecord \<Rightarrow> abort + SampleRecord" where
  "mark_user_ip ip r =
     rbind (if flag (sample_type r) PERF_SAMPLE_IP
            then write_at header_size (to_le 8 ip) (binary r) else Inr (binary r)) (\<lambda>b.
     let r = r\<lparr>ip_data := ip, header := (header r)\<lparr>rh_misc :=
           (rh_misc (header r) AND NOT PERF_RECORD_MISC_KERNEL) OR PERF_RECORD_MISC_USER\<rparr>\<rparr> in
     rbind (write_at 4 (to_le 2 (rh_misc (header r))) b) (\<lambda>b.
     Inr (r\<lparr>binary := b\<rparr>)))"

text \<open>
  The loop of \<open>ExcludeKernelCallChain\<close> with \<open>n\<close> entries left from index \<open>i\<close>: it stops one entry
  past the first \<open>PERF_CONTEXT_USER\<close> and overwrites the entries before it.
\<close>

primrec exclude_loop :: "nat \<Rightarrow> nat \<Rightarrow> SampleRecord \<Rightarrow> abort + nat \<times> SampleRecord" where
  "exclude_loop 0 i r = Inr (i, r)"
| "exclude_loop (Suc n) i r =
     rbind (read_u64_at (callchain_ips r + 8 * i) (binary r)) (\<lambda>x.
     if x = PERF_CONTEXT_USER
     then let i = i + 1 in
       if n \<noteq> 0
       then rbind (read_u64_at (callchain_ips r + 8 * i) (binary r)) (\<lambda>ip.
            rbind (mark_user_ip ip r) (\<lambda>r. Inr (i, r)))
       else Inr (i, r)
     else rbind (write_at (callchain_ips r + 8 * i) (to_le 8 PERF_CONTEXT_USER) (binary r)) (\<lambda>b.
          exclude_loop n (i + 1) (r\<lparr>binary := b\<rparr>)))"

definition ExcludeKernelCallChain :: "SampleRecord \<Rightarrow> abort + nat \<times> SampleRecord" where
  "ExcludeKernelCallChain r =
     (if flag (sample_type r) PERF_SAMPLE_CALLCHAIN
      then rbind (exclude_loop (unat (callchain_ip_nr r)) 0 r) (\<lambda>(i, r').
           Inr (unat (callchain_ip_nr r) - i, r'))
      else Inr (0, r))"

primrec user_loop :: "nat \<Rightarrow> nat \<Rightarrow> bool \<Rightarrow> SampleRecord \<Rightarrow> abort + bool" where
  "user_loop 0 i in_user r = Inr False"
| "user_loop (Suc n) i in_user r =
     rbind (read_u64_at (callchain_ips r + 8 * i) (binary r)) (\<lambda>x.
     if in_user \<and> x < PERF_CONTEXT_MAX then Inr True
     else user_loop n (i + 1) (in_user \<or> x = PERF_CONTEXT_USER) r)"

definition HasUserCallChain :: "SampleRecord \<Rightarrow> abort + bool" where
  "HasUserCallChain r =
     (if \<not> flag (sample_type r) PERF_SAMPLE_CALLCHAIN then Inr False
      else user_loop (unat (callchain_ip_nr r)) 0 (\<not> InKernel r) r)"

primrec kernel_ips_loop :: "nat \<Rightarrow> nat \<Rightarrow> SampleRecord \<Rightarrow> abort + u64 list" where
  "kernel_ips_loop 0 i r = Inr []"
| "kernel_ips_loop (Suc n) i r =
     rbind (read_u64_at (callchain_ips r + 8 * i) (binary r)) (\<lambda>x.
     if x = PERF_CONTEXT_USER then Inr []
     else rbind (kernel_ips_loop n (i + 1) r) (\<lambda>xs. Inr (x # xs)))"

text \<open>The new binary that \<open>UpdateUserCallChain\<close> writes, of \<open>new_size\<close> bytes.\<close>

definition UpdateUserCallChain_write ::
    "(nat \<Rightarrow> u8) \<Rightarrow> u64 \<Rightarrow> u64 list \<Rightarrow> u64 list \<Rightarrow> SampleRecord \<Rightarrow> abort + SampleRecord" where
  "UpdateUserCallChain_write junk new_size kernel_ips user_ips r =
     (let t = sample_type r; r = SetSize (unat new_size) r in
     rbind (RecordHeader_MoveToBinaryFormat (header r) ([], new_char junk (unat new_size))) (\<lambda>w.
     rbind (put_if (flag t PERF_SAMPLE_IDENTIFIER) (to_le 8 (id_data r)) w) (\<lambda>w.
     rbind (put_if (flag t PERF_SAMPLE_IP) (to_le 8 (ip_data r)) w) (\<lambda>w.
     rbind (put_if (flag t PERF_SAMPLE_TID) (to_le 4 (tid_data_pid r) @ to_le 4 (tid_data_tid r)) w) (\<lambda>w.
     rbind (put_if (flag t PERF_SAMPLE_TIME) (to_le 8 (time_data r)) w) (\<lambda>w.
     rbind (put_if (flag t PERF_SAMPLE_ADDR) (to_le 8 (addr_data r)) w) (\<lambda>w.
     rbind (put_if (flag t PERF_SAMPLE_ID) (to_le 8 (id_data r)) w) (\<lambda>w.
     rbind (put_if (flag t PERF_SAMPLE_STREAM_ID) (to_le 8 (stream_id_data r)) w) (\<lambda>w.
     rbind (put_if (flag t PERF_SAMPLE_CPU) (to_le 4 (cpu_data_cpu r) @ to_le 4 (cpu_data_res r)) w) (\<lambda>w.
     rbind (put_if (flag t PERF_SAMPLE_PERIOD) (to_le 8 (period_data r)) w) (\<lambda>w.
     let r = (if flag t PERF_SAMPLE_CALLCHAIN
       then r\<lparr>callchain_ip_nr := of_nat (length kernel_ips + length user_ips),
              callchain_ips := length (fst w) + 8\<rparr> else r) in
     rbind (put_if (flag t PERF_SAMPLE_CALLCHAIN)
              (to_le 8 (callchain_ip_nr r) @ u64s_bytes kernel_ips @ u64s_bytes user_ips) w) (\<lambda>w.
     rbind (if flag t PERF_SAMPLE_RAW then read_at (raw_data r) (unat (raw_size r)) (binary r) else Inr []) (\<lambda>raw.
     let r = (if flag t PERF_SAMPLE_RAW then r\<lparr>raw_data := length (fst w) + 4\<rparr> else r) in
     rbind (put_if (flag t PERF_SAMPLE_RAW) (to_le 4 (raw_size r) @ raw) w) (\<lambda>w.
     rbind (if flag t PERF_SAMPLE_BRANCH_STACK
            then read_at (branch_stack r) (unat (branch_stack_nr r * 24)) (binary r) else Inr []) (\<lambda>bs.
     let r = (if flag t PERF_SAMPLE_BRANCH_STACK then r\<lparr>branch_stack := length (fst w) + 8\<rparr> else r) in
     rbind (put_if (flag t PERF_SAMPLE_BRANCH_STACK) (to_le 8 (branch_stack_nr r) @ bs) w) (\<lambda>w.
     rbind (put_if (flag t PERF_SAMPLE_REGS_USER) (to_le 8 (regs_abi r)) w) (\<lambda>w.
     rbind (CHECK (flag t PERF_SAMPLE_REGS_USER \<longrightarrow> regs_abi r = 0)) (\<lambda>_.
     rbind (put_if (flag t PERF_SAMPLE_STACK_USER) (to_le 8 (stack_size r)) w) (\<lambda>w.
     rbind (CHECK (flag t PERF_SAMPLE_STACK_USER \<longrightarrow> stack_size r = 0)) (\<lambda>_.
     rbind (CHECK (snd w = [])) (\<lambda>_.
     Inr (UpdateBinary (wcursor_bytes w) r))))))))))))))))))))))"

text \<open>
  \<open>UpdateUserCallChain\<close>: \<open>new_size\<close> is computed in 64 bits, and the function returns at once when
  it is the old size.
\<close>

definition UpdateUserCallChain :: "(nat \<Rightarrow> u8) \<Rightarrow> u64 list \<Rightarrow> SampleRecord \<Rightarrow> abort + SampleRecord" where
  "UpdateUserCallChain junk user_ips r =
     rbind (kernel_ips_loop (unat (callchain_ip_nr r)) 0 r) (\<lambda>ks.
     let kernel_ips = ks @ [PERF_CONTEXT_USER];
         new_size = (ucast (rh_size (header r)) - callchain_ip_nr r * 8
           + of_nat (length kernel_ips + length user_ips) * 8) :: u64
     in if new_size = ucast (rh_size (header r)) then Inr r
        else UpdateUserCallChain_write junk new_size kernel_ips user_ips r)"

definition RemoveInvalidStackData :: "SampleRecord \<Rightarrow> abort + SampleRecord" where
  "RemoveInvalidStackData r =
     (if flag (sample_type r) PERF_SAMPLE_STACK_USER \<and> stack_size r > GetValidStackSize r
      then let valid = GetValidStackSize r; r = r\<lparr>stack_size := valid\<rparr> in
           rbind (sub_ptr (stack_data r) 8) (\<lambda>p.
           rbind (write_at p (to_le 8 (stack_size r)) (binary r)) (\<lambda>b.
           let p = p + 8 + unat valid in
           rbind (if valid \<noteq> 0 then rbind (write_at p (to_le 8 (stack_dyn_size r)) b) (\<lambda>b. Inr (p + 8, b))
                  else Inr (p, b)) (\<lambda>(p, b).
           write_header (r\<lparr>binary := b, header := (header r)\<lparr>rh_size := of_nat p\<rparr>\<rparr>))))
      else Inr r)"

text \<open>
  \<open>arm\<close> tells whether the program is built for arm or aarch64, where a return address may be one of
  thumb code.
\<close>

primrec adjust_loop :: "bool \<Rightarrow> nat \<Rightarrow> nat \<Rightarrow> bool \<Rightarrow> SampleRecord \<Rightarrow> abort + SampleRecord" where
  "adjust_loop arm 0 i first_frame r = Inr r"
| "adjust_loop arm (Suc n) i first_frame r =
     rbind (read_u64_at (callchain_ips r + 8 * i) (binary r)) (\<lambda>x.
     if 0 < x \<and> x < PERF_CONTEXT_MAX
     then if first_frame then adjust_loop arm n (i + 1) False r
          else rbind (write_at (callchain_ips r + 8 * i) (to_le 8 (x - (if arm then 2 else 1))) (binary r)) (\<lambda>b.
               adjust_loop arm n (i + 1) False (r\<lparr>binary := b\<rparr>))
     else adjust_loop arm n (i + 1) first_frame r)"

definition AdjustCallChainGeneratedByKernel :: "bool \<Rightarrow> SampleRecord \<Rightarrow> abort + SampleRecord" where
  "AdjustCallChainGeneratedByKernel arm r = adjust_loop arm (unat (callchain_ip_nr r)) 0 True r"

text \<open>The loop of \<open>GetCallChain\<close>: \<open>acc\<close> is the vector so far and \<open>k\<close> the number of kernel entries.\<close>

primrec get_chain_loop ::
    "nat \<Rightarrow> nat \<Rightarrow> bool \<Rightarrow> bool \<Rightarrow> u64 list \<Rightarrow> nat \<Rightarrow> SampleRecord \<Rightarrow> abort + u64 list \<times> nat" where
  "get_chain_loop 0 i in_kernel first_ip acc k r = Inr (acc, k)"
| "get_chain_loop (Suc n) i in_kernel first_ip acc k r =
     rbind (read_u64_at (callchain_ips r + 8 * i) (binary r)) (\<lambda>ip.
     if ip \<ge> PERF_CONTEXT_MAX
     then if ip = PERF_CONTEXT_KERNEL
          then rbind (CHECK in_kernel) (\<lambda>_. get_chain_loop n (i + 1) in_kernel first_ip acc k r)
          else if ip = PERF_CONTEXT_USER then get_chain_loop n (i + 1) False first_ip acc k r
          else get_chain_loop n (i + 1) in_kernel first_ip acc k r
     else if first_ip \<and> ip = ip_data r then get_chain_loop n (i + 1) in_kernel False acc k r
     else get_chain_loop n (i + 1) in_kernel False (acc @ [ip]) (if in_kernel then k + 1 else k) r)"

definition GetCallChain :: "SampleRecord \<Rightarrow> abort + u64 list \<times> nat" where
  "GetCallChain r =
     (let in_kernel = InKernel r; k = (if in_kernel then 1 else 0) in
      if \<not> flag (sample_type r) PERF_SAMPLE_CALLCHAIN then Inr ([ip_data r], k)
      else get_chain_loop (unat (callchain_ip_nr r)) 0 in_kernel True [ip_data r] k r)"

end
