(* ===== verification/Record_Roundtrips.thy ===== *)
theory Record_Roundtrips
  imports Records
begin

text \<open>
  Parsing what the constructors of \<^verbatim>\<open>simpleperf/record.cpp\<close> build gives the record back: first
  for the records that end in a name and a \<open>SampleId\<close> (mmap, mmap2, comm), then for those that
  are a header and a body (build id, kernel symbols, tracing data, dso, symbol, event id, call
  chain, unwinding result), and for fork. Each lemma says that the constructor succeeds, which
  is what its size bound is for, and what any reader of a buffer that starts with its binary gets.
\<close>

section \<open>The SampleId trailer\<close>

lemma sample_id_tail:
  assumes "length r = SampleId_Size s"
  shows "drop (length (SampleId_bytes s)) r
    = opt (has_identifier s) (to_le 8 (from_le (drop (length (SampleId_bytes s)) r) :: u64))"
proof -
  let ?t = "drop (length (SampleId_bytes s)) r"
  have len: "length ?t = (if has_identifier s then 8 else 0)"
    using assms length_SampleId_bytes [of s] by (simp split: if_splits)
  show ?thesis
  proof (cases "has_identifier s")
    case True
    then have "to_le (length ?t) (from_le ?t :: u64) = ?t"
      using len by (intro to_le_from_le) simp
    with True len show ?thesis by (simp add: opt_def)
  next
    case False
    with len show ?thesis by (simp add: opt_def)
  qed
qed

lemma trailer_tail:
  assumes "k + SampleId_Size sid = n"
  shows "drop (length (SampleId_bytes sid)) (map junk [k..<n])
    = opt (has_identifier sid) (to_le 8 (from_le (map junk [n - 8..<n]) :: u64))"
proof (cases "has_identifier sid")
  case True
  then have "k + length (SampleId_bytes sid) = n - 8"
    using length_SampleId_bytes [of sid] assms by simp
  then have "drop (length (SampleId_bytes sid)) (map junk [k..<n]) = map junk [n - 8..<n]"
    by (simp add: drop_map)
  moreover have "length (map junk [k..<n]) = SampleId_Size sid"
    using assms by auto
  ultimately show ?thesis
    using sample_id_tail [of "map junk [k..<n]" sid] by simp
next
  case False
  then show ?thesis
    using length_SampleId_bytes [of sid] assms by (auto simp: opt_def)
qed

lemma get_MmapData_bytes [cursor_simps]: "get_MmapData (MmapData_bytes d @ p) = Inr (d, p)"
  by (simp add: get_MmapData_def MmapData_bytes_def cursor_simps)

lemma length_MmapData_bytes [simp]: "length (MmapData_bytes d) = 32"
  by (simp add: MmapData_bytes_def)

text \<open>
  What the constructors of the named records write, and what the parsing constructors read from
  it after the body of fixed size.
\<close>

definition write_named ::
    "(nat \<Rightarrow> u8) \<Rightarrow> RecordHeader \<Rightarrow> bytes \<Rightarrow> bytes \<Rightarrow> SampleId \<Rightarrow> abort + wcursor" where
  "write_named junk h body name sid =
     rbind (RecordHeader_MoveToBinaryFormat h ([], new_char junk (unat (rh_size h)))) (\<lambda>w.
     rbind (put_bytes body w) (\<lambda>w.
     rbind (put_strcpy name (align_size (length name + 1) 8) w) (\<lambda>w.
     SampleId_WriteToBinaryFormat sid w)))"

definition read_named :: "perf_event_attr \<Rightarrow> int \<Rightarrow> bytes \<Rightarrow> abort + bytes \<times> SampleId" where
  "read_named attr e q =
     rbind (get_cstr q) (\<lambda>name.
     rbind (skip (align_size (length name + 1) 8) q) (\<lambda>p.
     rbind (CHECK_LE p e) (\<lambda>_.
     rbind (SampleId_ReadFromBinaryFormat attr p e SampleId_init) (\<lambda>sid. Inr (name, sid)))))"

lemma write_named_fold:
  "rbind (RecordHeader_MoveToBinaryFormat h ([], new_char junk (unat (rh_size h)))) (\<lambda>w.
     rbind (put_bytes body w) (\<lambda>w.
     rbind (put_strcpy name (align_size (length name + 1) 8) w) (\<lambda>w.
     rbind (SampleId_WriteToBinaryFormat sid w) k)))
   = rbind (write_named junk h body name sid) k"
  by (simp add: write_named_def rbind_assoc)

lemma read_named_fold:
  "rbind (get_cstr q) (\<lambda>name.
     rbind (skip (align_size (length name + 1) 8) q) (\<lambda>p.
     rbind (CHECK_LE p e) (\<lambda>_.
     rbind (SampleId_ReadFromBinaryFormat attr p e SampleId_init) (k name))))
   = rbind (read_named attr e q) (\<lambda>(name, sid). k name sid)"
  by (simp add: read_named_def rbind_assoc)

text \<open>The common shape of the constructors that end in a name and a \<open>SampleId\<close>.\<close>

lemma write_named_record:
  assumes hok: "header_ok h"
    and size: "unat (rh_size h) = 8 + length body + align_size (length name + 1) 8 + SampleId_Size sid"
    and name: "0 \<notin> set name" and len: "length name + 9 \<le> 2 ^ 64"
  obtains pad where "length pad + length name + 1 = align_size (length name + 1) 8"
    and "write_named junk h body name sid =
      Inr (header_bytes h @ body @ name @ 0 # pad @ SampleId_bytes sid,
           opt (has_identifier sid)
             (to_le 8 (from_le (map junk [unat (rh_size h) - 8..<unat (rh_size h)]) :: u64)))"
proof -
  let ?n = "unat (rh_size h)" and ?a = "align_size (length name + 1) 8"
  let ?buf = "new_char junk ?n"
  let ?rest = "drop (8 + length body) ?buf"
  let ?pad = "take (?a - Suc (length name)) (drop (Suc (length name)) ?rest)"
  have a: "length name < ?a"
    using align_size_8_bounds(1) [of "length name + 1"] len by simp
  have lrest: "length ?rest = ?a + SampleId_Size sid"
    using size by simp
  have lpad: "length ?pad + length name + 1 = ?a"
    using lrest a by simp
  let ?r = "drop ?a ?rest"
  have lr: "length ?r = SampleId_Size sid"
    using lrest by simp
  have sb: "length (SampleId_bytes sid) \<le> SampleId_Size sid"
    using length_SampleId_bytes [of sid] by simp
  have "?r = map junk [8 + length body + ?a..<?n]"
    by (simp add: drop_new_char drop_map add.commute add.left_commute)
  then have tail: "drop (length (SampleId_bytes sid)) ?r
      = opt (has_identifier sid) (to_le 8 (from_le (map junk [?n - 8..<?n]) :: u64))"
    using trailer_tail [where k = "8 + length body + ?a" and n = ?n] size by simp
  show ?thesis
  proof (rule that [OF lpad])
    show "write_named junk h body name sid =
      Inr (header_bytes h @ body @ name @ 0 # ?pad @ SampleId_bytes sid,
           opt (has_identifier sid) (to_le 8 (from_le (map junk [?n - 8..<?n]) :: u64)))"
      unfolding write_named_def
      using hok size name a lrest lr sb tail
      by (simp add: RecordHeader_write_ok put_bytes_ok put_strcpy_ok SampleId_write_ok add.commute)
  qed
qed

text \<open>The trailer a reader sees when the record was built in a heap holding \<open>junk\<close>.\<close>

definition SampleId_reread :: "(nat \<Rightarrow> u8) \<Rightarrow> u32 \<Rightarrow> SampleId \<Rightarrow> SampleId" where
  "SampleId_reread junk n s = (SampleId_selected s)\<lparr>sid_id :=
     (if has_identifier s then from_le (map junk [unat n - 8..<unat n]) else sid_id (SampleId_selected s))\<rparr>"

lemma unat_rh_size_SetSize [simp]: "n < 2 ^ 32 \<Longrightarrow> unat (rh_size (header (SetSize n r))) = n"
  by (simp add: SetSize_def unat_of_nat_u32)

lemma SetSize_simps [simp]:
  "sample_id (SetSize n r) = sample_id r"
  "rh_type (header (SetSize n r)) = rh_type (header r)"
  "rh_misc (header (SetSize n r)) = rh_misc (header r)"
  by (simp_all add: SetSize_def)

lemma read_named_tail:
  assumes "0 \<notin> set name" and "length pad + length name + 1 = align_size (length name + 1) 8"
    and "sid_attr s attr"
  shows "read_named attr (int (length q))
      (name @ 0 # pad @ SampleId_bytes s @ opt (has_identifier s) (to_le 8 i) @ q)
   = Inr (name, (SampleId_selected s)\<lparr>sid_id := (if has_identifier s then i else sid_id (SampleId_selected s))\<rparr>)"
proof -
  have "SampleId_ReadFromBinaryFormat attr (SampleId_bytes s @ opt (has_identifier s) (to_le 8 i) @ q)
        (int (length q)) SampleId_init
      = Inr ((SampleId_selected s)\<lparr>sid_id := (if has_identifier s then i else sid_id (SampleId_selected s))\<rparr>)"
    using SampleId_read_bytes [OF assms(3), where q = q and e = "int (length q)" and ident = i] by simp
  then show ?thesis
    using assms by (simp add: read_named_def get_cstr_append skip_cstr CHECK_LE_def)
qed

text \<open>
  A binary record of this shape: it is what the writer leaves in the buffer, its length is the
  size in the header, and in any buffer that continues with \<open>t\<close> the reader finds the header,
  the body, the name and the trailer.
\<close>

definition named_image ::
    "(nat \<Rightarrow> u8) \<Rightarrow> perf_event_attr \<Rightarrow> RecordHeader \<Rightarrow> bytes \<Rightarrow> bytes \<Rightarrow> SampleId \<Rightarrow> bytes \<Rightarrow> bytes \<Rightarrow> bool" where
  "named_image junk attr h body name sid bin q \<longleftrightarrow>
     (\<exists>w. write_named junk h body name sid = Inr w \<and> wcursor_bytes w = bin)
     \<and> length bin = unat (rh_size h)
     \<and> (\<forall>t. RecordHeader_parse (bin @ t) = Inr h \<and> skip header_size (bin @ t) = Inr (body @ q @ t)
          \<and> ptr_end (bin @ t) (rh_size h) = int (length t)
          \<and> read_named attr (int (length t)) (q @ t) = Inr (name, SampleId_reread junk (rh_size h) sid))"

lemma named_record:
  assumes hok: "header_ok h" and sid: "sid_attr sid attr"
    and size: "unat (rh_size h) = header_size + length body + align_size (length name + 1) 8 + SampleId_Size sid"
    and name: "0 \<notin> set name" and len: "length name + 9 \<le> 2 ^ 64"
  obtains bin q where "named_image junk attr h body name sid bin q"
proof -
  let ?n = "unat (rh_size h)"
  let ?i = "from_le (map junk [?n - 8..<?n]) :: u64"
  obtain pad where pad: "length pad + length name + 1 = align_size (length name + 1) 8"
    and w: "write_named junk h body name sid =
      Inr (header_bytes h @ body @ name @ 0 # pad @ SampleId_bytes sid,
           opt (has_identifier sid) (to_le 8 ?i))"
    by (rule write_named_record [OF hok, where body = body and sid = sid and name = name and junk = junk])
       (use name len size in \<open>auto simp: header_size_def\<close>)
  let ?q = "name @ 0 # pad @ SampleId_bytes sid @ opt (has_identifier sid) (to_le 8 ?i)"
  let ?bin = "header_bytes h @ body @ ?q"
  have "length (SampleId_bytes sid) + length (opt (has_identifier sid) (to_le 8 ?i)) = SampleId_Size sid"
    using length_SampleId_bytes [of sid] by (simp add: length_opt split: if_splits)
  then have lbin: "length ?bin = ?n"
    using pad size by (simp add: header_size_def)
  have e: "ptr_end (?bin @ t) (rh_size h) = int (length t)" for t
    unfolding ptr_end_def length_append [of ?bin t] lbin by simp
  have rd: "read_named attr (int (length t)) (?q @ t) = Inr (name, SampleId_reread junk (rh_size h) sid)" for t
    using read_named_tail [OF name pad sid, of t ?i] by (simp add: SampleId_reread_def)
  have "named_image junk attr h body name sid ?bin ?q"
    unfolding named_image_def
    using w lbin hok e rd
    by (simp add: wcursor_bytes_def RecordHeader_parse_bytes header_size_def skip_append)
  then show ?thesis by (rule that)
qed

text \<open>
  \<open>r\<close> is a record whose binary is complete, and \<open>parse\<close> on any buffer that starts with that
  binary gives \<open>r'\<close>, pointing into the buffer.
\<close>

definition reads_back ::
    "(bytes \<Rightarrow> abort + 'a Record_scheme) \<Rightarrow> 'a Record_scheme \<Rightarrow> 'a Record_scheme \<Rightarrow> bool" where
  "reads_back parse r r' \<longleftrightarrow> length (binary r) = unat (rh_size (header r))
     \<and> (\<forall>t. parse (binary r @ t) = Inr (r'\<lparr>binary := binary r @ t, own_binary := False\<rparr>))"

definition resampled :: "(nat \<Rightarrow> u8) \<Rightarrow> 'a Record_scheme \<Rightarrow> 'a Record_scheme" where
  "resampled junk r = r\<lparr>sample_id := SampleId_reread junk (rh_size (header r)) (sample_id r)\<rparr>"

lemmas record_simps = UpdateBinary_def Record.extend_def SetTypeAndMisc_def Record_init_def Record.defs
  MmapRecord.fields_def Mmap2Record.fields_def CommRecord.fields_def ExitOrForkRecord.fields_def
  BuildIdRecord.fields_def KernelSymbolRecord.fields_def TracingDataRecord.fields_def DsoRecord.fields_def
  SymbolRecord.fields_def EventIdRecord.fields_def CallChainRecord.fields_def UnwindingResultRecord.fields_def

lemma header_ok_SetSize:
  assumes "rh_type (header r) < SIMPLE_PERF_RECORD_TYPE_START" and "n < 65536"
  shows "header_ok (header (SetSize n r))"
  using assms by (simp add: header_ok_def word_less_nat_alt)

lemma SampleId_Size_time [simp]: "SampleId_Size (s\<lparr>sid_time := t\<rparr>) = SampleId_Size s"
  by (simp add: SampleId_Size_def)

lemma MmapRecord_SetDataAndFilename_ok:
  assumes name: "0 \<notin> set name" and sid: "sid_attr (sample_id r) attr"
    and ty: "rh_type (header r) < SIMPLE_PERF_RECORD_TYPE_START"
    and sz: "header_size + 32 + align_size (length name + 1) 8 + SampleId_Size (sample_id r) < 65536"
    and len: "length name + 9 \<le> 2 ^ 64"
  shows "\<exists>r'. MmapRecord_SetDataAndFilename junk d name r = Inr r'
    \<and> mmap_data r' = d \<and> mmap_filename r' = name
    \<and> sample_id r' = sample_id r \<and> rh_type (header r') = rh_type (header r) \<and> rh_misc (header r') = rh_misc (header r)
    \<and> reads_back (MmapRecord_parse attr) r' (resampled junk r')"
proof -
  define n where "n = header_size + 32 + align_size (length name + 1) 8 + SampleId_Size (sample_id r)"
  let ?r = "SetSize n r"
  have n: "unat (rh_size (header ?r)) = n"
    using sz by (simp add: n_def)
  have hok: "header_ok (header ?r)"
    using ty sz by (simp add: header_ok_SetSize n_def)
  have size: "unat (rh_size (header ?r))
      = header_size + length (MmapData_bytes d) + align_size (length name + 1) 8 + SampleId_Size (sample_id r)"
    unfolding n by (simp add: n_def)
  obtain bin q where im: "named_image junk attr (header ?r) (MmapData_bytes d) name (sample_id r) bin q"
    by (rule named_record [OF hok sid size name len])
  from im have new: "MmapRecord_SetDataAndFilename junk d name r
      = Inr (UpdateBinary bin (?r\<lparr>mmap_data := d, mmap_filename := name\<rparr>))"
    unfolding MmapRecord_SetDataAndFilename_def Let_def n_def [symmetric] SetSize_simps write_named_fold
    using name by (auto simp: named_image_def)
  have parse: "MmapRecord_parse attr (bin @ t)
      = Inr (Record.extend \<lparr>header = header ?r, sample_id = SampleId_reread junk (rh_size (header ?r)) (sample_id r),
               binary = bin @ t, own_binary = False\<rparr> (MmapRecord.fields d name))" for t
    using im
    by (simp add: MmapRecord_parse_def Record_parse_def named_image_def get_MmapData_bytes read_named_fold [simplified])
  show ?thesis
    unfolding new using parse im
    by (simp add: reads_back_def resampled_def named_image_def record_simps)
qed

lemma get_Mmap2Data_bytes [cursor_simps]: "get_Mmap2Data (Mmap2Data_bytes d @ p) = Inr (d, p)"
  by (simp add: get_Mmap2Data_def Mmap2Data_bytes_def cursor_simps)

lemma length_Mmap2Data_bytes [simp]: "length (Mmap2Data_bytes d) = 64"
  by (simp add: Mmap2Data_bytes_def)

lemma Mmap2Record_SetDataAndFilename_ok:
  assumes name: "0 \<notin> set name" and sid: "sid_attr (sample_id r) attr"
    and ty: "rh_type (header r) < SIMPLE_PERF_RECORD_TYPE_START"
    and sz: "header_size + 64 + align_size (length name + 1) 8 + SampleId_Size (sample_id r) < 65536"
    and len: "length name + 9 \<le> 2 ^ 64"
  shows "\<exists>r'. Mmap2Record_SetDataAndFilename junk d name r = Inr r'
    \<and> mmap2_data r' = d \<and> mmap2_filename r' = name
    \<and> sample_id r' = sample_id r \<and> rh_type (header r') = rh_type (header r) \<and> rh_misc (header r') = rh_misc (header r)
    \<and> reads_back (Mmap2Record_parse attr) r' (resampled junk r')"
proof -
  define n where "n = header_size + 64 + align_size (length name + 1) 8 + SampleId_Size (sample_id r)"
  let ?r = "SetSize n r"
  have n: "unat (rh_size (header ?r)) = n"
    using sz by (simp add: n_def)
  have hok: "header_ok (header ?r)"
    using ty sz by (simp add: header_ok_SetSize n_def)
  have size: "unat (rh_size (header ?r))
      = header_size + length (Mmap2Data_bytes d) + align_size (length name + 1) 8 + SampleId_Size (sample_id r)"
    unfolding n by (simp add: n_def)
  obtain bin q where im: "named_image junk attr (header ?r) (Mmap2Data_bytes d) name (sample_id r) bin q"
    by (rule named_record [OF hok sid size name len])
  from im have new: "Mmap2Record_SetDataAndFilename junk d name r
      = Inr (UpdateBinary bin (?r\<lparr>mmap2_data := d, mmap2_filename := name\<rparr>))"
    unfolding Mmap2Record_SetDataAndFilename_def Let_def n_def [symmetric] SetSize_simps write_named_fold
    using name by (auto simp: named_image_def)
  have parse: "Mmap2Record_parse attr (bin @ t)
      = Inr (Record.extend \<lparr>header = header ?r, sample_id = SampleId_reread junk (rh_size (header ?r)) (sample_id r),
               binary = bin @ t, own_binary = False\<rparr> (Mmap2Record.fields d name))" for t
    using im
    by (simp add: Mmap2Record_parse_def Record_parse_def named_image_def get_Mmap2Data_bytes read_named_fold [simplified])
  show ?thesis
    unfolding new using parse im
    by (simp add: reads_back_def resampled_def named_image_def record_simps)
qed

text \<open>The \<open>SampleId\<close> that a new record gets.\<close>

definition new_sid :: "perf_event_attr \<Rightarrow> u64 \<Rightarrow> u64 \<Rightarrow> SampleId" where
  "new_sid attr event_id time = SampleId_init\<lparr>sample_id_all := attr_sample_id_all attr,
     sid_sample_type := attr_sample_type attr, sid_id := event_id, sid_time := time\<rparr>"

lemma SampleId_CreateContent_init:
  "SampleId_CreateContent attr event_id SampleId_init
    = (new_sid attr event_id 0, SampleId_Size (new_sid attr event_id 0))"
  by (simp add: SampleId_CreateContent_def new_sid_def Let_def SampleId_init_def)

lemma new_sid_simps [simp]:
  "(new_sid attr event_id t)\<lparr>sid_time := time\<rparr> = new_sid attr event_id time"
  "sid_attr (new_sid attr event_id t) attr"
  by (simp_all add: new_sid_def sid_attr_def)

lemma SampleId_Size_new: "SampleId_Size (new_sid attr event_id t) = SampleId_Size (new_sid attr event_id 0)"
  by (simp add: new_sid_def)

text \<open>The trailer has at most 48 bytes, so these bounds keep the size in 16 bits.\<close>

lemma MmapRecord_new_ok:
  assumes name: "0 \<notin> set nm" and sz: "length nm < 65000"
  shows "\<exists>r. MmapRecord_new junk attr in_kernel pid tid addr len pgoff nm event_id time = Inr r
    \<and> mmap_data r = \<lparr>mm_pid = pid, mm_tid = tid, mm_addr = addr, mm_len = len, mm_pgoff = pgoff\<rparr>
    \<and> mmap_filename r = nm \<and> sample_id r = new_sid attr event_id time
    \<and> rh_type (header r) = PERF_RECORD_MMAP \<and> InKernel r = in_kernel
    \<and> reads_back (MmapRecord_parse attr) r (resampled junk r)"
proof -
  have "header_size + 32 + align_size (length nm + 1) 8 + SampleId_Size (new_sid attr event_id time) < 65536"
    using sz align_size_8_bounds(2) [of "length nm + 1"] SampleId_Size_le [of "new_sid attr event_id time"]
    by (simp add: header_size_def)
  then show ?thesis
    using MmapRecord_SetDataAndFilename_ok [OF name, of "(SetTypeAndMisc PERF_RECORD_MMAP
        (if in_kernel then PERF_RECORD_MISC_KERNEL else PERF_RECORD_MISC_USER) (Record.extend Record_init
        (MmapRecord.fields \<lparr>mm_pid = pid, mm_tid = tid, mm_addr = addr, mm_len = len, mm_pgoff = pgoff\<rparr> [])))
        \<lparr>sample_id := new_sid attr event_id time\<rparr>" attr junk
        "\<lparr>mm_pid = pid, mm_tid = tid, mm_addr = addr, mm_len = len, mm_pgoff = pgoff\<rparr>"] sz
    by (auto simp: MmapRecord_new_def Let_def SampleId_CreateContent_init record_simps record_type_defs InKernel_def)
qed

lemma Mmap2Record_new_ok:
  assumes name: "0 \<notin> set nm" and sz: "length nm < 65000"
  shows "\<exists>r. Mmap2Record_new junk uninit attr in_kernel pid tid addr len pgoff prot nm event_id time = Inr r
    \<and> mmap2_data r = uninit\<lparr>m2_pid := pid, m2_tid := tid, m2_addr := addr, m2_len := len, m2_pgoff := pgoff,
        m2_prot := prot\<rparr>
    \<and> mmap2_filename r = nm \<and> sample_id r = new_sid attr event_id time
    \<and> rh_type (header r) = PERF_RECORD_MMAP2 \<and> InKernel r = in_kernel
    \<and> reads_back (Mmap2Record_parse attr) r (resampled junk r)"
proof -
  define d where "d = uninit\<lparr>m2_pid := pid, m2_tid := tid, m2_addr := addr, m2_len := len, m2_pgoff := pgoff,
    m2_prot := prot\<rparr>"
  have "header_size + 64 + align_size (length nm + 1) 8 + SampleId_Size (new_sid attr event_id time) < 65536"
    using sz align_size_8_bounds(2) [of "length nm + 1"] SampleId_Size_le [of "new_sid attr event_id time"]
    by (simp add: header_size_def)
  then show ?thesis
    unfolding Mmap2Record_new_def d_def [symmetric]
    using Mmap2Record_SetDataAndFilename_ok [OF name, of "(SetTypeAndMisc PERF_RECORD_MMAP2
        (if in_kernel then PERF_RECORD_MISC_KERNEL else PERF_RECORD_MISC_USER) (Record.extend Record_init
        (Mmap2Record.fields d [])))\<lparr>sample_id := new_sid attr event_id time\<rparr>" attr junk d] sz
    by (auto simp: Let_def SampleId_CreateContent_init record_simps record_type_defs InKernel_def)
qed

lemma CommRecord_new_ok:
  assumes name: "0 \<notin> set comm"
    and sz: "length comm < 65000"
  shows "\<exists>r. CommRecord_new junk attr pid tid comm event_id time = Inr r
    \<and> comm_pid r = pid \<and> comm_tid r = tid \<and> comm_name r = comm
    \<and> rh_type (header r) = PERF_RECORD_COMM \<and> rh_misc (header r) = 0
    \<and> sample_id r = new_sid attr event_id time
    \<and> reads_back (CommRecord_parse attr) r (resampled junk r)"
proof -
  let ?s = "new_sid attr event_id time" and ?body = "to_le 4 pid @ to_le 4 tid"
  define r where "r = (SetTypeAndMisc PERF_RECORD_COMM 0
    (Record.extend Record_init (CommRecord.fields pid tid comm)))\<lparr>sample_id := ?s\<rparr>"
  define n where "n = header_size + 8 + align_size (length comm + 1) 8 + SampleId_Size ?s"
  let ?r = "SetSize n r"
  have len: "length comm + 9 \<le> 2 ^ 64"
    using sz by simp
  have "n < 65536"
    using sz align_size_8_bounds(2) [of "length comm + 1"] SampleId_Size_le [of ?s]
    by (simp add: n_def header_size_def)
  then have n: "unat (rh_size (header ?r)) = n" and hok: "header_ok (header ?r)"
    by (simp_all add: header_ok_SetSize r_def record_simps record_type_defs)
  have size: "unat (rh_size (header ?r))
      = header_size + length ?body + align_size (length comm + 1) 8 + SampleId_Size ?s"
    unfolding n by (simp add: n_def)
  obtain bin q where im: "named_image junk attr (header ?r) ?body comm ?s bin q"
    by (rule named_record [OF hok new_sid_simps(2) size name len])
  have "CommRecord_new junk attr pid tid comm event_id time
      = rbind (write_named junk (header ?r) ?body comm ?s) (\<lambda>w. Inr (UpdateBinary (wcursor_bytes w) ?r))"
    unfolding write_named_fold [symmetric] n_def SampleId_Size_new [of attr event_id time]
    using name by (simp add: CommRecord_new_def r_def Let_def SampleId_CreateContent_init record_simps)
  with im have new: "CommRecord_new junk attr pid tid comm event_id time = Inr (UpdateBinary bin ?r)"
    by (auto simp: named_image_def)
  have parse: "CommRecord_parse attr (bin @ t)
      = Inr (Record.extend \<lparr>header = header ?r, sample_id = SampleId_reread junk (rh_size (header ?r)) ?s,
               binary = bin @ t, own_binary = False\<rparr> (CommRecord.fields pid tid comm))" for t
    using im
    by (simp add: CommRecord_parse_def Record_parse_def named_image_def get_u32_le read_named_fold [simplified])
  show ?thesis
    unfolding new using parse im
    by (simp add: reads_back_def resampled_def named_image_def record_simps r_def SetSize_def)
qed

text \<open>
  The constructors that write a header and a body into a new buffer: the binary ends in what
  the heap held.
\<close>

definition plain_pad :: "(nat \<Rightarrow> u8) \<Rightarrow> RecordHeader \<Rightarrow> bytes \<Rightarrow> bytes" where
  "plain_pad junk h body = map junk [8 + length body..<unat (rh_size h)]"

definition plain_bin :: "(nat \<Rightarrow> u8) \<Rightarrow> RecordHeader \<Rightarrow> bytes \<Rightarrow> bytes" where
  "plain_bin junk h body = header_bytes h @ body @ plain_pad junk h body"

lemma length_plain_pad [simp]: "length (plain_pad junk h body) = unat (rh_size h) - (8 + length body)"
  by (simp add: plain_pad_def)

lemma length_plain_bin: "8 + length body \<le> unat (rh_size h) \<Longrightarrow> length (plain_bin junk h body) = unat (rh_size h)"
  by (simp add: plain_bin_def)

lemma write_plain:
  assumes "header_ok h" and "8 + length body \<le> unat (rh_size h)"
  shows "rbind (RecordHeader_MoveToBinaryFormat h ([], new_char junk (unat (rh_size h)))) (\<lambda>w.
     rbind (put_bytes body w) k)
   = k (header_bytes h @ body, plain_pad junk h body)"
  using assms by (simp add: RecordHeader_write_ok put_bytes_ok drop_new_char drop_map add.commute plain_pad_def)

lemma wcursor_plain: "wcursor_bytes (header_bytes h @ body, plain_pad junk h body) = plain_bin junk h body"
  by (simp add: wcursor_bytes_def plain_bin_def)

lemma skip_header: "skip header_size (header_bytes h @ p) = Inr p"
  by (simp add: skip_append header_size_def)

text \<open>How the parsing constructors start on such a binary.\<close>

lemma parse_plain:
  assumes "header_ok h" and "8 + length body \<le> unat (rh_size h)"
  shows "rbind (Record_parse (plain_bin junk h body @ t)) (\<lambda>r.
      let e = ptr_end (plain_bin junk h body @ t) (rh_size (header r)) in
      rbind (skip header_size (plain_bin junk h body @ t)) (k r e))
    = k \<lparr>header = h, sample_id = SampleId_init, binary = plain_bin junk h body @ t, own_binary = False\<rparr>
        (int (length t)) (body @ plain_pad junk h body @ t)"
proof -
  have "ptr_end (plain_bin junk h body @ t) (rh_size h) = int (length t)"
    using assms by (simp add: ptr_end_full length_plain_bin)
  moreover have "RecordHeader_parse (plain_bin junk h body @ t) = Inr h"
    using assms by (simp add: plain_bin_def RecordHeader_parse_bytes)
  moreover have "skip header_size (plain_bin junk h body @ t) = Inr (body @ plain_pad junk h body @ t)"
    by (simp add: plain_bin_def skip_header)
  ultimately show ?thesis
    by (simp add: Record_parse_def)
qed

lemma header_ok_simpleperf:
  "SIMPLE_PERF_RECORD_TYPE_START \<le> ty \<Longrightarrow> header_ok (header (SetSize n (SetTypeAndMisc ty 0 r)))"
  by (auto simp: header_ok_def SetSize_def SetTypeAndMisc_def)

lemma plain_roundtrip:
  assumes hok: "header_ok (header r)" and le: "8 + length body \<le> unat (rh_size (header r))"
    and new: "new = rbind (RecordHeader_MoveToBinaryFormat (header r) ([], new_char junk (unat (rh_size (header r))))) (\<lambda>w.
      rbind (put_bytes body w) (\<lambda>w. Inr (UpdateBinary (wcursor_bytes w) r)))"
    and parse: "\<And>t. parse (plain_bin junk (header r) body @ t)
      = Inr (r\<lparr>binary := plain_bin junk (header r) body @ t, own_binary := False\<rparr>)"
  shows "\<exists>r'. new = Inr r' \<and> r' = UpdateBinary (plain_bin junk (header r) body) r \<and> reads_back parse r' r'"
  unfolding new write_plain [OF hok le] wcursor_plain
  using length_plain_bin [OF le] parse by (simp add: reads_back_def UpdateBinary_def)

lemma DsoRecord_new_ok:
  assumes name: "0 \<notin> set nm" and sz: "length nm < 2 ^ 32 - 64"
  shows "\<exists>r. DsoRecord_new junk ty i nm vaddr = Inr r
    \<and> dr_dso_type r = ty \<and> dr_dso_id r = i \<and> dr_min_vaddr r = vaddr \<and> dr_dso_name r = nm
    \<and> rh_type (header r) = SIMPLE_PERF_RECORD_DSO \<and> reads_back DsoRecord_parse r r"
proof -
  let ?body = "to_le 8 ty @ to_le 8 i @ to_le 8 vaddr @ nm @ [0]"
  define n where "n = header_size + 3 * 8 + align_size (length nm + 1) 8"
  define r where "r = SetSize n (SetTypeAndMisc SIMPLE_PERF_RECORD_DSO 0
    (Record.extend Record_init (DsoRecord.fields ty i vaddr nm)))"
  have al: "length nm < align_size (length nm + 1) 8" "align_size (length nm + 1) 8 < length nm + 9"
    using align_size_8_bounds [of "length nm + 1"] sz by simp_all
  have hok: "header_ok (header r)"
    unfolding r_def by (rule header_ok_simpleperf) (simp add: record_type_defs)
  have n: "unat (rh_size (header r)) = n"
    using al sz by (simp add: r_def n_def header_size_def)
  have le: "8 + length ?body \<le> unat (rh_size (header r))"
    using al unfolding n by (simp add: n_def header_size_def)
  have new: "DsoRecord_new junk ty i nm vaddr =
      rbind (RecordHeader_MoveToBinaryFormat (header r) ([], new_char junk (unat (rh_size (header r))))) (\<lambda>w.
      rbind (put_bytes ?body w) (\<lambda>w. Inr (UpdateBinary (wcursor_bytes w) r)))"
    unfolding DsoRecord_new_def Let_def c_str_id [OF name] n_def [symmetric] r_def [symmetric]
      put_bytes_put_bytes append_assoc ..
  have "DsoRecord_parse (plain_bin junk (header r) ?body @ t)
      = Inr (r\<lparr>binary := plain_bin junk (header r) ?body @ t, own_binary := False\<rparr>)" for t
    unfolding DsoRecord_parse_def parse_plain [OF hok le]
    using name al n by (simp add: cursor_simps n_def header_size_def r_def SetSize_def record_simps)
  from plain_roundtrip [OF hok le new this] show ?thesis
    by (auto simp: r_def SetSize_def record_simps)
qed

lemma SymbolRecord_new_ok:
  assumes name: "0 \<notin> set nm" and sz: "length nm < 2 ^ 32 - 64"
  shows "\<exists>r. SymbolRecord_new junk addr len nm i = Inr r
    \<and> sy_addr r = addr \<and> sy_len r = len \<and> sy_dso_id r = i \<and> sy_name r = nm
    \<and> rh_type (header r) = SIMPLE_PERF_RECORD_SYMBOL \<and> reads_back SymbolRecord_parse r r"
proof -
  let ?body = "to_le 8 addr @ to_le 8 len @ to_le 8 i @ nm @ [0]"
  define n where "n = header_size + 3 * 8 + align_size (length nm + 1) 8"
  define r where "r = SetSize n (SetTypeAndMisc SIMPLE_PERF_RECORD_SYMBOL 0
    (Record.extend Record_init (SymbolRecord.fields addr len i nm)))"
  have al: "length nm < align_size (length nm + 1) 8" "align_size (length nm + 1) 8 < length nm + 9"
    using align_size_8_bounds [of "length nm + 1"] sz by simp_all
  have hok: "header_ok (header r)"
    unfolding r_def by (rule header_ok_simpleperf) (simp add: record_type_defs)
  have n: "unat (rh_size (header r)) = n"
    using al sz by (simp add: r_def n_def header_size_def)
  have le: "8 + length ?body \<le> unat (rh_size (header r))"
    using al unfolding n by (simp add: n_def header_size_def)
  have new: "SymbolRecord_new junk addr len nm i =
      rbind (RecordHeader_MoveToBinaryFormat (header r) ([], new_char junk (unat (rh_size (header r))))) (\<lambda>w.
      rbind (put_bytes ?body w) (\<lambda>w. Inr (UpdateBinary (wcursor_bytes w) r)))"
    unfolding SymbolRecord_new_def Let_def c_str_id [OF name] n_def [symmetric] r_def [symmetric]
      put_bytes_put_bytes append_assoc ..
  have "SymbolRecord_parse (plain_bin junk (header r) ?body @ t)
      = Inr (r\<lparr>binary := plain_bin junk (header r) ?body @ t, own_binary := False\<rparr>)" for t
    unfolding SymbolRecord_parse_def parse_plain [OF hok le]
    using name al n by (simp add: cursor_simps n_def header_size_def r_def SetSize_def record_simps)
  from plain_roundtrip [OF hok le new this] show ?thesis
    by (auto simp: r_def SetSize_def record_simps)
qed

lemma KernelSymbolRecord_new_ok:
  assumes sz: "length d < 2 ^ 32 - 64"
  shows "\<exists>r. KernelSymbolRecord_new junk d = Inr r \<and> ks_kallsyms r = d
    \<and> rh_type (header r) = SIMPLE_PERF_RECORD_KERNEL_SYMBOL \<and> reads_back KernelSymbolRecord_parse r r"
proof -
  define m :: u32 where "m = of_nat (length d)"
  let ?body = "to_le 4 m @ d"
  define n where "n = header_size + 4 + align_size (length d) 8"
  define r where "r = SetSize n (SetTypeAndMisc SIMPLE_PERF_RECORD_KERNEL_SYMBOL 0
    (Record.extend Record_init (KernelSymbolRecord.fields m d)))"
  have m: "unat m = length d" "take (unat m) d = d"
    using sz by (simp_all add: m_def unat_of_nat_u32)
  have al: "length d \<le> align_size (length d) 8" "align_size (length d) 8 < length d + 8"
    using align_size_8_bounds [of "length d"] sz by simp_all
  have hok: "header_ok (header r)"
    unfolding r_def by (rule header_ok_simpleperf) (simp add: record_type_defs)
  have n: "unat (rh_size (header r)) = n"
    using al sz by (simp add: r_def n_def header_size_def)
  have le: "8 + length ?body \<le> unat (rh_size (header r))"
    using al unfolding n by (simp add: n_def header_size_def)
  have new: "KernelSymbolRecord_new junk d =
      rbind (RecordHeader_MoveToBinaryFormat (header r) ([], new_char junk (unat (rh_size (header r))))) (\<lambda>w.
      rbind (put_bytes ?body w) (\<lambda>w. Inr (UpdateBinary (wcursor_bytes w) r)))"
    unfolding KernelSymbolRecord_new_def Let_def m_def [symmetric] m(2) n_def [symmetric] r_def [symmetric]
      put_bytes_put_bytes append_assoc ..
  have "KernelSymbolRecord_parse (plain_bin junk (header r) ?body @ t)
      = Inr (r\<lparr>binary := plain_bin junk (header r) ?body @ t, own_binary := False\<rparr>)" for t
    unfolding KernelSymbolRecord_parse_def parse_plain [OF hok le]
    using m al n by (simp add: cursor_simps n_def header_size_def r_def SetSize_def record_simps)
  from plain_roundtrip [OF hok le new this] show ?thesis
    by (auto simp: r_def SetSize_def record_simps)
qed

lemma TracingDataRecord_new_ok:
  assumes sz: "length d < 2 ^ 32 - 128"
  shows "\<exists>r. TracingDataRecord_new junk d = Inr r \<and> td_data r = d
    \<and> rh_type (header r) = SIMPLE_PERF_RECORD_TRACING_DATA \<and> reads_back TracingDataRecord_parse r r"
proof -
  define m :: u32 where "m = of_nat (length d)"
  let ?body = "to_le 4 m @ d"
  define n where "n = header_size + 4 + align_size (length d) 64"
  define r where "r = SetSize n (SetTypeAndMisc SIMPLE_PERF_RECORD_TRACING_DATA 0
    (Record.extend Record_init (TracingDataRecord.fields m d)))"
  have m: "unat m = length d" "take (unat m) d = d"
    using sz by (simp_all add: m_def unat_of_nat_u32)
  have al: "length d \<le> align_size (length d) 64" "align_size (length d) 64 < length d + 64"
    using align_size_64_bounds [of "length d"] sz by simp_all
  have hok: "header_ok (header r)"
    unfolding r_def by (rule header_ok_simpleperf) (simp add: record_type_defs)
  have n: "unat (rh_size (header r)) = n"
    using al sz by (simp add: r_def n_def header_size_def)
  have le: "8 + length ?body \<le> unat (rh_size (header r))"
    using al unfolding n by (simp add: n_def header_size_def)
  have new: "TracingDataRecord_new junk d =
      rbind (RecordHeader_MoveToBinaryFormat (header r) ([], new_char junk (unat (rh_size (header r))))) (\<lambda>w.
      rbind (put_bytes ?body w) (\<lambda>w. Inr (UpdateBinary (wcursor_bytes w) r)))"
    unfolding TracingDataRecord_new_def Let_def m_def [symmetric] m(2) n_def [symmetric] r_def [symmetric]
      put_bytes_put_bytes append_assoc ..
  have "TracingDataRecord_parse (plain_bin junk (header r) ?body @ t)
      = Inr (r\<lparr>binary := plain_bin junk (header r) ?body @ t, own_binary := False\<rparr>)" for t
    unfolding TracingDataRecord_parse_def parse_plain [OF hok le]
    using m al n by (simp add: cursor_simps n_def header_size_def r_def SetSize_def record_simps)
  from plain_roundtrip [OF hok le new this] show ?thesis
    by (auto simp: r_def SetSize_def record_simps)
qed

lemma get_u64_array_pairs:
  assumes "even (length d)" and "8 * length d < 2 ^ 64"
  shows "get_u64_array (of_nat (length d div 2) * 2) (u64s_bytes d @ p) = Inr (d, p)"
proof -
  have "(of_nat (length d div 2) * 2 :: u64) = of_nat (length d div 2 * 2)"
    by (simp only: of_nat_mult of_nat_numeral)
  also have "length d div 2 * 2 = length d"
    using assms(1) by simp
  finally show ?thesis
    using get_u64_array_bytes [OF assms(2)] by simp
qed

lemma EventIdRecord_new_ok:
  assumes ev: "even (length d)" and sz: "length d < 2 ^ 29 - 2"
  shows "\<exists>r. EventIdRecord_new junk d = Inr r \<and> ei_data r = d \<and> ei_count r = of_nat (length d div 2)
    \<and> rh_type (header r) = SIMPLE_PERF_RECORD_EVENT_ID \<and> reads_back EventIdRecord_parse r r"
proof -
  define c :: u64 where "c = of_nat (length d div 2)"
  let ?body = "to_le 8 c @ u64s_bytes d"
  define n where "n = header_size + 8 * (1 + length d)"
  define r where "r = SetSize n (SetTypeAndMisc SIMPLE_PERF_RECORD_EVENT_ID 0
    (Record.extend Record_init (EventIdRecord.fields c d)))"
  have hok: "header_ok (header r)"
    unfolding r_def by (rule header_ok_simpleperf) (simp add: record_type_defs)
  have n: "unat (rh_size (header r)) = n"
    using sz by (simp add: r_def n_def header_size_def)
  have le: "8 + length ?body \<le> unat (rh_size (header r))"
    unfolding n by (simp add: n_def header_size_def)
  have new: "EventIdRecord_new junk d =
      rbind (RecordHeader_MoveToBinaryFormat (header r) ([], new_char junk (unat (rh_size (header r))))) (\<lambda>w.
      rbind (put_bytes ?body w) (\<lambda>w. Inr (UpdateBinary (wcursor_bytes w) r)))"
    unfolding EventIdRecord_new_def Let_def c_def [symmetric] n_def [symmetric] r_def [symmetric]
      put_bytes_put_bytes append_assoc ..
  have pairs: "get_u64_array (c * 2) (u64s_bytes d @ p) = Inr (d, p)" for p
    unfolding c_def using ev sz by (intro get_u64_array_pairs) simp_all
  have "EventIdRecord_parse (plain_bin junk (header r) ?body @ t)
      = Inr (r\<lparr>binary := plain_bin junk (header r) ?body @ t, own_binary := False\<rparr>)" for t
    unfolding EventIdRecord_parse_def parse_plain [OF hok le]
    using n by (simp add: cursor_simps pairs n_def header_size_def r_def SetSize_def record_simps)
  from plain_roundtrip [OF hok le new this] show ?thesis
    by (auto simp: r_def SetSize_def record_simps c_def)
qed

lemma CallChainRecord_new_ok:
  assumes eq: "length sps = length ips" and sz: "length ips < 2 ^ 28 - 4"
  shows "\<exists>r. CallChainRecord_new junk pid tid ty time ips sps = Inr r
    \<and> cr_pid r = pid \<and> cr_tid r = tid \<and> cr_chain_type r = of_nat (chain_type_num ty) \<and> cr_time r = time
    \<and> cr_ips r = ips \<and> cr_sps r = sps \<and> cr_ip_nr r = of_nat (length ips)
    \<and> rh_type (header r) = SIMPLE_PERF_RECORD_CALLCHAIN \<and> reads_back CallChainRecord_parse r r"
proof -
  define c :: u64 where "c = of_nat (length ips)"
  define ct :: u64 where "ct = of_nat (chain_type_num ty)"
  let ?body = "to_le 4 pid @ to_le 4 tid @ to_le 8 ct @ to_le 8 time @ to_le 8 c @ u64s_bytes ips @ u64s_bytes sps"
  define n where "n = header_size + (4 + length ips * 2) * 8"
  define r where "r = SetSize n (SetTypeAndMisc SIMPLE_PERF_RECORD_CALLCHAIN 0
    (Record.extend Record_init (CallChainRecord.fields pid tid ct time c ips sps)))"
  have hok: "header_ok (header r)"
    unfolding r_def by (rule header_ok_simpleperf) (simp add: record_type_defs)
  have n: "unat (rh_size (header r)) = n"
    using sz by (simp add: r_def n_def header_size_def)
  have le: "8 + length ?body \<le> unat (rh_size (header r))"
    unfolding n by (simp add: n_def header_size_def eq)
  have new: "CallChainRecord_new junk pid tid ty time ips sps =
      rbind (RecordHeader_MoveToBinaryFormat (header r) ([], new_char junk (unat (rh_size (header r))))) (\<lambda>w.
      rbind (put_bytes ?body w) (\<lambda>w. Inr (UpdateBinary (wcursor_bytes w) r)))"
    unfolding CallChainRecord_new_def Let_def c_def [symmetric] ct_def [symmetric] n_def [symmetric] r_def [symmetric]
      put_bytes_put_bytes append_assoc eq by simp
  have arr: "get_u64_array c (u64s_bytes ips @ p) = Inr (ips, p)" "get_u64_array c (u64s_bytes sps @ p) = Inr (sps, p)" for p
    using get_u64_array_bytes [of ips p] get_u64_array_bytes [of sps p] sz by (simp_all add: c_def eq)
  have "CallChainRecord_parse (plain_bin junk (header r) ?body @ t)
      = Inr (r\<lparr>binary := plain_bin junk (header r) ?body @ t, own_binary := False\<rparr>)" for t
    unfolding CallChainRecord_parse_def parse_plain [OF hok le]
    using n eq by (simp add: cursor_simps arr n_def header_size_def r_def SetSize_def record_simps)
  from plain_roundtrip [OF hok le new this] show ?thesis
    by (auto simp: r_def SetSize_def record_simps c_def ct_def)
qed

lemma UnwindingResultRecord_new_ok:
  "\<exists>r. UnwindingResultRecord_new junk time u = Inr r \<and> urr_time r = time \<and> urr_result r = u
    \<and> rh_type (header r) = SIMPLE_PERF_RECORD_UNWINDING_RESULT \<and> reads_back UnwindingResultRecord_parse r r"
proof -
  let ?body = "to_le 8 time @ to_le 8 (ur_used_time u) @ to_le 8 (ucast (ur_stop_reason u) :: u64)
    @ to_le 8 (ur_stop_info u) @ to_le 8 (ur_stack_start u) @ to_le 8 (ur_stack_end u)"
  define n where "n = header_size + 6 * 8"
  define r where "r = SetSize n (SetTypeAndMisc SIMPLE_PERF_RECORD_UNWINDING_RESULT 0
    (Record.extend Record_init (UnwindingResultRecord.fields time u)))"
  have hok: "header_ok (header r)"
    unfolding r_def by (rule header_ok_simpleperf) (simp add: record_type_defs)
  have n: "unat (rh_size (header r)) = n"
    by (simp add: r_def n_def header_size_def)
  have le: "8 + length ?body \<le> unat (rh_size (header r))"
    unfolding n by (simp add: n_def header_size_def)
  have new: "UnwindingResultRecord_new junk time u =
      rbind (RecordHeader_MoveToBinaryFormat (header r) ([], new_char junk (unat (rh_size (header r))))) (\<lambda>w.
      rbind (put_bytes ?body w) (\<lambda>w. Inr (UpdateBinary (wcursor_bytes w) r)))"
    unfolding UnwindingResultRecord_new_def Let_def n_def [symmetric] r_def [symmetric]
      put_bytes_put_bytes append_assoc ..
  have "UnwindingResultRecord_parse (plain_bin junk (header r) ?body @ t)
      = Inr (r\<lparr>binary := plain_bin junk (header r) ?body @ t, own_binary := False\<rparr>)" for t
    unfolding UnwindingResultRecord_parse_def parse_plain [OF hok le]
    using n by (simp add: cursor_simps n_def header_size_def r_def SetSize_def record_simps)
  from plain_roundtrip [OF hok le new this] show ?thesis
    by (auto simp: r_def SetSize_def record_simps)
qed

text \<open>Bytes the writer skips keep what the heap held.\<close>

lemma write_plain_skip:
  assumes "header_ok h" and "8 + length a + k + length b \<le> unat (rh_size h)"
  shows "rbind (RecordHeader_MoveToBinaryFormat h ([], new_char junk (unat (rh_size h)))) (\<lambda>w.
      rbind (put_bytes a w) (\<lambda>w. rbind (put_skip k w) (\<lambda>w. rbind (put_bytes b w) K)))
    = rbind (RecordHeader_MoveToBinaryFormat h ([], new_char junk (unat (rh_size h)))) (\<lambda>w.
      rbind (put_bytes (a @ map junk [8 + length a..<8 + length a + k] @ b) w) K)"
proof -
  have "take k (map junk [8 + length a..<unat (rh_size h)]) = map junk [8 + length a..<8 + length a + k]"
    using assms(2) by (simp add: take_map)
  then show ?thesis
    using assms
    by (simp add: RecordHeader_write_ok put_bytes_ok put_skip_ok drop_new_char drop_map
        add.commute add.left_commute add.assoc)
qed

lemma BuildId_copy_full: "length d = BUILD_ID_SIZE \<Longrightarrow> BuildId_copy d BUILD_ID_SIZE = d"
  by (simp add: BuildId_copy_def)

lemma align_BUILD_ID_SIZE: "align_size BUILD_ID_SIZE 8 = 24"
  by (simp add: align_size_8 BUILD_ID_SIZE_def)

lemma BuildIdRecord_new_ok:
  assumes name: "0 \<notin> set nm" and sz: "length nm < 65000" and bid: "length bid = BUILD_ID_SIZE"
  shows "\<exists>r. BuildIdRecord_new junk in_kernel pid bid nm = Inr r
    \<and> bi_pid r = pid \<and> bi_build_id r = bid \<and> bi_filename r = nm
    \<and> rh_type (header r) = PERF_RECORD_BUILD_ID \<and> InKernel r = in_kernel
    \<and> reads_back BuildIdRecord_parse r r"
proof -
  define gap where "gap = map junk [8 + length (to_le 4 pid @ bid)..<8 + length (to_le 4 pid @ bid) + (align_size BUILD_ID_SIZE 8 - BUILD_ID_SIZE)]"
  let ?body = "to_le 4 pid @ bid @ gap @ nm @ [0]"
  define n where "n = header_size + 4 + align_size BUILD_ID_SIZE 8 + align_size (length nm + 1) 64"
  define r where "r = SetSize n (SetTypeAndMisc PERF_RECORD_BUILD_ID
    (if in_kernel then PERF_RECORD_MISC_KERNEL else PERF_RECORD_MISC_USER)
    (Record.extend Record_init (BuildIdRecord.fields pid bid nm)))"
  have al: "length nm < align_size (length nm + 1) 64" "align_size (length nm + 1) 64 < length nm + 65"
    using align_size_64_bounds [of "length nm + 1"] sz by simp_all
  have n': "n < 65536"
    using al sz by (simp add: n_def header_size_def align_BUILD_ID_SIZE)
  then have hok: "header_ok (header r)" and n: "unat (rh_size (header r)) = n"
    by (simp_all add: r_def header_ok_SetSize record_simps record_type_defs)
  have le': "8 + length (to_le 4 pid @ bid) + (align_size BUILD_ID_SIZE 8 - BUILD_ID_SIZE)
      + length (nm @ [0 :: u8]) \<le> unat (rh_size (header r))"
    and le: "8 + length ?body \<le> unat (rh_size (header r))"
    using al bid unfolding n align_BUILD_ID_SIZE
    by (simp_all add: n_def header_size_def align_BUILD_ID_SIZE gap_def) (simp_all add: BUILD_ID_SIZE_def)
  have new: "BuildIdRecord_new junk in_kernel pid bid nm =
      rbind (RecordHeader_MoveToBinaryFormat (header r) ([], new_char junk (unat (rh_size (header r))))) (\<lambda>w.
      rbind (put_bytes ?body w) (\<lambda>w. Inr (UpdateBinary (wcursor_bytes w) r)))"
    unfolding BuildIdRecord_new_def Let_def c_str_id [OF name] n_def [symmetric] r_def [symmetric] put_bytes_put_bytes
    unfolding write_plain_skip [OF hok le'] append_assoc gap_def ..
  have lgap: "length bid + length gap = 24"
    using bid by (simp add: gap_def align_BUILD_ID_SIZE) (simp add: BUILD_ID_SIZE_def)
  have lpad: "length (plain_pad junk (header r) ?body) + length nm + 1 = align_size (length nm + 1) 64"
    using al lgap n by (simp add: n_def header_size_def align_BUILD_ID_SIZE)
  have "BuildIdRecord_parse (plain_bin junk (header r) ?body @ t)
      = Inr (Record.extend \<lparr>header = header r, sample_id = SampleId_init, binary = plain_bin junk (header r) ?body @ t,
          own_binary = False\<rparr> (BuildIdRecord.fields pid bid nm))" for t
    unfolding BuildIdRecord_parse_def parse_plain [OF hok le] append_assoc align_BUILD_ID_SIZE
    using bid name lpad
    by (simp add: get_u32_le get_bytes_append skip_pad [OF lgap] get_cstr_append skip_cstr CHECK_EQ_ok
        BuildId_copy_full)
  then have "BuildIdRecord_parse (plain_bin junk (header r) ?body @ t)
      = Inr (r\<lparr>binary := plain_bin junk (header r) ?body @ t, own_binary := False\<rparr>)" for t
    by (simp add: r_def SetSize_def record_simps)
  from plain_roundtrip [OF hok le new this] show ?thesis
    by (auto simp: r_def SetSize_def record_simps InKernel_def)
qed

lemma ForkRecord_new_ok:
  "\<exists>r. ForkRecord_new junk attr pid tid ppid ptid event_id = Inr r
    \<and> ef_pid r = pid \<and> ef_tid r = tid \<and> ef_ppid r = ppid \<and> ef_ptid r = ptid \<and> ef_time r = 0
    \<and> rh_type (header r) = PERF_RECORD_FORK \<and> rh_misc (header r) = 0
    \<and> sample_id r = new_sid attr event_id 0
    \<and> reads_back (ExitOrForkRecord_parse attr) r (resampled junk r)"
proof -
  let ?s = "new_sid attr event_id 0"
  let ?body = "to_le 4 pid @ to_le 4 ppid @ to_le 4 tid @ to_le 4 ptid @ to_le 8 (0 :: u64)"
  define r where "r = (SetTypeAndMisc PERF_RECORD_FORK 0
    (Record.extend Record_init (ExitOrForkRecord.fields pid ppid tid ptid 0)))\<lparr>sample_id := ?s\<rparr>"
  define n where "n = header_size + 24 + SampleId_Size ?s"
  let ?r = "SetSize n r"
  let ?i = "from_le (map junk [n - 8..<n]) :: u64"
  let ?q = "SampleId_bytes ?s @ opt (has_identifier ?s) (to_le 8 ?i)"
  let ?bin = "header_bytes (header ?r) @ ?body @ ?q"
  have "n < 65536"
    using SampleId_Size_le [of ?s] by (simp add: n_def header_size_def)
  then have n: "unat (rh_size (header ?r)) = n" and hok: "header_ok (header ?r)"
    by (simp_all add: header_ok_SetSize r_def record_simps record_type_defs)
  have le: "8 + length ?body \<le> unat (rh_size (header ?r))"
    unfolding n by (simp add: n_def header_size_def)
  have lq: "length ?q = SampleId_Size ?s"
    using length_SampleId_bytes [of ?s] by (simp add: length_opt split: if_splits)
  have "32 + SampleId_Size ?s = n"
    by (simp add: n_def header_size_def)
  from trailer_tail [OF this] have tail: "drop (length (SampleId_bytes ?s)) (map junk [32..<n])
      = opt (has_identifier ?s) (to_le 8 ?i)" .
  have new: "ForkRecord_new junk attr pid tid ppid ptid event_id = Inr (UpdateBinary ?bin ?r)"
  proof -
    have "ForkRecord_new junk attr pid tid ppid ptid event_id =
      rbind (RecordHeader_MoveToBinaryFormat (header ?r) ([], new_char junk (unat (rh_size (header ?r))))) (\<lambda>w.
      rbind (put_bytes ?body w) (\<lambda>w.
      rbind (SampleId_WriteToBinaryFormat ?s w) (\<lambda>w. Inr (UpdateBinary (wcursor_bytes w) ?r))))"
      unfolding n_def by (simp add: ForkRecord_new_def r_def Let_def SampleId_CreateContent_init record_simps)
    also have "\<dots> = Inr (UpdateBinary ?bin ?r)"
      unfolding write_plain [OF hok le] using tail lq n \<open>32 + SampleId_Size ?s = n\<close>
      by (simp add: SampleId_write_ok wcursor_bytes_def plain_pad_def)
    finally show ?thesis .
  qed
  have parse: "ExitOrForkRecord_parse attr (?bin @ t)
      = Inr (Record.extend \<lparr>header = header ?r, sample_id = SampleId_reread junk (rh_size (header ?r)) ?s,
               binary = ?bin @ t, own_binary = False\<rparr> (ExitOrForkRecord.fields pid ppid tid ptid 0))" for t
  proof -
    have lbin: "length ?bin = unat (rh_size (header ?r))"
      using lq n by (simp add: n_def header_size_def)
    have rd: "SampleId_ReadFromBinaryFormat attr (SampleId_bytes ?s @ opt (has_identifier ?s) (to_le 8 ?i) @ t)
        (int (length t)) SampleId_init = Inr (SampleId_reread junk (rh_size (header ?r)) ?s)"
      using n by (simp add: SampleId_read_bytes SampleId_reread_def)
    show ?thesis
      using hok ptr_end_full [OF lbin, of t] rd
      by (simp add: ExitOrForkRecord_parse_def Record_parse_def RecordHeader_parse_bytes skip_header get_u32_le get_u64_le CHECK_LE_def)
  qed
  show ?thesis
    unfolding new using parse lq n
    by (simp add: reads_back_def resampled_def record_simps r_def SetSize_def n_def header_size_def)
qed

end
