(* ===== verification/Sample_Layout.thy ===== *)
theory Sample_Layout
  imports Sample_Record Record_Roundtrips
begin

text \<open>
  The contents of a sample as data, the bytes that encode them for a sample type, and the lemmas
  that the parsing constructor of \<open>SampleRecord\<close> recovers the contents and that every member
  function turns the encoding of some contents into the encoding of the contents it should give.
\<close>

section \<open>What a sample says\<close>

record SampleContent =
  c_id :: u64
  c_ip :: u64
  c_pid :: u32
  c_tid :: u32
  c_time :: u64
  c_addr :: u64
  c_stream_id :: u64
  c_cpu :: u32
  c_res :: u32
  c_period :: u64
  c_chain :: "u64 list"
  c_raw :: bytes
  c_branches :: "(u64 \<times> u64 \<times> u64) list"
  c_abi :: u64
  c_regs :: "u64 list"
  c_stack :: bytes
  c_dyn_size :: u64

definition branch_bytes :: "(u64 \<times> u64 \<times> u64) list \<Rightarrow> bytes" where
  "branch_bytes bs = concat (map (\<lambda>(f, t, fl). to_le 8 f @ to_le 8 t @ to_le 8 fl) bs)"

definition fixed_bytes :: "u64 \<Rightarrow> SampleContent \<Rightarrow> bytes" where
  "fixed_bytes t c =
     opt (flag t PERF_SAMPLE_IDENTIFIER) (to_le 8 (c_id c))
   @ opt (flag t PERF_SAMPLE_IP) (to_le 8 (c_ip c))
   @ opt (flag t PERF_SAMPLE_TID) (to_le 4 (c_pid c) @ to_le 4 (c_tid c))
   @ opt (flag t PERF_SAMPLE_TIME) (to_le 8 (c_time c))
   @ opt (flag t PERF_SAMPLE_ADDR) (to_le 8 (c_addr c))
   @ opt (flag t PERF_SAMPLE_ID) (to_le 8 (c_id c))
   @ opt (flag t PERF_SAMPLE_STREAM_ID) (to_le 8 (c_stream_id c))
   @ opt (flag t PERF_SAMPLE_CPU) (to_le 4 (c_cpu c) @ to_le 4 (c_res c))
   @ opt (flag t PERF_SAMPLE_PERIOD) (to_le 8 (c_period c))"

definition chain_bytes :: "u64 list \<Rightarrow> bytes" where
  "chain_bytes xs = to_le 8 (of_nat (length xs) :: u64) @ u64s_bytes xs"

definition raw_bytes :: "bytes \<Rightarrow> bytes" where
  "raw_bytes d = to_le 4 (of_nat (length d) :: u32) @ d"

definition branch_stack_bytes :: "(u64 \<times> u64 \<times> u64) list \<Rightarrow> bytes" where
  "branch_stack_bytes bs = to_le 8 (of_nat (length bs) :: u64) @ branch_bytes bs"

definition regs_bytes :: "u64 \<Rightarrow> u64 list \<Rightarrow> bytes" where
  "regs_bytes abi rs = to_le 8 abi @ u64s_bytes rs"

definition stack_bytes :: "bytes \<Rightarrow> u64 \<Rightarrow> bytes" where
  "stack_bytes d dyn = to_le 8 (of_nat (length d) :: u64) @ d @ opt (d \<noteq> []) (to_le 8 dyn)"

definition content_bytes :: "u64 \<Rightarrow> SampleContent \<Rightarrow> bytes" where
  "content_bytes t c =
     fixed_bytes t c
   @ opt (flag t PERF_SAMPLE_CALLCHAIN) (chain_bytes (c_chain c))
   @ opt (flag t PERF_SAMPLE_RAW) (raw_bytes (c_raw c))
   @ opt (flag t PERF_SAMPLE_BRANCH_STACK) (branch_stack_bytes (c_branches c))
   @ opt (flag t PERF_SAMPLE_REGS_USER) (regs_bytes (c_abi c) (c_regs c))
   @ opt (flag t PERF_SAMPLE_STACK_USER) (stack_bytes (c_stack c) (c_dyn_size c))"

definition content_ok :: "perf_event_attr \<Rightarrow> SampleContent \<Rightarrow> bool" where
  "content_ok attr c \<longleftrightarrow>
     length (c_chain c) < 2 ^ 60 \<and> length (c_raw c) < 2 ^ 32 \<and> length (c_branches c) < 2 ^ 58
     \<and> length (c_regs c) = (if c_abi c = 0 then 0 else reg_mask_bits (attr_sample_regs_user attr))
     \<and> length (c_stack c) < 2 ^ 63 \<and> (c_stack c = [] \<longrightarrow> c_dyn_size c = 0)"

text \<open>Where the variable-sized parts start in a record.\<close>

definition chain_off :: "u64 \<Rightarrow> SampleContent \<Rightarrow> nat" where
  "chain_off t c = 8 + length (fixed_bytes t c)"

definition raw_off :: "u64 \<Rightarrow> SampleContent \<Rightarrow> nat" where
  "raw_off t c = chain_off t c + length (opt (flag t PERF_SAMPLE_CALLCHAIN) (chain_bytes (c_chain c)))"

definition branch_off :: "u64 \<Rightarrow> SampleContent \<Rightarrow> nat" where
  "branch_off t c = raw_off t c + length (opt (flag t PERF_SAMPLE_RAW) (raw_bytes (c_raw c)))"

definition regs_off :: "u64 \<Rightarrow> SampleContent \<Rightarrow> nat" where
  "regs_off t c = branch_off t c + length (opt (flag t PERF_SAMPLE_BRANCH_STACK) (branch_stack_bytes (c_branches c)))"

definition stack_off :: "u64 \<Rightarrow> SampleContent \<Rightarrow> nat" where
  "stack_off t c = regs_off t c + length (opt (flag t PERF_SAMPLE_REGS_USER) (regs_bytes (c_abi c) (c_regs c)))"

text \<open>The object that the parsing constructor makes of a record with this content.\<close>

definition sample_of :: "SampleRecord \<Rightarrow> perf_event_attr \<Rightarrow> RecordHeader \<Rightarrow> SampleContent \<Rightarrow> bytes \<Rightarrow> SampleRecord" where
  "sample_of uninit attr h c b =
     (let t = attr_sample_type attr in
      Record.extend \<lparr>header = h, sample_id = SampleId_init, binary = b, own_binary = False\<rparr> (SampleRecord.fields t
        (if flag t PERF_SAMPLE_IP then c_ip c else ip_data uninit)
        (if flag t PERF_SAMPLE_TID then c_pid c else tid_data_pid uninit)
        (if flag t PERF_SAMPLE_TID then c_tid c else tid_data_tid uninit)
        (if flag t PERF_SAMPLE_TIME then c_time c else time_data uninit)
        (if flag t PERF_SAMPLE_ADDR then c_addr c else addr_data uninit)
        (if flag t PERF_SAMPLE_ID \<or> flag t PERF_SAMPLE_IDENTIFIER then c_id c else 0)
        (if flag t PERF_SAMPLE_STREAM_ID then c_stream_id c else stream_id_data uninit)
        (if flag t PERF_SAMPLE_CPU then c_cpu c else cpu_data_cpu uninit)
        (if flag t PERF_SAMPLE_CPU then c_res c else cpu_data_res uninit)
        (if flag t PERF_SAMPLE_PERIOD then c_period c else period_data uninit)
        (if flag t PERF_SAMPLE_CALLCHAIN then of_nat (length (c_chain c)) else callchain_ip_nr uninit)
        (if flag t PERF_SAMPLE_CALLCHAIN then chain_off t c + 8 else callchain_ips uninit)
        (if flag t PERF_SAMPLE_RAW then of_nat (length (c_raw c)) else raw_size uninit)
        (if flag t PERF_SAMPLE_RAW then raw_off t c + 4 else raw_data uninit)
        (if flag t PERF_SAMPLE_BRANCH_STACK then of_nat (length (c_branches c)) else branch_stack_nr uninit)
        (if flag t PERF_SAMPLE_BRANCH_STACK then branch_off t c + 8 else branch_stack uninit)
        (if flag t PERF_SAMPLE_REGS_USER then c_abi c else regs_abi uninit)
        (if flag t PERF_SAMPLE_REGS_USER then (if c_abi c = 0 then 0 else attr_sample_regs_user attr) else regs_mask uninit)
        (if flag t PERF_SAMPLE_REGS_USER \<and> c_abi c \<noteq> 0 then of_nat (length (c_regs c)) else regs_nr uninit)
        (if flag t PERF_SAMPLE_REGS_USER \<and> c_abi c \<noteq> 0 then regs_off t c + 8 else regs_regs uninit)
        (if flag t PERF_SAMPLE_STACK_USER then of_nat (length (c_stack c)) else stack_size uninit)
        (if flag t PERF_SAMPLE_STACK_USER \<and> c_stack c \<noteq> [] then stack_off t c + 8 else stack_data uninit)
        (if flag t PERF_SAMPLE_STACK_USER then c_dyn_size c else stack_dyn_size uninit)))"

lemma length_branch_bytes [simp]: "length (branch_bytes bs) = 24 * length bs"
  by (induction bs) (auto simp: branch_bytes_def)

lemma get_callchain_bytes:
  assumes "length xs < 2 ^ 60" and "n0 = k + (8 + 8 * length xs + length p)"
  shows "get_callchain n0 (chain_bytes xs @ p) = Inr ((of_nat (length xs), k + 8), p)"
  using assms by (simp add: get_callchain_def chain_bytes_def cursor_simps unat_of_nat_times_8)

lemma get_raw_bytes:
  assumes "length d < 2 ^ 32" and "n0 = k + (4 + length d + length p)"
  shows "get_raw n0 (raw_bytes d @ p) = Inr ((of_nat (length d), k + 4), p)"
  using assms by (simp add: get_raw_def raw_bytes_def cursor_simps unat_of_nat_u32)

lemma get_branch_stack_bytes:
  assumes "length bs < 2 ^ 58" and "n0 = k + (8 + 24 * length bs + length p)"
  shows "get_branch_stack n0 (branch_stack_bytes bs @ p) = Inr ((of_nat (length bs), k + 8), p)"
  using assms by (simp add: get_branch_stack_def branch_stack_bytes_def cursor_simps unat_of_nat_times_24)

lemma get_regs_bytes:
  assumes "length rs = (if abi = 0 then 0 else reg_mask_bits m)" and "n0 = k + (8 + 8 * length rs + length p)"
  shows "get_regs m (nr, ptr) n0 (regs_bytes abi rs @ p)
    = Inr ((abi, if abi = 0 then 0 else m, if abi \<noteq> 0 then of_nat (length rs) else nr, if abi \<noteq> 0 then k + 8 else ptr), p)"
  using assms by (auto simp: get_regs_def regs_bytes_def cursor_simps)

lemma of_nat_length_eq_0 [simp]:
  "length d < 2 ^ 63 \<Longrightarrow> (of_nat (length d) :: u64) = 0 \<longleftrightarrow> d = []"
  by (auto simp: unat_of_nat_u64 word_unat_eq_iff)

lemma get_stack_bytes:
  assumes "length d < 2 ^ 63" and "d = [] \<longrightarrow> dyn = 0"
    and "n0 = k + (length (stack_bytes d dyn) + length p)"
  shows "get_stack ptr n0 (stack_bytes d dyn @ p)
    = Inr ((of_nat (length d), if d \<noteq> [] then k + 8 else ptr, dyn), p)"
  using assms by (auto simp: get_stack_def stack_bytes_def cursor_simps opt_def unat_of_nat_u64)

lemma length_parts [simp]:
  "length (chain_bytes xs) = 8 + 8 * length xs"
  "length (raw_bytes d) = 4 + length d"
  "length (branch_stack_bytes bs) = 8 + 24 * length bs"
  "length (regs_bytes abi rs) = 8 + 8 * length rs"
  by (simp_all add: chain_bytes_def raw_bytes_def branch_stack_bytes_def regs_bytes_def)

lemma SampleRecord_parse_content:
  assumes hok: "header_ok h" and c: "content_ok attr c"
    and size: "8 + length (content_bytes (attr_sample_type attr) c) \<le> unat (rh_size h)"
    and b: "b = header_bytes h @ content_bytes (attr_sample_type attr) c @ rest"
  shows "SampleRecord_parse uninit attr b = Inr (sample_of uninit attr h c b)"
proof -
  define t where "t = attr_sample_type attr"
  define p5 where "p5 = opt (flag t PERF_SAMPLE_STACK_USER) (stack_bytes (c_stack c) (c_dyn_size c)) @ rest"
  define p4 where "p4 = opt (flag t PERF_SAMPLE_REGS_USER) (regs_bytes (c_abi c) (c_regs c)) @ p5"
  define p3 where "p3 = opt (flag t PERF_SAMPLE_BRANCH_STACK) (branch_stack_bytes (c_branches c)) @ p4"
  define p2 where "p2 = opt (flag t PERF_SAMPLE_RAW) (raw_bytes (c_raw c)) @ p3"
  define p1 where "p1 = opt (flag t PERF_SAMPLE_CALLCHAIN) (chain_bytes (c_chain c)) @ p2"
  have b': "b = header_bytes h @ fixed_bytes t c @ p1"
    unfolding b p1_def p2_def p3_def p4_def p5_def content_bytes_def t_def by simp
  have n1: "length b = chain_off t c + length p1"
    by (simp add: b' chain_off_def)
  have n2: "length b = raw_off t c + length p2"
    using n1 by (simp add: p1_def raw_off_def)
  have n3: "length b = branch_off t c + length p3"
    using n2 by (simp add: p2_def branch_off_def)
  have n4: "length b = regs_off t c + length p4"
    using n3 by (simp add: p3_def regs_off_def)
  have n5: "length b = stack_off t c + length p5"
    using n4 by (simp add: p4_def stack_off_def)
  have g1: "get_if (flag t PERF_SAMPLE_CALLCHAIN) (get_callchain (length b)) (d, d2) p1
      = Inr ((if flag t PERF_SAMPLE_CALLCHAIN then of_nat (length (c_chain c)) else d, if flag t PERF_SAMPLE_CALLCHAIN then chain_off t c + 8 else d2), p2)" for d d2
    unfolding p1_def using c n1
    by (intro get_if_opt_cond2 get_callchain_bytes) (simp_all add: content_ok_def p1_def opt_def)
  have g2: "get_if (flag t PERF_SAMPLE_RAW) (get_raw (length b)) (d, d2) p2
      = Inr ((if flag t PERF_SAMPLE_RAW then of_nat (length (c_raw c)) else d, if flag t PERF_SAMPLE_RAW then raw_off t c + 4 else d2), p3)" for d d2
    unfolding p2_def using c n2
    by (intro get_if_opt_cond2 get_raw_bytes) (simp_all add: content_ok_def p2_def opt_def)
  have g3: "get_if (flag t PERF_SAMPLE_BRANCH_STACK) (get_branch_stack (length b)) (d, d2) p3
      = Inr ((if flag t PERF_SAMPLE_BRANCH_STACK then of_nat (length (c_branches c)) else d, if flag t PERF_SAMPLE_BRANCH_STACK then branch_off t c + 8 else d2), p4)" for d d2
    unfolding p3_def using c n3
    by (intro get_if_opt_cond2 get_branch_stack_bytes) (simp_all add: content_ok_def p3_def opt_def)
  have g4: "get_if (flag t PERF_SAMPLE_REGS_USER) (get_regs (attr_sample_regs_user attr) (nr, ptr) (length b)) (d, d2, d3, d4) p4
      = Inr ((if flag t PERF_SAMPLE_REGS_USER then c_abi c else d,
          if flag t PERF_SAMPLE_REGS_USER then if c_abi c = 0 then 0 else attr_sample_regs_user attr else d2,
          if flag t PERF_SAMPLE_REGS_USER then if c_abi c \<noteq> 0 then of_nat (length (c_regs c)) else nr else d3,
          if flag t PERF_SAMPLE_REGS_USER then if c_abi c \<noteq> 0 then regs_off t c + 8 else ptr else d4), p5)"
    for d d2 d3 d4 nr ptr
    unfolding p4_def using c n4
    by (intro get_if_opt_cond4 get_regs_bytes) (simp_all add: content_ok_def p4_def opt_def)
  have g5: "get_if (flag t PERF_SAMPLE_STACK_USER) (get_stack ptr (length b)) (d, d2, d3) p5
      = Inr ((if flag t PERF_SAMPLE_STACK_USER then of_nat (length (c_stack c)) else d,
          if flag t PERF_SAMPLE_STACK_USER then if c_stack c \<noteq> [] then stack_off t c + 8 else ptr else d2,
          if flag t PERF_SAMPLE_STACK_USER then c_dyn_size c else d3), rest)" for d d2 d3 ptr
    unfolding p5_def using c n5
    by (intro get_if_opt_cond3 get_stack_bytes) (simp_all add: content_ok_def p5_def opt_def)
  have e: "CHECK_LE rest (ptr_end b (rh_size h)) = Inr ()"
    using size by (intro CHECK_LE_ptr_end) (simp add: b)
  have "Record_parse b = Inr \<lparr>header = h, sample_id = SampleId_init, binary = b, own_binary = False\<rparr>"
    using hok by (simp add: Record_parse_def b RecordHeader_parse_bytes)
  moreover have "skip header_size b = Inr (fixed_bytes t c @ p1)"
    by (simp add: b' skip_header)
  ultimately show ?thesis
    unfolding SampleRecord_parse_def Let_def t_def [symmetric]
    by (simp add: fixed_bytes_def get_if_u64_opt get_if_u32_pair_opt g1 g2 g3 g4 g5 e sample_of_def Let_def
        t_def [symmetric] if_if_or if_if_and cong: if_weak_cong split del: if_split)
qed
end
