(* ===== verification/Sample_Ops.thy ===== *)
theory Sample_Ops
  imports Sample_Layout
begin

text \<open>
  The member functions of \<open>SampleRecord\<close> on the binary of a sample: each of them succeeds and
  leaves the binary of a sample with the contents its specification gives.
\<close>

section \<open>Samples in a buffer\<close>

text \<open>
  \<open>b\<close> starts with the complete binary of a sample with these contents, which has no bytes the
  sample type does not account for.
\<close>

definition sample_image :: "perf_event_attr \<Rightarrow> RecordHeader \<Rightarrow> SampleContent \<Rightarrow> bytes \<Rightarrow> bool" where
  "sample_image attr h c b \<longleftrightarrow>
     rh_type h = PERF_RECORD_SAMPLE \<and> rh_size h < 65536 \<and> content_ok attr c
     \<and> unat (rh_size h) = 8 + length (content_bytes (attr_sample_type attr) c)
     \<and> take (unat (rh_size h)) b = header_bytes h @ content_bytes (attr_sample_type attr) c"

definition sized :: "RecordHeader \<Rightarrow> perf_event_attr \<Rightarrow> SampleContent \<Rightarrow> RecordHeader" where
  "sized h attr c = h\<lparr>rh_size := of_nat (8 + length (content_bytes (attr_sample_type attr) c))\<rparr>"

lemma sample_imageE:
  assumes "sample_image attr h c b"
  obtains rest where "b = header_bytes h @ content_bytes (attr_sample_type attr) c @ rest"
    and "rh_type h = PERF_RECORD_SAMPLE" and "header_ok h" and "content_ok attr c"
    and "unat (rh_size h) = 8 + length (content_bytes (attr_sample_type attr) c)" and "rh_size h < 65536"
proof -
  have "b = take (unat (rh_size h)) b @ drop (unat (rh_size h)) b"
    by simp
  then have "b = header_bytes h @ content_bytes (attr_sample_type attr) c @ drop (unat (rh_size h)) b"
    using assms unfolding sample_image_def by (metis append_assoc)
  then show ?thesis
    using assms by (intro that) (auto simp: sample_image_def header_ok_def record_type_defs)
qed

lemma sample_imageI:
  assumes "b = header_bytes h @ content_bytes (attr_sample_type attr) c @ rest"
    and "rh_type h = PERF_RECORD_SAMPLE" and "content_ok attr c"
    and "unat (rh_size h) = 8 + length (content_bytes (attr_sample_type attr) c)" and "rh_size h < 65536"
  shows "sample_image attr h c b"
  using assms by (simp add: sample_image_def)

lemma sample_image_parse:
  assumes "sample_image attr h c b"
  shows "SampleRecord_parse uninit attr b = Inr (sample_of uninit attr h c b)"
  using assms by (elim sample_imageE) (auto intro!: SampleRecord_parse_content)

lemma sized_simps [simp]:
  "rh_type (sized h attr c) = rh_type h" "rh_misc (sized h attr c) = rh_misc h"
  by (simp_all add: sized_def)

lemma sized_size:
  assumes "8 + length (content_bytes (attr_sample_type attr) c) < 65536"
  shows "unat (rh_size (sized h attr c)) = 8 + length (content_bytes (attr_sample_type attr) c)"
    and "rh_size (sized h attr c) < 65536"
proof -
  have "unat (of_nat (8 + length (content_bytes (attr_sample_type attr) c)) :: u32)
      = 8 + length (content_bytes (attr_sample_type attr) c)"
    using assms by (intro unat_of_nat_u32) simp
  then show "unat (rh_size (sized h attr c)) = 8 + length (content_bytes (attr_sample_type attr) c)"
    and "rh_size (sized h attr c) < 65536"
    using assms by (simp_all only: sized_def RecordHeader.simps RecordHeader.update_convs word_less_nat_alt) (simp_all)
qed

lemma write_at_take:
  assumes "i + length bs = q" and "q \<le> length b"
  shows "write_at i bs (take q b @ x) = Inr (take i b @ bs @ x)"
  using assms by (auto simp: write_at_def min_def)

lemma read_at_take:
  assumes "i + n \<le> q" and "q \<le> length b"
  shows "read_at i n (take q b @ x) = Inr (take n (drop i b))"
  proof -
  have "i - length (take q b) = 0" and "n - length (drop i (take q b)) = 0"
    using assms by auto
  then show ?thesis
    using assms by (simp add: read_at_def drop_take)
qed

lemma sub_ptr_ok [simp]: "sub_ptr (p + n) n = Inr p" "n \<le> p \<Longrightarrow> sub_ptr p n = Inr (p - n)"
  by (simp_all add: sub_ptr_def)

lemma sample_of_simps [simp]:
  "header (sample_of uninit attr h c b) = h"
  "binary (sample_of uninit attr h c b) = b"
  "sample_type (sample_of uninit attr h c b) = attr_sample_type attr"
  "flag (attr_sample_type attr) PERF_SAMPLE_CALLCHAIN \<Longrightarrow>
    callchain_ip_nr (sample_of uninit attr h c b) = of_nat (length (c_chain c))"
  "flag (attr_sample_type attr) PERF_SAMPLE_CALLCHAIN \<Longrightarrow>
    callchain_ips (sample_of uninit attr h c b) = chain_off (attr_sample_type attr) c + 8"
  by (simp_all add: sample_of_def Let_def Record.extend_def SampleRecord.fields_def)


lemma write_header_ok:
  assumes "header_ok (header r)" and "binary r = hb @ x" and "length hb = 8"
  shows "write_header r = Inr (r\<lparr>binary := header_bytes (header r) @ x\<rparr>)"
  using assms by (simp add: write_header_def RecordHeader_write_ok wcursor_bytes_def)

lemma move_branch_stack_ok:
  assumes fl: "flag (sample_type r) PERF_SAMPLE_BRANCH_STACK = f"
    and nr: "f \<Longrightarrow> branch_stack_nr r = of_nat (length bs)" "length bs < 2 ^ 58"
    and old: "f \<Longrightarrow> take (24 * length bs) (drop (branch_stack r) b) = branch_bytes bs"
    and ptr: "f \<Longrightarrow> branch_stack r + 24 * length bs \<le> p"
    and p: "p = q + length (opt f (branch_stack_bytes bs))" and len: "p \<le> length b"
  shows "move_branch_stack r p (take p b @ x) = Inr (q, take q b @ opt f (branch_stack_bytes bs) @ x)"
proof (cases f)
  case True
  then have p': "p = (q + 8) + 24 * length bs"
    using p by (simp add: opt_def)
  have n: "unat (branch_stack_nr r * 24) = 24 * length bs"
    using nr True unat_of_nat_times_24 [of "length bs"] by simp
  have rd: "read_at (branch_stack r) (24 * length bs) (take p b @ x) = Inr (branch_bytes bs)"
    using read_at_take [of "branch_stack r" "24 * length bs" p b x] ptr len old True by simp
  have w1: "write_at (q + 8) (branch_bytes bs) (take p b @ x) = Inr (take (q + 8) b @ branch_bytes bs @ x)"
    using p' len by (intro write_at_take) simp_all
  have w2: "write_at q (to_le 8 v) (take (q + 8) b @ branch_bytes bs @ x)
      = Inr (take q b @ to_le 8 v @ branch_bytes bs @ x)" for v :: u64
    using p' len by (intro write_at_take) simp_all
  have s: "sub_ptr p (24 * length bs) = Inr (q + 8)"
    using p' by (simp add: sub_ptr_def)
  show ?thesis
    unfolding move_branch_stack_def n using True fl nr
    by (simp add: s rd w1 w2 branch_stack_bytes_def opt_def)
next
  case False
  then show ?thesis
    using fl p by (simp add: move_branch_stack_def opt_def)
qed

lemma move_raw_data_ok:
  assumes fl: "flag (sample_type r) PERF_SAMPLE_RAW = f"
    and nr: "f \<Longrightarrow> raw_size r = of_nat (length d)" "length d < 2 ^ 32"
    and old: "f \<Longrightarrow> take (length d) (drop (raw_data r) b) = d"
    and ptr: "f \<Longrightarrow> raw_data r + length d \<le> p"
    and p: "p = q + length (opt f (raw_bytes d))" and len: "p \<le> length b"
  shows "move_raw_data r p (take p b @ x) = Inr (q, take q b @ opt f (raw_bytes d) @ x)"
proof (cases f)
  case True
  then have p': "p = (q + 4) + length d"
    using p by (simp add: opt_def)
  have n: "unat (raw_size r) = length d"
    using nr True unat_of_nat_u32 [of "length d"] by simp
  have rd: "read_at (raw_data r) (length d) (take p b @ x) = Inr d"
    using read_at_take [of "raw_data r" "length d" p b x] ptr len old True by simp
  have w1: "write_at (q + 4) d (take p b @ x) = Inr (take (q + 4) b @ d @ x)"
    using p' len by (intro write_at_take) simp_all
  have w2: "write_at q (to_le 4 v) (take (q + 4) b @ d @ x)
      = Inr (take q b @ to_le 4 v @ d @ x)" for v :: u32
    using p' len by (intro write_at_take) simp_all
  have s: "sub_ptr p (length d) = Inr (q + 4)"
    using p' by (simp add: sub_ptr_def)
  show ?thesis
    unfolding move_raw_data_def n using True fl nr
    by (simp add: s rd w1 w2 raw_bytes_def opt_def)
next
  case False
  then show ?thesis
    using fl p by (simp add: move_raw_data_def opt_def)
qed

text \<open>The contents after the registers and the stack were replaced by the call chain \<open>ips\<close>.\<close>

definition with_user_chain :: "u64 list \<Rightarrow> SampleContent \<Rightarrow> SampleContent" where
  "with_user_chain ips c = c\<lparr>c_chain := c_chain c @ PERF_CONTEXT_USER # ips,
     c_abi := 0, c_regs := [], c_stack := [], c_dyn_size := 0\<rparr>"

text \<open>The binary while it is rewritten, from the end to the front.\<close>

lemma replace_writes:
  fixes ips :: "u64 list" and h' :: RecordHeader
  assumes b: "b = A @ to_le 8 (of_nat n0 :: u64) @ u64s_bytes chain
      @ opt fr (raw_bytes d) @ opt fb (branch_stack_bytes bs) @ T"
    and E: "E = length A + 8 + 8 * length chain + 8 * (length ips + 1)
      + length (opt fr (raw_bytes d)) + length (opt fb (branch_stack_bytes bs)) + 16"
    and len: "E \<le> length b"
    and br: "flag (sample_type r) PERF_SAMPLE_BRANCH_STACK = fb"
      "fb \<Longrightarrow> branch_stack_nr r = of_nat (length bs)" "length bs < 2 ^ 58"
      "fb \<Longrightarrow> branch_stack r = length A + 8 + 8 * length chain + length (opt fr (raw_bytes d)) + 8"
    and raw: "flag (sample_type r) PERF_SAMPLE_RAW = fr"
      "fr \<Longrightarrow> raw_size r = of_nat (length d)" "length d < 2 ^ 32"
      "fr \<Longrightarrow> raw_data r = length A + 8 + 8 * length chain + 4"
  shows "rbind (sub_ptr E 8) (\<lambda>p.
      rbind (write_at p (to_le 8 (0 :: u64)) b) (\<lambda>b.
      rbind (sub_ptr p 8) (\<lambda>p.
      rbind (write_at p (to_le 8 (0 :: u64)) b) (\<lambda>b.
      rbind (move_branch_stack r p b) (\<lambda>(p, b).
      rbind (move_raw_data r p b) (\<lambda>(p, b).
      rbind (sub_ptr p (8 * length ips)) (\<lambda>p.
      rbind (write_at p (u64s_bytes ips) b) (\<lambda>b.
      rbind (sub_ptr p 8) (\<lambda>p.
      rbind (write_at p (to_le 8 PERF_CONTEXT_USER) b) (k p))))))))))
    = k (length A + 8 + 8 * length chain) (A @ to_le 8 (of_nat n0 :: u64) @ u64s_bytes chain
        @ to_le 8 PERF_CONTEXT_USER @ u64s_bytes ips @ opt fr (raw_bytes d) @ opt fb (branch_stack_bytes bs)
        @ to_le 8 (0 :: u64) @ to_le 8 (0 :: u64) @ drop E b)"
proof -
  let ?N = "length A + 8 + 8 * length chain" and ?g = "8 * (length ips + 1)"
  let ?R = "opt fr (raw_bytes d)" and ?B = "opt fb (branch_stack_bytes bs)"
  let ?z = "to_le 8 (0 :: u64)"
  have E': "E = (?N + ?g + length ?R + length ?B + 8) + 8"
    using E by simp
  have w1: "write_at (?N + ?g + length ?R + length ?B + 8) ?z b
      = Inr (take (?N + ?g + length ?R + length ?B + 8) b @ ?z @ drop E b)"
    using write_at_take [of _ ?z E b "drop E b"] len E' by simp
  have w2: "write_at (?N + ?g + length ?R + length ?B) ?z (take (?N + ?g + length ?R + length ?B + 8) b @ ?z @ drop E b)
      = Inr (take (?N + ?g + length ?R + length ?B) b @ ?z @ ?z @ drop E b)"
    using len E' by (intro write_at_take) simp_all
  have m1: "move_branch_stack r (?N + ?g + length ?R + length ?B)
        (take (?N + ?g + length ?R + length ?B) b @ ?z @ ?z @ drop E b)
      = Inr (?N + ?g + length ?R, take (?N + ?g + length ?R) b @ ?B @ ?z @ ?z @ drop E b)"
    using br len E'
    by (intro move_branch_stack_ok [where f = fb]) (simp_all add: opt_def b branch_stack_bytes_def)
  have m2: "move_raw_data r (?N + ?g + length ?R) (take (?N + ?g + length ?R) b @ ?B @ ?z @ ?z @ drop E b)
      = Inr (?N + ?g, take (?N + ?g) b @ ?R @ ?B @ ?z @ ?z @ drop E b)"
    using raw len E'
    by (intro move_raw_data_ok [where f = fr]) (simp_all add: opt_def b raw_bytes_def)
  have s3: "sub_ptr (?N + ?g) (8 * length ips) = Inr (?N + 8)"
    by (simp add: sub_ptr_def)
  have w3: "write_at (?N + 8) (u64s_bytes ips) (take (?N + ?g) b @ ?R @ ?B @ ?z @ ?z @ drop E b)
      = Inr (take (?N + 8) b @ u64s_bytes ips @ ?R @ ?B @ ?z @ ?z @ drop E b)"
    using len E' by (intro write_at_take) simp_all
  have w4: "write_at ?N (to_le 8 PERF_CONTEXT_USER) (take (?N + 8) b @ u64s_bytes ips @ ?R @ ?B @ ?z @ ?z @ drop E b)
      = Inr (take ?N b @ to_le 8 PERF_CONTEXT_USER @ u64s_bytes ips @ ?R @ ?B @ ?z @ ?z @ drop E b)"
    using len E' by (intro write_at_take) simp_all
  have s1: "sub_ptr E 8 = Inr (?N + ?g + length ?R + length ?B + 8)"
    unfolding E' by (rule sub_ptr_ok)
  have s2: "sub_ptr (?N + ?g + length ?R + length ?B + 8) 8 = Inr (?N + ?g + length ?R + length ?B)"
    and s4: "sub_ptr (?N + 8) 8 = Inr ?N"
    by (rule sub_ptr_ok)+
  have N: "take ?N b = A @ to_le 8 (of_nat n0 :: u64) @ u64s_bytes chain"
    by (simp add: b)
  show ?thesis
    by (simp only: s1 w1 s2 w2 m1 m2 s3 w3 s4 w4 rbind_simps prod.case N append_assoc)
qed

lemma length_with_user_chain:
  assumes "flag t PERF_SAMPLE_CALLCHAIN" and "flag t PERF_SAMPLE_REGS_USER" and "flag t PERF_SAMPLE_STACK_USER"
    and "c_stack c \<noteq> []"
  shows "length (content_bytes t (with_user_chain ips c)) + (8 * length (c_regs c) + length (c_stack c) + 8)
    = length (content_bytes t c) + 8 * (length ips + 1)"
  using assms
  by (simp add: content_bytes_def with_user_chain_def opt_def stack_bytes_def fixed_bytes_def)

lemma unat_ucast_u64_u32:
  assumes "n < 65536"
  shows "unat (ucast (of_nat n :: u64) :: u32) = n"
proof -
  have "unat (of_nat n :: u64) = n"
    using assms by (intro unat_of_nat_u64) simp
  moreover have "take_bit 32 n = n"
    using assms by (intro take_bit_nat_eq_self) simp
  ultimately show ?thesis
    by (simp add: unsigned_ucast_eq)
qed

lemma replace_header:
  assumes im: "sample_image attr h c b" and fl: "flag (attr_sample_type attr) PERF_SAMPLE_CALLCHAIN"
    "flag (attr_sample_type attr) PERF_SAMPLE_REGS_USER" "flag (attr_sample_type attr) PERF_SAMPLE_STACK_USER"
    and st: "c_stack c \<noteq> []" and room: "8 * length ips \<le> 8 * length (c_regs c) + length (c_stack c)"
  defines "added \<equiv> of_nat (8 * (length ips + 1)) :: u32"
    and "reduced \<equiv> ucast (of_nat (length (c_regs c)) * 8 + of_nat (length (c_stack c)) + 8 :: u64) :: u32"
  shows "unat added = 8 * (length ips + 1)" and "unat reduced = 8 * length (c_regs c) + length (c_stack c) + 8"
    and "added \<le> reduced"
    and "h\<lparr>rh_size := rh_size h - (reduced - added)\<rparr> = sized h attr (with_user_chain ips c)"
    and "8 + length (content_bytes (attr_sample_type attr) (with_user_chain ips c)) < 65536"
proof -
  define L where "L = length (content_bytes (attr_sample_type attr) c)"
  define L' where "L' = length (content_bytes (attr_sample_type attr) (with_user_chain ips c))"
  define K where "K = 8 * length (c_regs c) + length (c_stack c) + 8"
  have size: "unat (rh_size h) = 8 + L" and L: "8 + L < 65536"
    using im by (auto simp: sample_image_def L_def word_less_nat_alt)
  have eq: "L' + K = L + 8 * (length ips + 1)"
    unfolding L_def L'_def K_def using length_with_user_chain [OF fl st] .
  have le: "8 * (length ips + 1) \<le> K"
    using room unfolding K_def by simp
  have KL: "K \<le> L"
    unfolding K_def L_def using fl st by (simp add: content_bytes_def opt_def stack_bytes_def)
  have "8 * (length ips + 1) < 65536"
    using le KL L by linarith
  then show a: "unat added = 8 * (length ips + 1)"
    unfolding added_def by (intro unat_of_nat_u32) simp
  have "(of_nat (length (c_regs c)) * 8 + of_nat (length (c_stack c)) + 8 :: u64) = of_nat K"
    by (simp add: K_def)
  then show r: "unat reduced = 8 * length (c_regs c) + length (c_stack c) + 8"
    unfolding reduced_def K_def [symmetric] using KL L by (simp only: unat_ucast_u64_u32)
  show ar: "added \<le> reduced"
    using le unfolding word_le_nat_alt a r K_def [symmetric] .
  show L'': "8 + length (content_bytes (attr_sample_type attr) (with_user_chain ips c)) < 65536"
    unfolding L'_def [symmetric] using eq le L by linarith
  have d: "unat (reduced - added) = K - 8 * (length ips + 1)"
    using ar a r by (simp add: unat_sub K_def)
  then have "reduced - added \<le> rh_size h"
    unfolding word_le_nat_alt size using KL by linarith
  then have "unat (rh_size h - (reduced - added)) = 8 + L'"
    using d size eq le KL by (simp add: unat_sub)
  then have "rh_size h - (reduced - added) = rh_size (sized h attr (with_user_chain ips c))"
    unfolding word_unat_eq_iff sized_size(1) [OF L''] L'_def .
  then show "h\<lparr>rh_size := rh_size h - (reduced - added)\<rparr> = sized h attr (with_user_chain ips c)"
    by (simp add: sized_def)
qed

lemma content_ok_with_user_chain:
  assumes "content_ok attr c" and "length (c_chain c) + 1 + length ips < 2 ^ 60"
  shows "content_ok attr (with_user_chain ips c)"
  using assms by (simp add: content_ok_def with_user_chain_def)

lemma content_bytes_split:
  assumes "flag t PERF_SAMPLE_CALLCHAIN"
  shows "content_bytes t c = fixed_bytes t c @ to_le 8 (of_nat (length (c_chain c)) :: u64) @ u64s_bytes (c_chain c)
      @ opt (flag t PERF_SAMPLE_RAW) (raw_bytes (c_raw c))
      @ opt (flag t PERF_SAMPLE_BRANCH_STACK) (branch_stack_bytes (c_branches c))
      @ opt (flag t PERF_SAMPLE_REGS_USER) (regs_bytes (c_abi c) (c_regs c))
      @ opt (flag t PERF_SAMPLE_STACK_USER) (stack_bytes (c_stack c) (c_dyn_size c))"
  using assms by (simp add: content_bytes_def opt_def chain_bytes_def)

lemma ReplaceRegAndStackWithCallChain_ok:
  assumes im: "sample_image attr h c b"
    and fl: "flag (attr_sample_type attr) PERF_SAMPLE_CALLCHAIN"
      "flag (attr_sample_type attr) PERF_SAMPLE_REGS_USER" "flag (attr_sample_type attr) PERF_SAMPLE_STACK_USER"
    and abi: "c_abi c \<noteq> 0" and st: "c_stack c \<noteq> []"
    and room: "8 * length ips \<le> 8 * length (c_regs c) + length (c_stack c)"
  shows "\<exists>r. ReplaceRegAndStackWithCallChain ips (sample_of uninit attr h c b) = Inr r
    \<and> header r = sized h attr (with_user_chain ips c)
    \<and> sample_image attr (header r) (with_user_chain ips c) (binary r)
    \<and> callchain_ip_nr r = of_nat (length (c_chain c) + 1 + length ips)
    \<and> callchain_ips r = callchain_ips (sample_of uninit attr h c b)
    \<and> regs_abi r = 0 \<and> stack_size r = 0"
proof -
  define t where "t = attr_sample_type attr"
  define c' where "c' = with_user_chain ips c"
  define h' where "h' = sized h attr c'"
  obtain rest where b: "b = header_bytes h @ content_bytes t c @ rest"
    and hd: "rh_type h = PERF_RECORD_SAMPLE" and c: "content_ok attr c"
    and size: "unat (rh_size h) = 8 + length (content_bytes t c)" "rh_size h < 65536"
    using im unfolding t_def by (rule sample_imageE)
  note hdr = replace_header [OF im fl st room, folded c'_def t_def, folded h'_def]
  have hok: "header_ok h'"
    using sized_size(2) [of attr c'] hdr(5) hd by (simp add: header_ok_def h'_def t_def record_type_defs)
  let ?A = "header_bytes h' @ fixed_bytes t c"
  let ?T = "regs_bytes (c_abi c) (c_regs c) @ stack_bytes (c_stack c) (c_dyn_size c) @ rest"
  let ?E = "length ?A + 8 + 8 * length (c_chain c) + 8 * (length ips + 1)
      + length (opt (flag t PERF_SAMPLE_RAW) (raw_bytes (c_raw c)))
      + length (opt (flag t PERF_SAMPLE_BRANCH_STACK) (branch_stack_bytes (c_branches c))) + 16"
  define b0 where "b0 = ?A @ to_le 8 (of_nat (length (c_chain c)) :: u64) @ u64s_bytes (c_chain c)
      @ opt (flag t PERF_SAMPLE_RAW) (raw_bytes (c_raw c))
      @ opt (flag t PERF_SAMPLE_BRANCH_STACK) (branch_stack_bytes (c_branches c)) @ ?T"
  have E: "?E \<le> length b0"
    using room st by (simp add: b0_def stack_bytes_def opt_def)
  define r0 where "r0 = sample_of uninit attr h c b"
  have r0: "regs_nr r0 = of_nat (length (c_regs c))" "stack_size r0 = of_nat (length (c_stack c))"
    "stack_data r0 = stack_off t c + 8" "header r0 = h" "sample_type r0 = t"
    "callchain_ip_nr r0 = of_nat (length (c_chain c))"
    and r0b: "flag t PERF_SAMPLE_BRANCH_STACK \<Longrightarrow> branch_stack_nr r0 = of_nat (length (c_branches c))"
    "flag t PERF_SAMPLE_BRANCH_STACK \<Longrightarrow> branch_stack r0 = branch_off t c + 8"
    and r0r: "flag t PERF_SAMPLE_RAW \<Longrightarrow> raw_size r0 = of_nat (length (c_raw c))"
    "flag t PERF_SAMPLE_RAW \<Longrightarrow> raw_data r0 = raw_off t c + 4"
    using fl abi st
    by (simp_all add: r0_def sample_of_def Let_def Record.extend_def SampleRecord.fields_def t_def)
  have bin: "binary r0 = header_bytes h @ drop 8 b0"
    using fl by (simp add: r0_def b b0_def content_bytes_split t_def opt_def)
  have wh: "write_header (r0\<lparr>header := h'\<rparr>) = Inr (r0\<lparr>header := h', binary := b0\<rparr>)"
    using write_header_ok [of "r0\<lparr>header := h'\<rparr>", OF _ _ length_header_bytes] hok bin
    by (simp add: b0_def)
  have n: "unat (of_nat (length (c_stack c)) :: u64) = length (c_stack c)" "length (c_stack c) < 2 ^ 63"
    using c by (simp_all add: content_ok_def unat_of_nat_u64)
  have sp: "sub_ptr (stack_off t c + 8 + length (c_stack c) + 8)
     (unat ((ucast (of_nat (length (c_regs c)) * 8 + of_nat (length (c_stack c)) + 8 :: u64) :: u32)
      - of_nat (8 * (length ips + 1)))) = Inr ?E"
  proof -
    have "unat ((ucast (of_nat (length (c_regs c)) * 8 + of_nat (length (c_stack c)) + 8 :: u64) :: u32)
        - of_nat (8 * (length ips + 1))) = 8 * length (c_regs c) + length (c_stack c) + 8 - 8 * (length ips + 1)"
      unfolding unat_sub [OF hdr(3)] hdr(1) hdr(2) ..
    moreover have "stack_off t c + 8 + length (c_stack c) + 8
        = ?E + (8 * length (c_regs c) + length (c_stack c) + 8 - 8 * (length ips + 1))"
      using fl room
      by (simp add: stack_off_def regs_off_def branch_off_def raw_off_def chain_off_def opt_def t_def)
    ultimately show ?thesis
      by (simp only: sub_ptr_ok(1))
  qed
  have off: "branch_off t c = length ?A + 8 + 8 * length (c_chain c) + length (opt (flag t PERF_SAMPLE_RAW) (raw_bytes (c_raw c)))"
    "raw_off t c = length ?A + 8 + 8 * length (c_chain c)"
    using fl by (simp_all add: branch_off_def raw_off_def chain_off_def opt_def t_def)
  define r2 where "r2 = r0\<lparr>header := h', binary := b0, stack_size := 0, regs_abi := 0\<rparr>"
  have r1s: "stack_data (r0\<lparr>header := h', binary := b0\<rparr>) = stack_off t c + 8"
    "stack_size (r0\<lparr>header := h', binary := b0\<rparr>) = of_nat (length (c_stack c))"
    by (simp_all add: r0)
  have r2s: "stack_size r2 = 0" "regs_abi r2 = 0" "binary r2 = b0" "callchain_ip_nr r2 = of_nat (length (c_chain c))"
    "sample_type r2 = t"
    and r2b: "branch_stack_nr r2 = branch_stack_nr r0" "branch_stack r2 = branch_stack r0"
    and r2r: "raw_size r2 = raw_size r0" "raw_data r2 = raw_data r0"
    by (simp_all add: r2_def r0)
  have lens: "length (c_branches c) < 2 ^ 58" "length (c_raw c) < 2 ^ 32"
    using c by (simp_all add: content_ok_def)
  note writes = replace_writes [OF b0_def refl E, where r = r2, unfolded r2s r2b r2r,
      OF refl r0b(1) lens(1) r0b(2) [unfolded off] refl r0r(1) lens(2) r0r(2) [unfolded off]]
  define b1 where "b1 = ?A @ to_le 8 (of_nat (length (c_chain c) + (length ips + 1)) :: u64) @ u64s_bytes (c_chain c)
    @ to_le 8 PERF_CONTEXT_USER @ u64s_bytes ips @ opt (flag t PERF_SAMPLE_RAW) (raw_bytes (c_raw c))
    @ opt (flag t PERF_SAMPLE_BRANCH_STACK) (branch_stack_bytes (c_branches c))
    @ to_le 8 (0 :: u64) @ to_le 8 (0 :: u64) @ drop ?E b0"
  define N where "N = length ?A + 8 + 8 * length (c_chain c)"
  have nr: "(of_nat (length (c_chain c)) + (of_nat (length ips) + 1) :: u64) = of_nat (length (c_chain c) + (length ips + 1))"
    by simp
  have s1: "sub_ptr N (unat (8 * of_nat (length (c_chain c)) :: u64)) = Inr (length ?A + 8)"
    using c unat_of_nat_times_8 [of "length (c_chain c)"] by (simp add: N_def content_ok_def mult.commute)
  have s2: "sub_ptr (length ?A + 8) 8 = Inr (length ?A)"
    by (rule sub_ptr_ok)
  have w: "write_at (length ?A) (to_le 8 (v :: u64)) (?A @ to_le 8 (u :: u64) @ x) = Inr (?A @ to_le 8 v @ x)" for u v x
    by (simp add: write_at_def)
  have res: "ReplaceRegAndStackWithCallChain ips r0 = Inr (r0\<lparr>header := h', stack_size := 0, regs_abi := 0,
      callchain_ips := length ?A + 8, callchain_ip_nr := of_nat (length (c_chain c) + (length ips + 1)), binary := b1\<rparr>)"
    unfolding ReplaceRegAndStackWithCallChain_def Let_def r0 hdr(4) wh rbind_simps
    unfolding r2_def [symmetric] r1s r2s n(1)
    using hdr(3)
    by (simp only: CHECK_simps simp_thms rbind_simps sp writes s1 [unfolded N_def] s2 nr SampleRecord.simps w)
       (simp add: r2_def b1_def)
  have len': "length (c_chain c) + 1 + length ips < 2 ^ 60"
    using hdr(5) fl by (simp add: c'_def content_bytes_split with_user_chain_def t_def)
  have "b1 = header_bytes h' @ content_bytes t c' @ drop ?E b0"
    using fl
    by (simp add: b1_def c'_def with_user_chain_def content_bytes_split fixed_bytes_def t_def opt_def regs_bytes_def
        stack_bytes_def)
  then have "sample_image attr h' c' b1"
    using hd content_ok_with_user_chain [OF c len'] sized_size [of attr c'] hdr(5)
    by (intro sample_imageI) (simp_all add: h'_def c'_def t_def)
  then show ?thesis
    unfolding c'_def [symmetric] t_def [symmetric] h'_def [symmetric] r0_def [symmetric] res
    using fl by (simp add: r0_def t_def chain_off_def)
qed
end
