(* ===== verification/Sample_Chain.thy ===== *)
theory Sample_Chain
  imports Sample_Ops
begin

text \<open>
  The member functions of \<open>SampleRecord\<close> that read the call chain or rewrite it in place. Each loop
  over the entries in the binary is first reduced to a function on the list of entries.
\<close>

section \<open>Entries of the call chain\<close>

lemma take_u64s_bytes: "take (8 * i) (u64s_bytes xs) = u64s_bytes (take i xs)"
proof (induction xs arbitrary: i)
  case (Cons x xs)
  then show ?case
    by (cases i) simp_all
qed simp

lemma drop_u64s_bytes: "drop (8 * i) (u64s_bytes xs) = u64s_bytes (drop i xs)"
proof (induction xs arbitrary: i)
  case (Cons x xs)
  then show ?case
    by (cases i) simp_all
qed simp

lemma read_chain:
  assumes "length P = off" and "i < length xs"
  shows "read_u64_at (off + 8 * i) (P @ u64s_bytes xs @ Q) = Inr (xs ! i)"
proof -
  have "xs = take i xs @ xs ! i # drop (Suc i) xs"
    using assms(2) by (rule id_take_nth_drop)
  then obtain a b where xs: "xs = a @ xs ! i # b" and a: "length a = i"
    using assms(2) by (metis length_take min.absorb4)
  have "take 8 (drop (off + 8 * i) (P @ u64s_bytes (a @ xs ! i # b) @ Q)) = to_le 8 (xs ! i)"
    using assms(1) a by simp
  then show ?thesis
    using assms xs by (simp add: read_u64_at_def read_at_def from_le_to_le)
qed

lemma write_chain:
  assumes "length P = off" and "i < length xs"
  shows "write_at (off + 8 * i) (to_le 8 v) (P @ u64s_bytes xs @ Q) = Inr (P @ u64s_bytes (xs[i := v]) @ Q)"
proof -
  have "xs = take i xs @ xs ! i # drop (Suc i) xs"
    using assms(2) by (rule id_take_nth_drop)
  then obtain a b where xs: "xs = a @ xs ! i # b" and a: "length a = i"
    using assms(2) by (metis length_take min.absorb4)
  have "xs[i := v] = a @ v # b"
    using xs a by (metis list_update_length)
  moreover have "write_at (off + 8 * i) (to_le 8 v) (P @ u64s_bytes (a @ xs ! i # b) @ Q)
      = Inr (P @ u64s_bytes (a @ v # b) @ Q)"
    using assms(1) a by (simp add: write_at_def)
  ultimately show ?thesis
    using xs by simp
qed

text \<open>The binary of a sample around its call chain.\<close>

lemma sample_image_chain:
  assumes "sample_image attr h c b" and "flag (attr_sample_type attr) PERF_SAMPLE_CALLCHAIN"
  obtains P Q where "b = P @ u64s_bytes (c_chain c) @ Q"
    and "length P = chain_off (attr_sample_type attr) c + 8"
    and "P = header_bytes h @ fixed_bytes (attr_sample_type attr) c @ to_le 8 (of_nat (length (c_chain c)) :: u64)"
proof -
  obtain rest where "b = header_bytes h @ content_bytes (attr_sample_type attr) c @ rest"
    using assms(1) by (rule sample_imageE)
  then show ?thesis
    using assms(2)
    by (intro that [of "header_bytes h @ fixed_bytes (attr_sample_type attr) c
            @ to_le 8 (of_nat (length (c_chain c)) :: u64)"])
       (simp_all add: content_bytes_split chain_off_def)
qed

lemma user_loop_list:
  assumes "length P = callchain_ips r" and "binary r = P @ u64s_bytes xs @ Q" and "n + i = length xs"
  shows "user_loop n i in_user r = Inr (\<exists>x \<in> set (if in_user then drop i xs
     else dropWhile (\<lambda>x. x \<noteq> PERF_CONTEXT_USER) (drop i xs)). x < PERF_CONTEXT_MAX)"
  using assms(3)
proof (induction n arbitrary: i in_user)
  case (Suc n)
  have d: "drop i xs = xs ! i # drop (Suc i) xs"
    using Suc.prems by (intro Cons_nth_drop_Suc [symmetric]) simp
  have "read_u64_at (callchain_ips r + 8 * i) (binary r) = Inr (xs ! i)"
    using read_chain [OF assms(1), of i xs Q] Suc.prems assms(2) by simp
  then show ?case
    using Suc.IH [of "Suc i"] Suc.prems by (auto simp: d)
qed simp

lemma kernel_ips_loop_list:
  assumes "length P = callchain_ips r" and "binary r = P @ u64s_bytes xs @ Q" and "n + i = length xs"
  shows "kernel_ips_loop n i r = Inr (takeWhile (\<lambda>x. x \<noteq> PERF_CONTEXT_USER) (drop i xs))"
  using assms(3)
proof (induction n arbitrary: i)
  case (Suc n)
  have d: "drop i xs = xs ! i # drop (Suc i) xs"
    using Suc.prems by (intro Cons_nth_drop_Suc [symmetric]) simp
  have "read_u64_at (callchain_ips r + 8 * i) (binary r) = Inr (xs ! i)"
    using read_chain [OF assms(1), of i xs Q] Suc.prems assms(2) by simp
  then show ?case
    using Suc.IH [of "Suc i"] Suc.prems by (auto simp: d)
qed simp

text \<open>Every frame but the first moves back by \<open>d\<close>; markers and null entries stay.\<close>

definition is_frame :: "u64 \<Rightarrow> bool" where
  "is_frame x \<longleftrightarrow> 0 < x \<and> x < PERF_CONTEXT_MAX"

fun adjust_ips :: "u64 \<Rightarrow> bool \<Rightarrow> u64 list \<Rightarrow> u64 list" where
  "adjust_ips d first [] = []"
| "adjust_ips d first (x # xs) =
     (if is_frame x
      then (if first then x else x - d) # adjust_ips d False xs
      else x # adjust_ips d first xs)"

lemma adjust_loop_list:
  assumes "length P = callchain_ips r" and "binary r = P @ u64s_bytes (ys @ xs) @ Q"
  shows "adjust_loop arm (length xs) (length ys) first r
    = Inr (r\<lparr>binary := P @ u64s_bytes (ys @ adjust_ips (if arm then 2 else 1) first xs) @ Q\<rparr>)"
  using assms
proof (induction xs arbitrary: ys first r)
  case (Cons x xs)
  have rd: "read_u64_at (callchain_ips r + 8 * length ys) (binary r) = Inr x"
    using read_chain [OF Cons.prems(1), of "length ys" "ys @ x # xs" Q] Cons.prems(2) by simp
  have wr: "write_at (callchain_ips r + 8 * length ys) (to_le 8 v) (binary r) = Inr (P @ u64s_bytes (ys @ v # xs) @ Q)" for v
    using write_chain [OF Cons.prems(1), of "length ys" "ys @ x # xs" v Q] Cons.prems(2) by simp
  have len: "Suc (length ys) = length (ys @ [v])" for v :: u64
    by simp
  show ?case
  proof (cases "is_frame x \<and> \<not> first")
    case True
    then show ?thesis
      using Cons.IH [of "r\<lparr>binary := P @ u64s_bytes (ys @ (x - (if arm then 2 else 1)) # xs) @ Q\<rparr>"
          "ys @ [x - (if arm then 2 else 1)]" False] Cons.prems(1)
      by (simp add: rd wr is_frame_def [symmetric])
  next
    case False
    have "adjust_loop arm (length xs) (Suc (length ys)) f r
      = Inr (r\<lparr>binary := P @ u64s_bytes (ys @ x # adjust_ips (if arm then 2 else 1) f xs) @ Q\<rparr>)" for f
      using Cons.IH [of r "ys @ [x]" f] Cons.prems by simp
    then show ?thesis
      using False by (cases "is_frame x") (simp_all add: rd is_frame_def [symmetric])
  qed
next
  case Nil
  then show ?case by simp
qed

lemma length_adjust_ips [simp]: "length (adjust_ips d first xs) = length xs"
  by (induction xs arbitrary: first) simp_all

lemma nth_adjust_ips:
  "i < length xs \<Longrightarrow> adjust_ips d first xs ! i
    = (if is_frame (xs ! i) \<and> (first \<longrightarrow> (\<exists>j<i. is_frame (xs ! j))) then xs ! i - d else xs ! i)"
proof (induction xs arbitrary: i first)
  case (Cons x xs)
  show ?case
  proof (cases i)
    case 0
    then show ?thesis by simp
  next
    case (Suc k)
    have "(\<exists>j<Suc k. is_frame ((x # xs) ! j)) \<longleftrightarrow> is_frame x \<or> (\<exists>j<k. is_frame (xs ! j))"
      by (auto simp: less_Suc_eq_0_disj)
    then show ?thesis
      using Cons.IH [of k] Cons.prems Suc by (cases "is_frame x") auto
  qed
qed simp

text \<open>The frames of a call chain without markers, and without a leading copy of the sampled \<open>ip\<close>.\<close>

definition frames :: "u64 list \<Rightarrow> u64 list" where
  "frames xs = filter (\<lambda>x. x < PERF_CONTEXT_MAX) xs"

definition drop_copy :: "u64 \<Rightarrow> u64 list \<Rightarrow> u64 list" where
  "drop_copy ip xs = (case xs of [] \<Rightarrow> [] | x # ys \<Rightarrow> if x = ip then ys else xs)"

text \<open>The entries recorded in kernel context, and whether a kernel marker follows them.\<close>

definition kernel_part :: "bool \<Rightarrow> u64 list \<Rightarrow> u64 list" where
  "kernel_part in_kernel xs = (if in_kernel then takeWhile (\<lambda>x. x \<noteq> PERF_CONTEXT_USER) xs else [])"

definition user_part :: "bool \<Rightarrow> u64 list \<Rightarrow> u64 list" where
  "user_part in_kernel xs = (if in_kernel then dropWhile (\<lambda>x. x \<noteq> PERF_CONTEXT_USER) xs else xs)"

lemma get_chain_loop_list:
  assumes "length P = callchain_ips r" and "binary r = P @ u64s_bytes xs @ Q" and "n + i = length xs"
  shows "get_chain_loop n i in_kernel first acc k r =
    (if PERF_CONTEXT_KERNEL \<in> set (user_part in_kernel (drop i xs)) then Inl CHECK_failed
     else Inr (acc @ (if first then drop_copy (ip_data r) (frames (drop i xs)) else frames (drop i xs)),
       k + length (if first then drop_copy (ip_data r) (frames (kernel_part in_kernel (drop i xs)))
                   else frames (kernel_part in_kernel (drop i xs)))))"
  using assms(3)
proof (induction n arbitrary: i in_kernel first acc k)
  case 0
  then show ?case
    by (simp add: frames_def drop_copy_def kernel_part_def user_part_def)
next
  case (Suc n)
  have d: "drop i xs = xs ! i # drop (Suc i) xs"
    using Suc.prems by (intro Cons_nth_drop_Suc [symmetric]) simp
  have rd: "read_u64_at (callchain_ips r + 8 * i) (binary r) = Inr (xs ! i)"
    using read_chain [OF assms(1), of i xs Q] Suc.prems assms(2) by simp
  note IH = Suc.IH [of "Suc i"]
  consider "xs ! i = PERF_CONTEXT_KERNEL" | "xs ! i = PERF_CONTEXT_USER"
    | "xs ! i \<ge> PERF_CONTEXT_MAX" "xs ! i \<noteq> PERF_CONTEXT_KERNEL" "xs ! i \<noteq> PERF_CONTEXT_USER"
    | "xs ! i < PERF_CONTEXT_MAX"
    by force
  then show ?case
  proof cases
    case 1
    then show ?thesis
      using IH Suc.prems by (auto simp: rd d frames_def drop_copy_def kernel_part_def user_part_def)
  next
    case 2
    then show ?thesis
      using IH Suc.prems by (auto simp: rd d frames_def drop_copy_def kernel_part_def user_part_def)
  next
    case 3
    then show ?thesis
      using IH Suc.prems by (auto simp: rd d frames_def drop_copy_def kernel_part_def user_part_def)
  next
    case 4
    then have "xs ! i \<noteq> PERF_CONTEXT_KERNEL" "xs ! i \<noteq> PERF_CONTEXT_USER"
      by auto
    with 4 show ?thesis
      using IH Suc.prems by (auto simp: rd d frames_def drop_copy_def kernel_part_def user_part_def)
  qed
qed


section \<open>Reading the call chain\<close>

lemma unat_chain:
  "sample_image attr h c b \<Longrightarrow> unat (of_nat (length (c_chain c)) :: u64) = length (c_chain c)"
  by (simp add: sample_image_def content_ok_def unat_of_nat_u64)

lemma HasUserCallChain_ok:
  assumes im: "sample_image attr h c b" and fl: "flag (attr_sample_type attr) PERF_SAMPLE_CALLCHAIN"
  shows "HasUserCallChain (sample_of uninit attr h c b)
    = Inr (\<exists>x \<in> set (user_part (InKernel (sample_of uninit attr h c b)) (c_chain c)). x < PERF_CONTEXT_MAX)"
proof -
  obtain P Q where b: "b = P @ u64s_bytes (c_chain c) @ Q" "length P = chain_off (attr_sample_type attr) c + 8"
    using im fl by (rule sample_image_chain)
  show ?thesis
    using user_loop_list [of P "sample_of uninit attr h c b" "c_chain c" Q "length (c_chain c)" 0] b fl unat_chain [OF im]
    by (simp add: HasUserCallChain_def user_part_def)
qed

lemma GetCallChain_ok:
  assumes im: "sample_image attr h c b" and fl: "flag (attr_sample_type attr) PERF_SAMPLE_CALLCHAIN"
    and r_def: "r = sample_of uninit attr h c b"
  shows "GetCallChain r =
    (if PERF_CONTEXT_KERNEL \<in> set (user_part (InKernel r) (c_chain c)) then Inl CHECK_failed
     else Inr (ip_data r # drop_copy (ip_data r) (frames (c_chain c)),
       (if InKernel r then 1 else 0) + length (drop_copy (ip_data r) (frames (kernel_part (InKernel r) (c_chain c))))))"
proof -
  obtain P Q where b: "b = P @ u64s_bytes (c_chain c) @ Q" "length P = chain_off (attr_sample_type attr) c + 8"
    using im fl by (rule sample_image_chain)
  have "length P = callchain_ips r" "binary r = P @ u64s_bytes (c_chain c) @ Q"
    using b fl by (simp_all add: r_def)
  from get_chain_loop_list [OF this, of "length (c_chain c)" 0] show ?thesis
    using fl unat_chain [OF im] by (simp add: GetCallChain_def Let_def r_def)
qed

section \<open>Rewriting the call chain in place\<close>

lemma fixed_bytes_chain [simp]: "fixed_bytes t (c\<lparr>c_chain := xs\<rparr>) = fixed_bytes t c"
  by (simp add: fixed_bytes_def)

lemma sample_image_new_chain:
  assumes im: "sample_image attr h c b" and fl: "flag (attr_sample_type attr) PERF_SAMPLE_CALLCHAIN"
    and b: "b = P @ u64s_bytes (c_chain c) @ Q" "length P = chain_off (attr_sample_type attr) c + 8"
    and xs: "length xs = length (c_chain c)"
  shows "sample_image attr h (c\<lparr>c_chain := xs\<rparr>) (P @ u64s_bytes xs @ Q)"
proof -
  obtain rest where b': "b = header_bytes h @ content_bytes (attr_sample_type attr) c @ rest"
    and h: "rh_type h = PERF_RECORD_SAMPLE" "content_ok attr c" "rh_size h < 65536"
    "unat (rh_size h) = 8 + length (content_bytes (attr_sample_type attr) c)"
    using im by (rule sample_imageE)
  have "P = header_bytes h @ fixed_bytes (attr_sample_type attr) c @ to_le 8 (of_nat (length (c_chain c)) :: u64)
    \<and> u64s_bytes (c_chain c) @ Q = u64s_bytes (c_chain c)
      @ opt (flag (attr_sample_type attr) PERF_SAMPLE_RAW) (raw_bytes (c_raw c))
      @ opt (flag (attr_sample_type attr) PERF_SAMPLE_BRANCH_STACK) (branch_stack_bytes (c_branches c))
      @ opt (flag (attr_sample_type attr) PERF_SAMPLE_REGS_USER) (regs_bytes (c_abi c) (c_regs c))
      @ opt (flag (attr_sample_type attr) PERF_SAMPLE_STACK_USER) (stack_bytes (c_stack c) (c_dyn_size c)) @ rest"
    using b b' fl by (subst append_eq_append_conv [symmetric]) (simp_all add: content_bytes_split chain_off_def)
  then have "P @ u64s_bytes xs @ Q = header_bytes h @ content_bytes (attr_sample_type attr) (c\<lparr>c_chain := xs\<rparr>) @ rest"
    using fl xs by (simp add: content_bytes_split)
  moreover have "length (content_bytes (attr_sample_type attr) (c\<lparr>c_chain := xs\<rparr>)) = length (content_bytes (attr_sample_type attr) c)"
    using fl xs by (simp add: content_bytes_split)
  ultimately show ?thesis
    using h xs by (intro sample_imageI) (simp_all add: content_ok_def)
qed

lemma AdjustCallChainGeneratedByKernel_ok:
  assumes im: "sample_image attr h c b" and fl: "flag (attr_sample_type attr) PERF_SAMPLE_CALLCHAIN"
  shows "\<exists>b'. AdjustCallChainGeneratedByKernel arm (sample_of uninit attr h c b) = Inr ((sample_of uninit attr h c b)\<lparr>binary := b'\<rparr>)
    \<and> sample_image attr h (c\<lparr>c_chain := adjust_ips (if arm then 2 else 1) True (c_chain c)\<rparr>) b'"
proof -
  obtain P Q where b: "b = P @ u64s_bytes (c_chain c) @ Q" "length P = chain_off (attr_sample_type attr) c + 8"
    using im fl by (rule sample_image_chain)
  have "length P = callchain_ips (sample_of uninit attr h c b)"
    "binary (sample_of uninit attr h c b) = P @ u64s_bytes ([] @ c_chain c) @ Q"
    using b fl by simp_all
  from adjust_loop_list [OF this, of arm True] show ?thesis
    using fl unat_chain [OF im] sample_image_new_chain [OF im fl b, of "adjust_ips (if arm then 2 else 1) True (c_chain c)"]
    by (intro exI [of _ "P @ u64s_bytes (adjust_ips (if arm then 2 else 1) True (c_chain c)) @ Q"])
       (simp add: AdjustCallChainGeneratedByKernel_def)
qed
text \<open>The header of a sample that became one of user space.\<close>

definition user_header :: "RecordHeader \<Rightarrow> RecordHeader" where
  "user_header h = h\<lparr>rh_misc := (rh_misc h AND NOT PERF_RECORD_MISC_KERNEL) OR PERF_RECORD_MISC_USER\<rparr>"

lemma write_misc:
  assumes "rh_type h = PERF_RECORD_SAMPLE"
  shows "write_at 4 (to_le 2 (rh_misc (user_header h))) (header_bytes h @ x) = Inr (header_bytes (user_header h) @ x)"
  using assms by (simp add: write_at_def header_bytes_def user_header_def record_type_defs)

lemma mark_user_ip_run:
  assumes "binary r = header_bytes h @ f @ x" and "header r = h" and "rh_type h = PERF_RECORD_SAMPLE"
    and "f' = (if flag (sample_type r) PERF_SAMPLE_IP then to_le 8 ip else f)"
    and "flag (sample_type r) PERF_SAMPLE_IP \<Longrightarrow> length f = 8"
  shows "mark_user_ip ip r = Inr (r\<lparr>ip_data := ip, header := user_header h, binary := header_bytes (user_header h) @ f' @ x\<rparr>)"
proof -
  have "write_at 8 (to_le 8 ip) (header_bytes h @ f @ x) = Inr (header_bytes h @ to_le 8 ip @ x)" if "length f = 8"
    using that by (simp add: write_at_def)
  then show ?thesis
    using assms write_misc [OF assms(3)]
    by (simp add: mark_user_ip_def header_size_def user_header_def Let_def)
qed

lemma mark_user_ip_image:
  assumes im: "sample_image attr h c b" and r: "binary r = b" "header r = h" "sample_type r = attr_sample_type attr"
    and x: "content_bytes (attr_sample_type attr) c = f @ x" "content_bytes (attr_sample_type attr) c' = f' @ x"
    and f': "f' = (if flag (attr_sample_type attr) PERF_SAMPLE_IP then to_le 8 ip else f)"
    and f: "flag (attr_sample_type attr) PERF_SAMPLE_IP \<Longrightarrow> length f = 8" and c': "content_ok attr c'"
  shows "\<exists>b'. mark_user_ip ip r = Inr (r\<lparr>ip_data := ip, header := user_header h, binary := b'\<rparr>)
    \<and> sample_image attr (user_header h) c' b'"
proof -
  obtain rest where b: "b = header_bytes h @ content_bytes (attr_sample_type attr) c @ rest"
    and h: "rh_type h = PERF_RECORD_SAMPLE" "rh_size h < 65536"
    "unat (rh_size h) = 8 + length (content_bytes (attr_sample_type attr) c)"
    using im by (rule sample_imageE)
  have "mark_user_ip ip r = Inr (r\<lparr>ip_data := ip, header := user_header h,
      binary := header_bytes (user_header h) @ f' @ x @ rest\<rparr>)"
    using r b x h f f' by (intro mark_user_ip_run [where f = f]) simp_all
  moreover have "length (content_bytes (attr_sample_type attr) c') = length (content_bytes (attr_sample_type attr) c)"
    unfolding x f' using f by simp
  then have "sample_image attr (user_header h) c' (header_bytes (user_header h) @ f' @ x @ rest)"
    using h x c' by (intro sample_imageI [where rest = rest]) (simp_all add: user_header_def)
  ultimately show ?thesis
    by (intro exI conjI)
qed

text \<open>Right after the header comes the \<open>ip\<close>, unless the sample type has the identifier field.\<close>

lemma mark_user_ip_ip:
  assumes im: "sample_image attr h c b" and r: "binary r = b" "header r = h" "sample_type r = attr_sample_type attr"
    and fl: "\<not> flag (attr_sample_type attr) PERF_SAMPLE_IDENTIFIER"
  shows "\<exists>b'. mark_user_ip ip r = Inr (r\<lparr>ip_data := ip, header := user_header h, binary := b'\<rparr>)
    \<and> sample_image attr (user_header h) (c\<lparr>c_ip := ip\<rparr>) b'"
  by (rule mark_user_ip_image [OF im r, where f = "opt (flag (attr_sample_type attr) PERF_SAMPLE_IP) (to_le 8 (c_ip c))"])
     (use im fl in \<open>simp_all add: content_bytes_def fixed_bytes_def opt_def sample_image_def content_ok_def\<close>)

lemma mark_user_ip_identifier:
  assumes im: "sample_image attr h c b" and r: "binary r = b" "header r = h" "sample_type r = attr_sample_type attr"
    and fl: "flag (attr_sample_type attr) PERF_SAMPLE_IDENTIFIER" "flag (attr_sample_type attr) PERF_SAMPLE_IP"
      "\<not> flag (attr_sample_type attr) PERF_SAMPLE_ID"
  shows "\<exists>b'. mark_user_ip ip r = Inr (r\<lparr>ip_data := ip, header := user_header h, binary := b'\<rparr>)
    \<and> sample_image attr (user_header h) (c\<lparr>c_id := ip\<rparr>) b'"
  by (rule mark_user_ip_image [OF im r, where f = "to_le 8 (c_id c)"])
     (use im fl in \<open>simp_all add: content_bytes_def fixed_bytes_def opt_def sample_image_def content_ok_def\<close>)

lemma exclude_loop_list:
  assumes "length P = callchain_ips r" and "binary r = P @ u64s_bytes (replicate j PERF_CONTEXT_USER @ xs) @ Q"
  defines "k \<equiv> length (takeWhile (\<lambda>x. x \<noteq> PERF_CONTEXT_USER) xs)"
  shows "exclude_loop (length xs) j r =
    (let r' = r\<lparr>binary := P @ u64s_bytes (replicate (j + k) PERF_CONTEXT_USER @ drop k xs) @ Q\<rparr> in
     case drop k xs of [] \<Rightarrow> Inr (j + k, r') | [_] \<Rightarrow> Inr (j + k + 1, r')
     | _ # ip # _ \<Rightarrow> rbind (mark_user_ip ip r') (\<lambda>r. Inr (j + k + 1, r)))"
  using assms(1,2) unfolding k_def
proof (induction xs arbitrary: j r)
  case (Cons x xs)
  have rd: "read_u64_at (callchain_ips r + 8 * (j + i)) (binary r) = Inr ((x # xs) ! i)" if "i < length (x # xs)" for i
    using read_chain [OF Cons.prems(1), of "j + i" "replicate j PERF_CONTEXT_USER @ x # xs" Q] Cons.prems(2) that
    by (simp add: nth_append)
  show ?case
  proof (cases "x = PERF_CONTEXT_USER")
    case True
    have r: "r\<lparr>binary := P @ u64s_bytes (replicate j PERF_CONTEXT_USER @ x # xs) @ Q\<rparr> = r"
      using Cons.prems(2) by simp
    show ?thesis
      using True rd [of 0] rd [of 1] r by (cases xs) (simp_all add: Let_def)
  next
    case False
    have rep: "replicate j PERF_CONTEXT_USER @ [PERF_CONTEXT_USER] = replicate (Suc j) PERF_CONTEXT_USER"
      by (simp add: replicate_append_same)
    have wr: "write_at (callchain_ips r + 8 * j) (to_le 8 PERF_CONTEXT_USER) (binary r)
        = Inr (P @ u64s_bytes (replicate (Suc j) PERF_CONTEXT_USER @ xs) @ Q)"
      using write_chain [OF Cons.prems(1), of j "replicate j PERF_CONTEXT_USER @ x # xs" PERF_CONTEXT_USER Q] Cons.prems(2)
      by (simp add: list_update_append rep [symmetric] del: replicate.simps)
    show ?thesis
      using False rd [of 0] Cons.IH [of "r\<lparr>binary := P @ u64s_bytes (replicate (Suc j) PERF_CONTEXT_USER @ xs) @ Q\<rparr>" "Suc j"]
        Cons.prems(1)
      by (simp add: wr Let_def del: replicate.simps u64s_bytes_simps cong: list.case_cong)
  qed
qed (simp add: Let_def)
text \<open>The entries after the user space marker, and the chain with the kernel entries overwritten.\<close>

definition user_entries :: "u64 list \<Rightarrow> u64 list" where
  "user_entries xs = drop 1 (dropWhile (\<lambda>x. x \<noteq> PERF_CONTEXT_USER) xs)"

definition mask_kernel :: "u64 list \<Rightarrow> u64 list" where
  "mask_kernel xs = replicate (length (takeWhile (\<lambda>x. x \<noteq> PERF_CONTEXT_USER) xs)) PERF_CONTEXT_USER
     @ dropWhile (\<lambda>x. x \<noteq> PERF_CONTEXT_USER) xs"

lemma length_takeWhile_dropWhile: "length xs = length (takeWhile P xs) + length (dropWhile P xs)"
  by (induction xs) simp_all

lemma length_mask_kernel [simp]: "length (mask_kernel xs) = length xs"
  unfolding mask_kernel_def length_append length_replicate by (rule length_takeWhile_dropWhile [symmetric])

lemma exclude_run:
  assumes im: "sample_image attr h c b" and fl: "flag (attr_sample_type attr) PERF_SAMPLE_CALLCHAIN"
    and mark: "\<And>b r ip. sample_image attr h (c\<lparr>c_chain := mask_kernel (c_chain c)\<rparr>) b \<Longrightarrow> binary r = b \<Longrightarrow> header r = h
      \<Longrightarrow> sample_type r = attr_sample_type attr
      \<Longrightarrow> \<exists>b'. mark_user_ip ip r = Inr (r\<lparr>ip_data := ip, header := user_header h, binary := b'\<rparr>)
          \<and> sample_image attr (user_header h) (upd ip (c\<lparr>c_chain := mask_kernel (c_chain c)\<rparr>)) b'"
  shows "\<exists>r. ExcludeKernelCallChain (sample_of uninit attr h c b) = Inr (length (user_entries (c_chain c)), r)
    \<and> header r = (if user_entries (c_chain c) = [] then h else user_header h)
    \<and> ip_data r = (if user_entries (c_chain c) = [] then ip_data (sample_of uninit attr h c b) else hd (user_entries (c_chain c)))
    \<and> sample_image attr (header r) (if user_entries (c_chain c) = [] then c\<lparr>c_chain := mask_kernel (c_chain c)\<rparr>
        else upd (hd (user_entries (c_chain c))) (c\<lparr>c_chain := mask_kernel (c_chain c)\<rparr>)) (binary r)"
proof -
  let ?xs = "c_chain c" and ?r = "sample_of uninit attr h c b"
  let ?k = "length (takeWhile (\<lambda>x. x \<noteq> PERF_CONTEXT_USER) ?xs)"
  obtain P Q where b: "b = P @ u64s_bytes ?xs @ Q" "length P = chain_off (attr_sample_type attr) c + 8"
    using im fl by (rule sample_image_chain)
  let ?b = "P @ u64s_bytes (mask_kernel ?xs) @ Q"
  have im': "sample_image attr h (c\<lparr>c_chain := mask_kernel ?xs\<rparr>) ?b"
    by (rule sample_image_new_chain [OF im fl b]) simp
  have "length P = callchain_ips ?r" "binary ?r = P @ u64s_bytes (replicate 0 PERF_CONTEXT_USER @ ?xs) @ Q"
    using b fl by simp_all
  note run = exclude_loop_list [OF this, folded dropWhile_eq_drop, folded mask_kernel_def, unfolded Let_def add_0, folded mask_kernel_def]
  have e: "ExcludeKernelCallChain ?r = rbind (exclude_loop (length ?xs) 0 ?r) (\<lambda>(i, r'). Inr (length ?xs - i, r'))"
    using fl unat_chain [OF im] by (simp add: ExcludeKernelCallChain_def)
  define D where "D = dropWhile (\<lambda>x. x \<noteq> PERF_CONTEXT_USER) ?xs"
  have len: "length ?xs = ?k + length D"
    unfolding D_def by (rule length_takeWhile_dropWhile)
  note defs = e run user_entries_def D_def [symmetric]
  consider "D = []" | x where "D = [x]" | x ip us where "D = x # ip # us"
    by (cases D rule: remdups_adj.cases) auto
  then show ?thesis
  proof cases
    case 1
    then show ?thesis
      using im' len unfolding defs by simp
  next
    case 2
    then show ?thesis
      using im' len unfolding defs by simp
  next
    case 3
    obtain b' where "mark_user_ip ip (?r\<lparr>binary := ?b\<rparr>)
        = Inr (?r\<lparr>binary := ?b, ip_data := ip, header := user_header h, binary := b'\<rparr>)"
      "sample_image attr (user_header h) (upd ip (c\<lparr>c_chain := mask_kernel ?xs\<rparr>)) b'"
      using mark [OF im', of "?r\<lparr>binary := ?b\<rparr>" ip] by auto
    then show ?thesis
      using 3 len unfolding defs by simp
  qed
qed
lemma ExcludeKernelCallChain_ok:
  assumes im: "sample_image attr h c b" and fl: "flag (attr_sample_type attr) PERF_SAMPLE_CALLCHAIN"
    "\<not> flag (attr_sample_type attr) PERF_SAMPLE_IDENTIFIER"
  shows "\<exists>r. ExcludeKernelCallChain (sample_of uninit attr h c b) = Inr (length (user_entries (c_chain c)), r)
    \<and> header r = (if user_entries (c_chain c) = [] then h else user_header h)
    \<and> ip_data r = (if user_entries (c_chain c) = [] then ip_data (sample_of uninit attr h c b) else hd (user_entries (c_chain c)))
    \<and> sample_image attr (header r) (if user_entries (c_chain c) = [] then c\<lparr>c_chain := mask_kernel (c_chain c)\<rparr>
        else c\<lparr>c_chain := mask_kernel (c_chain c), c_ip := hd (user_entries (c_chain c))\<rparr>) (binary r)"
  by (rule exclude_run [OF im fl(1), where upd = "\<lambda>ip c. c\<lparr>c_ip := ip\<rparr>"]) (rule mark_user_ip_ip, simp_all add: fl)

lemma ExcludeKernelCallChain_identifier:
  assumes im: "sample_image attr h c b" and fl: "flag (attr_sample_type attr) PERF_SAMPLE_CALLCHAIN"
    "flag (attr_sample_type attr) PERF_SAMPLE_IDENTIFIER" "flag (attr_sample_type attr) PERF_SAMPLE_IP"
    "\<not> flag (attr_sample_type attr) PERF_SAMPLE_ID"
  shows "\<exists>r. ExcludeKernelCallChain (sample_of uninit attr h c b) = Inr (length (user_entries (c_chain c)), r)
    \<and> header r = (if user_entries (c_chain c) = [] then h else user_header h)
    \<and> ip_data r = (if user_entries (c_chain c) = [] then ip_data (sample_of uninit attr h c b) else hd (user_entries (c_chain c)))
    \<and> sample_image attr (header r) (if user_entries (c_chain c) = [] then c\<lparr>c_chain := mask_kernel (c_chain c)\<rparr>
        else c\<lparr>c_chain := mask_kernel (c_chain c), c_id := hd (user_entries (c_chain c))\<rparr>) (binary r)"
  by (rule exclude_run [OF im fl(1), where upd = "\<lambda>ip c. c\<lparr>c_id := ip\<rparr>"]) (rule mark_user_ip_identifier, simp_all add: fl)

end
