(* ===== verification/Sample_Update.thy ===== *)
theory Sample_Update
  imports Sample_Chain
begin

text \<open>
  The member functions of \<open>SampleRecord\<close> that build a binary anew or shrink it: the constructor of
  a sample, \<open>UpdateUserCallChain\<close> and \<open>RemoveInvalidStackData\<close>.
\<close>

section \<open>Optional fields of a binary\<close>

lemma opt_simps [simp]: "opt True bs = bs" "opt False bs = []"
  by (simp_all add: opt_def)

lemma put_if_bytes: "put_if cond bs w = put_bytes (opt cond bs) w"
  by (cases w) (simp add: put_if_def put_bytes_def opt_def)

lemma opt_if [simp]: "opt cond (f (if cond then x else y)) = opt cond (f x)"
  by (simp add: opt_def)

lemma opt_if2 [simp]: "opt cond (f (if cond then x else y) @ g (if cond then x' else y')) = opt cond (f x @ g x')"
  by (simp add: opt_def)

lemma flag_excluded:
  assumes "t AND NOT a = 0" and "a AND f = 0"
  shows "\<not> flag t f"
proof -
  have "t AND f = (t AND (a AND f)) OR ((t AND NOT a) AND f)"
    by (rule bit_word_eqI) (auto simp: bit_simps)
  also have "\<dots> = 0"
    unfolding assms by simp
  finally show ?thesis
    by (simp add: flag_def)
qed

section \<open>A new sample\<close>

definition new_content :: "u64 \<Rightarrow> u64 \<Rightarrow> u32 \<Rightarrow> u32 \<Rightarrow> u64 \<Rightarrow> u32 \<Rightarrow> u64 \<Rightarrow> u64 list \<Rightarrow> SampleContent" where
  "new_content i ip pid tid time cpu period ips =
     \<lparr>c_id = i, c_ip = ip, c_pid = pid, c_tid = tid, c_time = time, c_addr = 0, c_stream_id = 0, c_cpu = cpu, c_res = 0,
      c_period = period, c_chain = ips, c_raw = [], c_branches = [], c_abi = 0, c_regs = [], c_stack = [], c_dyn_size = 0\<rparr>"

definition new_sample_types :: u64 where
  "new_sample_types = PERF_SAMPLE_IP OR PERF_SAMPLE_TID OR PERF_SAMPLE_TIME OR PERF_SAMPLE_ID
        OR PERF_SAMPLE_CPU OR PERF_SAMPLE_PERIOD OR PERF_SAMPLE_CALLCHAIN OR PERF_SAMPLE_REGS_USER
        OR PERF_SAMPLE_STACK_USER"

lemma new_sample_types_excluded:
  assumes "t AND NOT new_sample_types = 0"
  shows "\<not> flag t PERF_SAMPLE_IDENTIFIER" "\<not> flag t PERF_SAMPLE_ADDR" "\<not> flag t PERF_SAMPLE_STREAM_ID"
    "\<not> flag t PERF_SAMPLE_RAW" "\<not> flag t PERF_SAMPLE_BRANCH_STACK"
  by (rule flag_excluded [OF assms], simp add: new_sample_types_def)+

lemma length_content_new:
  assumes "t AND NOT new_sample_types = 0"
  shows "header_size
            + (if flag t PERF_SAMPLE_IP then 8 else 0)
            + (if flag t PERF_SAMPLE_TID then 8 else 0)
            + (if flag t PERF_SAMPLE_TIME then 8 else 0)
            + (if flag t PERF_SAMPLE_ID then 8 else 0)
            + (if flag t PERF_SAMPLE_CPU then 8 else 0)
            + (if flag t PERF_SAMPLE_PERIOD then 8 else 0)
            + (if flag t PERF_SAMPLE_CALLCHAIN then 8 * (length ips + 1) else 0)
            + (if flag t PERF_SAMPLE_REGS_USER then 8 else 0)
            + (if flag t PERF_SAMPLE_STACK_USER then 8 else 0)
    = 8 + length (content_bytes t (new_content i ip pid tid time cpu period ips))"
  using new_sample_types_excluded [OF assms]
  by (simp add: content_bytes_def fixed_bytes_def length_opt new_content_def header_size_def stack_bytes_def)

text \<open>The writes of the constructor, grouped by the parts of the layout.\<close>

lemma SampleRecord_new_writes:
  fixes ips :: "u64 list"
  assumes t: "t = attr_sample_type attr" "t AND NOT new_sample_types = 0"
    and c: "c = new_content i ip pid tid time cpu period ips"
    and n: "n = 8 + length (content_bytes t c)"
    and r: "r = SetSize n (SetTypeAndMisc PERF_RECORD_SAMPLE PERF_RECORD_MISC_USER
            (uninit\<lparr>header := RecordHeader_zero, sample_id := SampleId_init, binary := [], own_binary := False,
              sample_type := t, ip_data := ip, tid_data_pid := pid, tid_data_tid := tid, time_data := time,
              id_data := i, cpu_data_cpu := cpu, cpu_data_res := 0, period_data := period,
              callchain_ip_nr := of_nat (length ips), raw_size := 0, branch_stack_nr := 0,
              regs_abi := 0, regs_mask := 0, stack_size := 0\<rparr>))"
  shows "SampleRecord_new junk uninit attr i ip pid tid time cpu period ips =
      rbind (RecordHeader_MoveToBinaryFormat (header r) ([], new_char junk (unat (rh_size (header r))))) (\<lambda>w.
      rbind (put_bytes (fixed_bytes t c) w) (\<lambda>w.
      let r = (if flag t PERF_SAMPLE_CALLCHAIN then r\<lparr>callchain_ips := length (fst w) + 8\<rparr> else r) in
      rbind (put_bytes (opt (flag t PERF_SAMPLE_CALLCHAIN) (chain_bytes ips)
        @ opt (flag t PERF_SAMPLE_REGS_USER) (to_le 8 (0 :: u64)) @ opt (flag t PERF_SAMPLE_STACK_USER) (to_le 8 (0 :: u64))) w) (\<lambda>w.
      rbind (CHECK (snd w = [])) (\<lambda>_. Inr (UpdateBinary (wcursor_bytes w) r)))))"
proof -
  have F: "fixed_bytes t c = opt (flag t PERF_SAMPLE_IP) (to_le 8 ip)
      @ opt (flag t PERF_SAMPLE_TID) (to_le 4 pid @ to_le 4 tid)
      @ opt (flag t PERF_SAMPLE_TIME) (to_le 8 time) @ opt (flag t PERF_SAMPLE_ID) (to_le 8 i)
      @ opt (flag t PERF_SAMPLE_CPU) (to_le 4 cpu @ to_le 4 (0 :: u32))
      @ opt (flag t PERF_SAMPLE_PERIOD) (to_le 8 period)"
    using new_sample_types_excluded [OF t(2)] by (simp add: fixed_bytes_def c new_content_def)
  have chk: "CHECK (0 = t AND NOT (PERF_SAMPLE_IP OR PERF_SAMPLE_TID OR PERF_SAMPLE_TIME OR PERF_SAMPLE_ID
        OR PERF_SAMPLE_CPU OR PERF_SAMPLE_PERIOD OR PERF_SAMPLE_CALLCHAIN OR PERF_SAMPLE_REGS_USER
        OR PERF_SAMPLE_STACK_USER)) = Inr ()"
    unfolding new_sample_types_def [symmetric] t(2) by simp
  have abi: "regs_abi (if b then r\<lparr>callchain_ips := x\<rparr> else r) = 0" "stack_size (if b then r\<lparr>callchain_ips := x\<rparr> else r) = 0" for b x
    by (simp_all add: r SetSize_def SetTypeAndMisc_def)
  show ?thesis
    unfolding SampleRecord_new_def Let_def t(1) [symmetric] chk rbind_simps
      length_content_new [OF t(2), of ips i ip pid tid time cpu period, folded c, folded n] r [symmetric]
      put_if_bytes put_bytes_put_bytes abi F append_assoc chain_bytes_def ..
qed

lemma SampleRecord_new_ok:
  assumes t: "attr_sample_type attr AND NOT new_sample_types = 0" and len: "length ips < 8000"
  shows "\<exists>r. SampleRecord_new junk uninit attr i ip pid tid time cpu period ips = Inr r
    \<and> rh_misc (header r) = PERF_RECORD_MISC_USER
    \<and> length (binary r) = unat (rh_size (header r))
    \<and> sample_image attr (header r) (new_content i ip pid tid time cpu period ips) (binary r)"
proof -
  define ty where "ty = attr_sample_type attr"
  define c where "c = new_content i ip pid tid time cpu period ips"
  define n where "n = 8 + length (content_bytes ty c)"
  define r where "r = SetSize n (SetTypeAndMisc PERF_RECORD_SAMPLE PERF_RECORD_MISC_USER
            (uninit\<lparr>header := RecordHeader_zero, sample_id := SampleId_init, binary := [], own_binary := False,
              sample_type := ty, ip_data := ip, tid_data_pid := pid, tid_data_tid := tid, time_data := time,
              id_data := i, cpu_data_cpu := cpu, cpu_data_res := 0, period_data := period,
              callchain_ip_nr := of_nat (length ips), raw_size := 0, branch_stack_nr := 0,
              regs_abi := 0, regs_mask := 0, stack_size := 0\<rparr>))"
  have small: "n < 65536"
    using len unfolding n_def c_def length_content_new [OF t, of ips, folded ty_def, symmetric]
    by (simp add: header_size_def)
  have n: "unat (rh_size (header r)) = n"
    using small by (simp add: r_def)
  have hok: "header_ok (header r)"
    unfolding r_def using small by (intro header_ok_SetSize) (simp_all add: SetTypeAndMisc_def record_type_defs)
  define R where "R = opt (flag ty PERF_SAMPLE_CALLCHAIN) (chain_bytes ips)
    @ opt (flag ty PERF_SAMPLE_REGS_USER) (to_le 8 (0 :: u64)) @ opt (flag ty PERF_SAMPLE_STACK_USER) (to_le 8 (0 :: u64))"
  have cb: "content_bytes ty c = fixed_bytes ty c @ R"
    using new_sample_types_excluded [OF t, folded ty_def]
    by (simp add: content_bytes_def R_def c_def new_content_def regs_bytes_def stack_bytes_def)
  have le: "8 + length (fixed_bytes ty c) \<le> unat (rh_size (header r))"
    unfolding n n_def cb by simp
  let ?b = "header_bytes (header r) @ content_bytes ty c"
  have pad: "plain_pad junk (header r) (fixed_bytes ty c) = map junk [8 + length (fixed_bytes ty c)..<n]"
    by (simp add: plain_pad_def n)
  have put: "put_bytes R (header_bytes (header r) @ fixed_bytes ty c, plain_pad junk (header r) (fixed_bytes ty c)) = Inr (?b, [])"
    unfolding pad by (simp add: put_bytes_def n_def cb)
  have new: "\<exists>r'. SampleRecord_new junk uninit attr i ip pid tid time cpu period ips = Inr r'
      \<and> header r' = header r \<and> binary r' = ?b"
    unfolding SampleRecord_new_writes [OF ty_def t [folded ty_def] c_def n_def r_def] R_def [symmetric]
      write_plain [OF hok le] Let_def put
    by (simp add: wcursor_bytes_def UpdateBinary_def)
  have c_ok: "content_ok attr c"
    using len by (simp add: content_ok_def c_def new_content_def)
  have "sample_image attr (header r) c ?b"
    using c_ok small n n_def [unfolded ty_def]
    by (intro sample_imageI [where rest = "[]"])
       (simp_all add: ty_def r_def SetTypeAndMisc_def word_less_nat_alt)
  moreover have "rh_misc (header r) = PERF_RECORD_MISC_USER"
    by (simp add: r_def SetTypeAndMisc_def)
  ultimately show ?thesis
    using new n unfolding c_def [symmetric] by (auto simp: n_def)
qed

section \<open>New user call chain\<close>

lemma UpdateUserCallChain_head:
  assumes im: "sample_image attr h c b" and fl: "flag (attr_sample_type attr) PERF_SAMPLE_CALLCHAIN"
    and ks: "ks = takeWhile (\<lambda>x. x \<noteq> PERF_CONTEXT_USER) (c_chain c) @ [PERF_CONTEXT_USER]"
    and c': "c' = c\<lparr>c_chain := ks @ user_ips\<rparr>"
    and small: "8 + length (content_bytes (attr_sample_type attr) c') < 65536"
  shows "UpdateUserCallChain junk user_ips (sample_of uninit attr h c b) =
     (if length ks + length user_ips = length (c_chain c) then Inr (sample_of uninit attr h c b)
      else UpdateUserCallChain_write junk (of_nat (8 + length (content_bytes (attr_sample_type attr) c'))) ks user_ips
        (sample_of uninit attr h c b))"
proof -
  let ?r = "sample_of uninit attr h c b"
  define L where "L = 8 + length (content_bytes (attr_sample_type attr) c)"
  define L' where "L' = 8 + length (content_bytes (attr_sample_type attr) c')"
  define m where "m = length ks + length user_ips"
  obtain P Q where b: "b = P @ u64s_bytes (c_chain c) @ Q" "length P = chain_off (attr_sample_type attr) c + 8"
    using im fl by (rule sample_image_chain)
  have k: "kernel_ips_loop (length (c_chain c)) 0 ?r = Inr (takeWhile (\<lambda>x. x \<noteq> PERF_CONTEXT_USER) (c_chain c))"
    using kernel_ips_loop_list [of P ?r "c_chain c" Q "length (c_chain c)" 0] b fl by simp
  have size: "unat (rh_size h) = L" "L < 65536"
    using im by (auto simp: sample_image_def L_def word_less_nat_alt)
  have uc: "(ucast (rh_size h) :: u64) = of_nat L"
    unfolding size(1) [symmetric] by (rule of_nat_unat [symmetric])
  have eq: "L' + 8 * length (c_chain c) = L + 8 * m"
    unfolding L_def L'_def c' m_def using fl by (simp add: content_bytes_split)
  have "(of_nat (L' + 8 * length (c_chain c)) :: u64) = of_nat (L + 8 * m)"
    unfolding eq ..
  then have ns: "(of_nat L - of_nat (length (c_chain c)) * 8 + of_nat m * 8 :: u64) = of_nat L'"
    by (simp add: algebra_simps)
  have "(of_nat L' :: u64) = of_nat L \<longleftrightarrow> L' = L"
    using size(2) small unfolding L'_def [symmetric] word_unat_eq_iff by (simp add: unat_of_nat_u64)
  also have "\<dots> \<longleftrightarrow> m = length (c_chain c)"
    using eq by linarith
  finally have same: "(of_nat L' :: u64) = of_nat L \<longleftrightarrow> m = length (c_chain c)" .
  show ?thesis
    unfolding L'_def [symmetric] m_def [symmetric] UpdateUserCallChain_def sample_of_simps(4) [OF fl]
      sample_of_simps(1) unat_chain [OF im] k rbind_simps ks [symmetric] Let_def uc ns same
    by simp
qed

lemma read_at_mid: "i = length a \<Longrightarrow> n = length x \<Longrightarrow> read_at i n (a @ x @ y) = Inr x"
  by (simp add: read_at_def)

lemma sample_image_read:
  assumes im: "sample_image attr h c b"
  shows "flag (attr_sample_type attr) PERF_SAMPLE_RAW \<Longrightarrow>
      read_at (raw_off (attr_sample_type attr) c + 4) (length (c_raw c)) b = Inr (c_raw c)"
    and "flag (attr_sample_type attr) PERF_SAMPLE_BRANCH_STACK \<Longrightarrow>
      read_at (branch_off (attr_sample_type attr) c + 8) (24 * length (c_branches c)) b = Inr (branch_bytes (c_branches c))"
proof -
  define t where "t = attr_sample_type attr"
  obtain rest where b: "b = header_bytes h @ content_bytes t c @ rest"
    using im unfolding t_def by (rule sample_imageE)
  define A where "A = header_bytes h @ fixed_bytes t c @ opt (flag t PERF_SAMPLE_CALLCHAIN) (chain_bytes (c_chain c))"
  define B where "B = opt (flag t PERF_SAMPLE_REGS_USER) (regs_bytes (c_abi c) (c_regs c))
    @ opt (flag t PERF_SAMPLE_STACK_USER) (stack_bytes (c_stack c) (c_dyn_size c)) @ rest"
  have b': "b = A @ opt (flag t PERF_SAMPLE_RAW) (raw_bytes (c_raw c))
      @ opt (flag t PERF_SAMPLE_BRANCH_STACK) (branch_stack_bytes (c_branches c)) @ B"
    by (simp add: b A_def B_def content_bytes_def)
  have off: "raw_off t c = length A"
    "branch_off t c = length A + length (opt (flag t PERF_SAMPLE_RAW) (raw_bytes (c_raw c)))"
    by (simp_all add: A_def raw_off_def branch_off_def chain_off_def)
  show "read_at (raw_off (attr_sample_type attr) c + 4) (length (c_raw c)) b = Inr (c_raw c)"
    if "flag (attr_sample_type attr) PERF_SAMPLE_RAW"
    using that read_at_mid [of _ "A @ to_le 4 (of_nat (length (c_raw c)) :: u32)" _ "c_raw c"]
    by (simp add: b' off t_def [symmetric] opt_def raw_bytes_def)
  show "read_at (branch_off (attr_sample_type attr) c + 8) (24 * length (c_branches c)) b = Inr (branch_bytes (c_branches c))"
    if "flag (attr_sample_type attr) PERF_SAMPLE_BRANCH_STACK"
    using that read_at_mid [of _ "A @ opt (flag t PERF_SAMPLE_RAW) (raw_bytes (c_raw c))
        @ to_le 8 (of_nat (length (c_branches c)) :: u64)" _ "branch_bytes (c_branches c)" B]
    unfolding off b' t_def [symmetric] by (simp add: branch_stack_bytes_def add.assoc)
qed

lemma put_bytes_at:
  assumes "length pre + length bs \<le> length buf"
  shows "put_bytes bs (pre, drop (length pre) buf) = Inr (pre @ bs, drop (length (pre @ bs)) buf)"
  using assms by (simp add: put_bytes_def add.commute)

lemma sample_of_fields:
  assumes "t = attr_sample_type attr"
  shows "opt (flag t PERF_SAMPLE_IDENTIFIER) (to_le 8 (id_data (sample_of uninit attr h c b)))
      @ opt (flag t PERF_SAMPLE_IP) (to_le 8 (ip_data (sample_of uninit attr h c b)))
      @ opt (flag t PERF_SAMPLE_TID) (to_le 4 (tid_data_pid (sample_of uninit attr h c b)) @ to_le 4 (tid_data_tid (sample_of uninit attr h c b)))
      @ opt (flag t PERF_SAMPLE_TIME) (to_le 8 (time_data (sample_of uninit attr h c b)))
      @ opt (flag t PERF_SAMPLE_ADDR) (to_le 8 (addr_data (sample_of uninit attr h c b)))
      @ opt (flag t PERF_SAMPLE_ID) (to_le 8 (id_data (sample_of uninit attr h c b)))
      @ opt (flag t PERF_SAMPLE_STREAM_ID) (to_le 8 (stream_id_data (sample_of uninit attr h c b)))
      @ opt (flag t PERF_SAMPLE_CPU) (to_le 4 (cpu_data_cpu (sample_of uninit attr h c b)) @ to_le 4 (cpu_data_res (sample_of uninit attr h c b)))
      @ opt (flag t PERF_SAMPLE_PERIOD) (to_le 8 (period_data (sample_of uninit attr h c b)))
    = fixed_bytes t c"
  unfolding assms
  by (simp add: fixed_bytes_def sample_of_def Let_def Record.extend_def SampleRecord.fields_def)

lemma SetSize_SampleRecord [simp]:
  "id_data (SetSize n r) = id_data r" "ip_data (SetSize n r) = ip_data r"
  "tid_data_pid (SetSize n r) = tid_data_pid r" "tid_data_tid (SetSize n r) = tid_data_tid r"
  "time_data (SetSize n r) = time_data r" "addr_data (SetSize n r) = addr_data r"
  "stream_id_data (SetSize n r) = stream_id_data r" "cpu_data_cpu (SetSize n r) = cpu_data_cpu r"
  "cpu_data_res (SetSize n r) = cpu_data_res r" "period_data (SetSize n r) = period_data r"
  "raw_size (SetSize n r) = raw_size r" "raw_data (SetSize n r) = raw_data r"
  "branch_stack_nr (SetSize n r) = branch_stack_nr r" "branch_stack (SetSize n r) = branch_stack r"
  "regs_abi (SetSize n r) = regs_abi r" "stack_size (SetSize n r) = stack_size r"
  "binary (SetSize n r) = binary r"
  for r :: SampleRecord
  by (simp_all add: SetSize_def)

text \<open>Moving a pointer under a condition leaves the other members.\<close>

lemma sel_if:
  "raw_size (if f then r\<lparr>raw_data := x\<rparr> else r) = raw_size r"
  "branch_stack_nr (if f then r\<lparr>raw_data := x\<rparr> else r) = branch_stack_nr r"
  "branch_stack (if f then r\<lparr>raw_data := x\<rparr> else r) = branch_stack r"
  "regs_abi (if f then r\<lparr>raw_data := x\<rparr> else r) = regs_abi r"
  "stack_size (if f then r\<lparr>raw_data := x\<rparr> else r) = stack_size r"
  "binary (if f then r\<lparr>raw_data := x\<rparr> else r) = binary r"
  "header (if f then r\<lparr>raw_data := x\<rparr> else r) = header r"
  "callchain_ips (if f then r\<lparr>raw_data := x\<rparr> else r) = callchain_ips r"
  "callchain_ip_nr (if f then r\<lparr>raw_data := x\<rparr> else r) = callchain_ip_nr r"
  "branch_stack_nr (if f then r\<lparr>branch_stack := x\<rparr> else r) = branch_stack_nr r"
  "regs_abi (if f then r\<lparr>branch_stack := x\<rparr> else r) = regs_abi r"
  "stack_size (if f then r\<lparr>branch_stack := x\<rparr> else r) = stack_size r"
  "header (if f then r\<lparr>branch_stack := x\<rparr> else r) = header r"
  "callchain_ips (if f then r\<lparr>branch_stack := x\<rparr> else r) = callchain_ips r"
  "callchain_ip_nr (if f then r\<lparr>branch_stack := x\<rparr> else r) = callchain_ip_nr r"
  "raw_size (r\<lparr>callchain_ip_nr := m, callchain_ips := x\<rparr>) = raw_size r"
  "raw_data (r\<lparr>callchain_ip_nr := m, callchain_ips := x\<rparr>) = raw_data r"
  "branch_stack_nr (r\<lparr>callchain_ip_nr := m, callchain_ips := x\<rparr>) = branch_stack_nr r"
  "branch_stack (r\<lparr>callchain_ip_nr := m, callchain_ips := x\<rparr>) = branch_stack r"
  "regs_abi (r\<lparr>callchain_ip_nr := m, callchain_ips := x\<rparr>) = regs_abi r"
  "stack_size (r\<lparr>callchain_ip_nr := m, callchain_ips := x\<rparr>) = stack_size r"
  "binary (r\<lparr>callchain_ip_nr := m, callchain_ips := x\<rparr>) = binary r"
  "header (r\<lparr>callchain_ip_nr := m, callchain_ips := x\<rparr>) = header r"
  "callchain_ips (r\<lparr>callchain_ip_nr := m, callchain_ips := x\<rparr>) = x"
  "callchain_ip_nr (r\<lparr>callchain_ip_nr := m, callchain_ips := x\<rparr>) = m"
  by simp_all

lemma update_write:
  assumes im: "sample_image attr h c b" and t: "t = attr_sample_type attr" and fl: "flag t PERF_SAMPLE_CALLCHAIN"
    and regs: "flag t PERF_SAMPLE_REGS_USER \<Longrightarrow> c_abi c = 0" and stack: "flag t PERF_SAMPLE_STACK_USER \<Longrightarrow> c_stack c = []"
    and c': "c' = c\<lparr>c_chain := ks @ user_ips\<rparr>"
    and n: "n = 8 + length (content_bytes t c')" and small: "n < 65536"
  shows "\<exists>r. UpdateUserCallChain_write junk (of_nat n) ks user_ips (sample_of uninit attr h c b) = Inr r
    \<and> header r = sized h attr c' \<and> binary r = header_bytes (sized h attr c') @ content_bytes t c'
    \<and> callchain_ip_nr r = of_nat (length ks + length user_ips) \<and> callchain_ips r = chain_off t c' + 8"
proof -
  let ?r = "sample_of uninit attr h c b"
  define buf where "buf = new_char junk n"
  have lbuf: "length buf = n"
    by (simp add: buf_def)
  have un: "unat (of_nat n :: u64) = n"
    using small by (simp add: unat_of_nat_u64)
  have hd: "header (SetSize n ?r) = sized h attr c'"
    by (simp add: SetSize_def sized_def n t)
  obtain rest where "rh_type h = PERF_RECORD_SAMPLE" "content_ok attr c"
    using im by (rule sample_imageE)
  then have hok: "header_ok (sized h attr c')" and ok: "content_ok attr c"
    using sized_size(2) [of attr c'] small by (simp_all add: header_ok_def n t record_type_defs)
  define H where "H = header_bytes (sized h attr c')"
  define F where "F = fixed_bytes t c"
  define C where "C = chain_bytes (ks @ user_ips)"
  define R where "R = opt (flag t PERF_SAMPLE_RAW) (raw_bytes (c_raw c))"
  define B where "B = opt (flag t PERF_SAMPLE_BRANCH_STACK) (branch_stack_bytes (c_branches c))"
  define G where "G = opt (flag t PERF_SAMPLE_REGS_USER) (to_le 8 (0 :: u64))"
  define S where "S = opt (flag t PERF_SAMPLE_STACK_USER) (to_le 8 (0 :: u64))"
  have total: "content_bytes t c' = F @ C @ R @ B @ G @ S"
    using fl regs stack ok
    by (simp add: content_bytes_def c' F_def C_def R_def B_def G_def S_def regs_bytes_def stack_bytes_def content_ok_def
        split: if_splits) (auto simp: opt_def)
  have len: "n = length H + length F + length C + length R + length B + length G + length S"
    by (simp add: n total H_def)
  have flds: "raw_size ?r = of_nat (length (c_raw c))" "raw_data ?r = raw_off t c + 4" if "flag t PERF_SAMPLE_RAW"
    using that by (simp_all add: sample_of_def Let_def Record.extend_def SampleRecord.fields_def t)
  have fldb: "branch_stack_nr ?r = of_nat (length (c_branches c))" "branch_stack ?r = branch_off t c + 8"
    if "flag t PERF_SAMPLE_BRANCH_STACK"
    using that by (simp_all add: sample_of_def Let_def Record.extend_def SampleRecord.fields_def t)
  have rd: "(if flag t PERF_SAMPLE_RAW then read_at (raw_data ?r) (unat (raw_size ?r)) b else Inr [])
      = Inr (if flag t PERF_SAMPLE_RAW then c_raw c else [])"
    using sample_image_read(1) [OF im, folded t] flds ok by (simp add: content_ok_def unat_of_nat_u32)
  have bd: "(if flag t PERF_SAMPLE_BRANCH_STACK then read_at (branch_stack ?r) (unat (branch_stack_nr ?r * 24)) b else Inr [])
      = Inr (if flag t PERF_SAMPLE_BRANCH_STACK then branch_bytes (c_branches c) else [])"
    using sample_image_read(2) [OF im, folded t] fldb ok by (simp add: content_ok_def unat_of_nat_times_24)
  have RB: "opt (flag t PERF_SAMPLE_RAW) (to_le 4 (raw_size ?r) @ (if flag t PERF_SAMPLE_RAW then c_raw c else [])) = R"
    "opt (flag t PERF_SAMPLE_BRANCH_STACK)
      (to_le 8 (branch_stack_nr ?r) @ (if flag t PERF_SAMPLE_BRANCH_STACK then branch_bytes (c_branches c) else [])) = B"
    using flds fldb by (simp_all add: R_def B_def raw_bytes_def branch_stack_bytes_def) (simp_all add: opt_def)
  have GS: "opt (flag t PERF_SAMPLE_REGS_USER) (to_le 8 (regs_abi ?r)) = G" "flag t PERF_SAMPLE_REGS_USER \<longrightarrow> regs_abi ?r = 0"
    "opt (flag t PERF_SAMPLE_STACK_USER) (to_le 8 (stack_size ?r)) = S" "flag t PERF_SAMPLE_STACK_USER \<longrightarrow> stack_size ?r = 0"
    using regs stack by (auto simp: G_def S_def opt_def sample_of_def Let_def Record.extend_def SampleRecord.fields_def t)
  have chk: "CHECK (flag t PERF_SAMPLE_REGS_USER \<longrightarrow> regs_abi ?r = 0) = Inr ()"
    "CHECK (flag t PERF_SAMPLE_STACK_USER \<longrightarrow> stack_size ?r = 0) = Inr ()"
    using GS by simp_all
  have fin: "drop (length (((((H @ F) @ C) @ R) @ B @ G) @ S)) buf = []"
    using len lbuf by simp
  have co: "chain_off t c' = length H + length F"
    by (simp add: chain_off_def c' F_def H_def)
  have Ceq: "to_le 8 (of_nat (length ks + length user_ips) :: u64) @ u64s_bytes ks @ u64s_bytes user_ips = C"
    by (simp add: C_def chain_bytes_def)
  have h1: "RecordHeader_MoveToBinaryFormat (sized h attr c') ([], buf) = Inr (H, drop (length H) buf)"
    using hok len lbuf by (simp add: RecordHeader_write_ok H_def)
  have p: "put_bytes F (H, drop (length H) buf) = Inr (H @ F, drop (length (H @ F)) buf)"
    "put_bytes C (H @ F, drop (length (H @ F)) buf) = Inr ((H @ F) @ C, drop (length ((H @ F) @ C)) buf)"
    "put_bytes R ((H @ F) @ C, drop (length ((H @ F) @ C)) buf) = Inr (((H @ F) @ C) @ R, drop (length (((H @ F) @ C) @ R)) buf)"
    "put_bytes (B @ G) (((H @ F) @ C) @ R, drop (length (((H @ F) @ C) @ R)) buf)
      = Inr ((((H @ F) @ C) @ R) @ B @ G, drop (length ((((H @ F) @ C) @ R) @ B @ G)) buf)"
    "put_bytes S ((((H @ F) @ C) @ R) @ B @ G, drop (length ((((H @ F) @ C) @ R) @ B @ G)) buf)
      = Inr (((((H @ F) @ C) @ R) @ B @ G) @ S, drop (length (((((H @ F) @ C) @ R) @ B @ G) @ S)) buf)"
    using len lbuf by (intro put_bytes_at; simp)+
  show ?thesis
    unfolding UpdateUserCallChain_write_def Let_def un hd
    by (simp only: sample_of_simps t [symmetric] put_if_bytes SetSize_SampleRecord put_bytes_put_bytes append_assoc
       sample_of_fields [OF t] F_def [symmetric] fl if_True opt_simps)
      (simp only: sel_if chk SetSize_SampleRecord sample_of_simps rd RB rbind_simps bd GS(1,3) CHECK_simps
       buf_def [symmetric] h1 p Ceq fst_conv snd_conv fin simp_thms,
       simp add: hd wcursor_bytes_def UpdateBinary_def sel_if co total H_def [symmetric])
qed
lemma UpdateUserCallChain_ok:
  assumes im: "sample_image attr h c b" and fl: "flag (attr_sample_type attr) PERF_SAMPLE_CALLCHAIN"
    and regs: "flag (attr_sample_type attr) PERF_SAMPLE_REGS_USER \<Longrightarrow> c_abi c = 0"
    and stack: "flag (attr_sample_type attr) PERF_SAMPLE_STACK_USER \<Longrightarrow> c_stack c = []"
    and c': "c' = c\<lparr>c_chain := takeWhile (\<lambda>x. x \<noteq> PERF_CONTEXT_USER) (c_chain c) @ PERF_CONTEXT_USER # user_ips\<rparr>"
    and small: "8 + length (content_bytes (attr_sample_type attr) c') < 65536"
    and len: "length (c_chain c') \<noteq> length (c_chain c)"
  shows "\<exists>r. UpdateUserCallChain junk user_ips (sample_of uninit attr h c b) = Inr r
    \<and> sample_image attr (header r) c' (binary r) \<and> header r = sized h attr c'
    \<and> callchain_ip_nr r = of_nat (length (c_chain c')) \<and> callchain_ips r = chain_off (attr_sample_type attr) c' + 8"
proof -
  define ks where "ks = takeWhile (\<lambda>x. x \<noteq> PERF_CONTEXT_USER) (c_chain c) @ [PERF_CONTEXT_USER]"
  have c2: "c' = c\<lparr>c_chain := ks @ user_ips\<rparr>" and l: "length (c_chain c') = length ks + length user_ips"
    by (simp_all add: c' ks_def)
  obtain rest where h: "rh_type h = PERF_RECORD_SAMPLE" "content_ok attr c"
    using im by (rule sample_imageE)
  have "length (c_chain c') < 2 ^ 60"
    using small fl by (simp add: content_bytes_split)
  then have "content_ok attr c'"
    using h(2) by (simp add: content_ok_def c2)
  then have "sample_image attr (sized h attr c') c' (header_bytes (sized h attr c') @ content_bytes (attr_sample_type attr) c')"
    using h(1) sized_size [OF small] by (intro sample_imageI [where rest = "[]"]) simp_all
  then show ?thesis
    using UpdateUserCallChain_head [OF im fl ks_def c2 small, of junk uninit]
      update_write [OF im refl fl regs stack c2 refl small, of junk uninit] len
    unfolding l by auto
qed

lemma UpdateUserCallChain_same:
  assumes im: "sample_image attr h c b" and fl: "flag (attr_sample_type attr) PERF_SAMPLE_CALLCHAIN"
    and len: "length (takeWhile (\<lambda>x. x \<noteq> PERF_CONTEXT_USER) (c_chain c)) + 1 + length user_ips = length (c_chain c)"
  shows "UpdateUserCallChain junk user_ips (sample_of uninit attr h c b) = Inr (sample_of uninit attr h c b)"
proof -
  define ks where "ks = takeWhile (\<lambda>x. x \<noteq> PERF_CONTEXT_USER) (c_chain c) @ [PERF_CONTEXT_USER]"
  have l: "length ks + length user_ips = length (c_chain c)"
    using len by (simp add: ks_def)
  have "length (content_bytes (attr_sample_type attr) (c\<lparr>c_chain := ks @ user_ips\<rparr>))
      = length (content_bytes (attr_sample_type attr) c)"
    using fl l by (simp add: content_bytes_split)
  then have "8 + length (content_bytes (attr_sample_type attr) (c\<lparr>c_chain := ks @ user_ips\<rparr>)) < 65536"
    using im by (simp add: sample_image_def word_less_nat_alt)
  from UpdateUserCallChain_head [OF im fl ks_def refl this] show ?thesis
    using l by simp
qed

section \<open>Dropping unused stack space\<close>

lemma RemoveInvalidStackData_ok:
  assumes im: "sample_image attr h c b" and fl: "flag (attr_sample_type attr) PERF_SAMPLE_STACK_USER"
    and dyn: "c_dyn_size c \<noteq> 0" "unat (c_dyn_size c) < length (c_stack c)"
    and c': "c' = c\<lparr>c_stack := take (unat (c_dyn_size c)) (c_stack c)\<rparr>"
  shows "\<exists>r. RemoveInvalidStackData (sample_of uninit attr h c b) = Inr r
    \<and> header r = sized h attr c' \<and> stack_size r = c_dyn_size c
    \<and> sample_image attr (header r) c' (binary r)"
proof -
  let ?r = "sample_of uninit attr h c b"
  define t where "t = attr_sample_type attr"
  define v where "v = unat (c_dyn_size c)"
  obtain rest where b: "b = header_bytes h @ content_bytes t c @ rest"
    and h: "rh_type h = PERF_RECORD_SAMPLE" "content_ok attr c" "rh_size h < 65536"
    "unat (rh_size h) = 8 + length (content_bytes t c)"
    using im unfolding t_def by (rule sample_imageE)
  have ne: "c_stack c \<noteq> []"
    using dyn by auto
  define A where "A = fixed_bytes t c @ opt (flag t PERF_SAMPLE_CALLCHAIN) (chain_bytes (c_chain c))
   @ opt (flag t PERF_SAMPLE_RAW) (raw_bytes (c_raw c))
   @ opt (flag t PERF_SAMPLE_BRANCH_STACK) (branch_stack_bytes (c_branches c))
   @ opt (flag t PERF_SAMPLE_REGS_USER) (regs_bytes (c_abi c) (c_regs c))"
  have cb: "content_bytes t c = A @ to_le 8 (of_nat (length (c_stack c)) :: u64) @ c_stack c @ to_le 8 (c_dyn_size c)"
    using fl ne by (simp add: content_bytes_def A_def stack_bytes_def t_def)
  have v: "0 < v" "v < length (c_stack c)" "of_nat v = c_dyn_size c"
    using dyn by (simp_all add: v_def unat_gt_0)
  then have tk: "take v (c_stack c) \<noteq> []" "length (take v (c_stack c)) = v"
    by auto
  have cb': "content_bytes t c' = A @ to_le 8 (c_dyn_size c) @ take v (c_stack c) @ to_le 8 (c_dyn_size c)"
    using fl tk v by (simp add: content_bytes_def A_def stack_bytes_def t_def c' v_def [symmetric] fixed_bytes_def)
  have soff: "stack_off t c = length (header_bytes h @ A)"
    by (simp add: stack_off_def regs_off_def branch_off_def raw_off_def chain_off_def A_def)
  have sel: "stack_size ?r = of_nat (length (c_stack c))" "stack_dyn_size ?r = c_dyn_size c"
    "stack_data ?r = length (header_bytes h @ A) + 8"
    using fl ne
    by (simp_all add: sample_of_def Let_def Record.extend_def SampleRecord.fields_def t_def soff [unfolded t_def])
  have valid: "GetValidStackSize ?r = c_dyn_size c" "stack_size ?r > c_dyn_size c"
    using dyn h(2) by (simp_all add: GetValidStackSize_def sel word_less_nat_alt content_ok_def unat_of_nat_u64)
  have w1: "write_at (length (header_bytes h @ A)) (to_le 8 (c_dyn_size c)) b
      = Inr ((header_bytes h @ A) @ to_le 8 (c_dyn_size c) @ c_stack c @ to_le 8 (c_dyn_size c) @ rest)"
    unfolding b cb by (simp add: write_at_def)
  obtain y where w2: "write_at (length (header_bytes h @ A) + 8 + v) (to_le 8 (c_dyn_size c))
        ((header_bytes h @ A) @ to_le 8 (c_dyn_size c) @ c_stack c @ to_le 8 (c_dyn_size c) @ rest)
      = Inr (header_bytes h @ content_bytes t c' @ y)"
  proof -
    let ?x = "drop v (c_stack c) @ to_le 8 (c_dyn_size c) @ rest"
    have "c_stack c @ to_le 8 (c_dyn_size c) @ rest = take v (c_stack c) @ ?x"
      by simp
    moreover have "write_at (length (header_bytes h @ A) + 8 + v) (to_le 8 (c_dyn_size c))
        ((header_bytes h @ A) @ to_le 8 (c_dyn_size c) @ take v (c_stack c) @ ?x)
      = Inr (header_bytes h @ content_bytes t c' @ drop 8 ?x)"
      using v(2) tk(2) by (simp add: write_at_def cb' del: append_assoc)
    ultimately show ?thesis
      by (intro that [of "drop 8 ?x"]) (simp only:)
  qed
  define n where "n = 8 + length (content_bytes t c')"
  have n: "length (header_bytes h @ A) + 8 + v + 8 = n" and small: "n < 65536"
    using tk(2) h(3,4) v(2) by (simp_all add: n_def cb' cb word_less_nat_alt)
  have ok: "content_ok attr c'"
    using h(2) tk(1) by (simp add: content_ok_def c' v_def min_less_iff_disj)
  have hs: "h\<lparr>rh_size := of_nat n\<rparr> = sized h attr c'"
    by (simp add: sized_def n_def t_def)
  have hok: "header_ok (sized h attr c')"
    using sized_size(2) [of attr c'] small h(1) by (simp add: header_ok_def n_def t_def record_type_defs)
  have wh: "write_header (?r\<lparr>stack_size := c_dyn_size c, binary := header_bytes h @ content_bytes t c' @ y, header := sized h attr c'\<rparr>)
      = Inr (?r\<lparr>stack_size := c_dyn_size c, header := sized h attr c',
          binary := header_bytes (sized h attr c') @ content_bytes t c' @ y\<rparr>)"
    using write_header_ok [of "?r\<lparr>stack_size := c_dyn_size c, binary := header_bytes h @ content_bytes t c' @ y,
        header := sized h attr c'\<rparr>" "header_bytes h"] hok by simp
  have "RemoveInvalidStackData ?r = Inr (?r\<lparr>stack_size := c_dyn_size c, header := sized h attr c',
          binary := header_bytes (sized h attr c') @ content_bytes t c' @ y\<rparr>)"
    unfolding RemoveInvalidStackData_def Let_def valid(1)
    using fl valid(2) dyn(1) w1 w2 n wh hs
    by (simp add: sel v_def [symmetric] del: length_append)
  moreover have "sample_image attr (sized h attr c') c' (header_bytes (sized h attr c') @ content_bytes t c' @ y)"
    using h(1) ok sized_size [of attr c'] small unfolding t_def
    by (intro sample_imageI) (simp_all add: n_def t_def)
  ultimately show ?thesis
    by simp
qed
end
