(* ===== verification/Sample_Properties.thy ===== *)
theory Sample_Properties
  imports Sample_Update
begin

text \<open>
  The correctness of the member functions of \<open>SampleRecord\<close>, stated for a sample that was parsed
  from a buffer: the function succeeds, the rewritten binary is byte for byte that of a sample with the
  contents the function promises (\<open>sample_image\<close>), and a reader that parses it finds these contents. \<open>ex_attr\<close>, \<open>ex_content\<close> and \<open>ex_header\<close> are a sample in kernel
  mode with a call chain, two registers and sixteen bytes of stack.
\<close>

section \<open>An example\<close>

definition ex_attr :: perf_event_attr where
  "ex_attr = \<lparr>attr_sample_type = PERF_SAMPLE_IP OR PERF_SAMPLE_TID OR PERF_SAMPLE_CALLCHAIN OR PERF_SAMPLE_REGS_USER
     OR PERF_SAMPLE_STACK_USER, attr_sample_id_all = True, attr_sample_regs_user = 3\<rparr>"

definition ex_content :: SampleContent where
  "ex_content = \<lparr>c_id = 0, c_ip = 0x8000, c_pid = 1, c_tid = 2, c_time = 0, c_addr = 0, c_stream_id = 0, c_cpu = 0,
     c_res = 0, c_period = 0, c_chain = [PERF_CONTEXT_KERNEL, 0x8000, PERF_CONTEXT_USER, 0x1000, 0x2000], c_raw = [],
     c_branches = [], c_abi = 2, c_regs = [5, 6], c_stack = [1, 2, 3, 4, 5, 6, 7, 8, 9, 10, 11, 12, 13, 14, 15, 16],
     c_dyn_size = 8\<rparr>"

definition ex_header :: RecordHeader where
  "ex_header = \<lparr>rh_type = PERF_RECORD_SAMPLE, rh_misc = PERF_RECORD_MISC_KERNEL, rh_size = 128\<rparr>"

definition ex_binary :: bytes where
  "ex_binary = header_bytes ex_header @ content_bytes (attr_sample_type ex_attr) ex_content"

definition ex_object :: SampleRecord where
  "ex_object = Record.extend Record_init (SampleRecord.fields 0 0 0 0 0 0 0 0 0 0 0 0 0 0 0 0 0 0 0 0 0 0 0 0)"

text \<open>The same sample with the identifier field, and one without registers and stack.\<close>

definition ex_attr_identifier :: perf_event_attr where
  "ex_attr_identifier = ex_attr\<lparr>attr_sample_type := attr_sample_type ex_attr OR PERF_SAMPLE_IDENTIFIER\<rparr>"

definition ex_header_identifier :: RecordHeader where
  "ex_header_identifier = ex_header\<lparr>rh_size := 136\<rparr>"

definition ex_user_content :: SampleContent where
  "ex_user_content = ex_content\<lparr>c_abi := 0, c_regs := [], c_stack := [], c_dyn_size := 0\<rparr>"

definition ex_user_header :: RecordHeader where
  "ex_user_header = ex_header\<lparr>rh_size := 88\<rparr>"

lemma ex_image: "sample_image ex_attr ex_header ex_content ex_binary"
proof -
  have "reg_mask_bits 3 = 2" and "unat (rh_size ex_header) = 8 + length (content_bytes (attr_sample_type ex_attr) ex_content)"
    by code_simp+
  then show ?thesis
    by (intro sample_imageI [where rest = "[]"]) (simp_all add: ex_binary_def ex_header_def content_ok_def ex_content_def ex_attr_def)
qed

lemma ex_image_identifier:
  "sample_image ex_attr_identifier ex_header_identifier ex_content
     (header_bytes ex_header_identifier @ content_bytes (attr_sample_type ex_attr_identifier) ex_content)"
proof -
  have "reg_mask_bits 3 = 2" and "unat (rh_size ex_header_identifier)
      = 8 + length (content_bytes (attr_sample_type ex_attr_identifier) ex_content)"
    by code_simp+
  then show ?thesis
    by (intro sample_imageI [where rest = "[]"])
       (simp_all add: ex_header_identifier_def ex_header_def content_ok_def ex_content_def ex_attr_identifier_def ex_attr_def)
qed

lemma ex_image_user:
  "sample_image ex_attr ex_user_header ex_user_content
     (header_bytes ex_user_header @ content_bytes (attr_sample_type ex_attr) ex_user_content)"
proof -
  have "unat (rh_size ex_user_header) = 8 + length (content_bytes (attr_sample_type ex_attr) ex_user_content)"
    by code_simp
  then show ?thesis
    by (intro sample_imageI [where rest = "[]"])
       (simp_all add: ex_user_header_def ex_header_def content_ok_def ex_user_content_def ex_content_def)
qed

lemma ex_flags:
  "flag (attr_sample_type ex_attr) PERF_SAMPLE_CALLCHAIN" "flag (attr_sample_type ex_attr) PERF_SAMPLE_REGS_USER"
  "flag (attr_sample_type ex_attr) PERF_SAMPLE_STACK_USER" "\<not> flag (attr_sample_type ex_attr) PERF_SAMPLE_IDENTIFIER"
  "flag (attr_sample_type ex_attr_identifier) PERF_SAMPLE_CALLCHAIN"
  "flag (attr_sample_type ex_attr_identifier) PERF_SAMPLE_IDENTIFIER"
  "flag (attr_sample_type ex_attr_identifier) PERF_SAMPLE_IP" "\<not> flag (attr_sample_type ex_attr_identifier) PERF_SAMPLE_ID"
  by code_simp+

lemma ex_chain:
  "user_entries (c_chain ex_content) = [0x1000, 0x2000]"
  "mask_kernel (c_chain ex_content) = [PERF_CONTEXT_USER, PERF_CONTEXT_USER, PERF_CONTEXT_USER, 0x1000, 0x2000]"
  by code_simp+

lemma ex_chain_length: "length (user_entries (c_chain ex_content)) = 2"
  by code_simp

lemma sample_of_ids:
  "flag (attr_sample_type attr) PERF_SAMPLE_IP \<Longrightarrow> ip_data (sample_of uninit attr h c b) = c_ip c"
  "flag (attr_sample_type attr) PERF_SAMPLE_IDENTIFIER \<Longrightarrow> id_data (sample_of uninit attr h c b) = c_id c"
  by (simp_all add: sample_of_def Let_def Record.extend_def SampleRecord.fields_def cong: if_weak_cong split del: if_split)

section \<open>Properties\<close>

text \<open>C18 Parsing: the constructor \<open>SampleRecord(attr, p)\<close> recovers every field that the sample type
  selects from the binary of a sample, and points at its call chain, raw data, branch stack,
  registers and stack.\<close>

theorem sample_parse:
  assumes "sample_image attr h c b"
  shows "SampleRecord_parse uninit attr b = Inr (sample_of uninit attr h c b)"
  using assms by (rule sample_image_parse)

theorem sample_parse_witness:
  "SampleRecord_parse ex_object ex_attr ex_binary = Inr (sample_of ex_object ex_attr ex_header ex_content ex_binary)"
  using sample_parse [OF ex_image] .

text \<open>C5 \<open>ReplaceRegAndStackWithCallChain\<close>, for a sample with registers and stack: if the unwound call chain fits where
  these were (its entries take no more bytes than the registers and the stack bytes), the binary is rewritten in place, byte for
  byte, to that of a sample whose call chain continues with the user space marker and the unwound entries, and that has no
  registers and no stack; raw data, branch stack and the other fields are unchanged. The object has the new header and the new
  length of the chain, and a reader of the binary finds the new contents.\<close>

theorem sample_replace_reg_and_stack:
  assumes "sample_image attr h c b"
    and "flag (attr_sample_type attr) PERF_SAMPLE_CALLCHAIN" "flag (attr_sample_type attr) PERF_SAMPLE_REGS_USER"
      "flag (attr_sample_type attr) PERF_SAMPLE_STACK_USER"
    and "c_abi c \<noteq> 0" and "c_stack c \<noteq> []" and "8 * length ips \<le> 8 * length (c_regs c) + length (c_stack c)"
  shows "\<exists>r. rbind (SampleRecord_parse uninit attr b) (ReplaceRegAndStackWithCallChain ips) = Inr r
    \<and> header r = sized h attr (with_user_chain ips c) \<and> sample_image attr (header r) (with_user_chain ips c) (binary r)
    \<and> callchain_ip_nr r = of_nat (length (c_chain c) + 1 + length ips) \<and> regs_abi r = 0 \<and> stack_size r = 0
    \<and> SampleRecord_parse uninit' attr (binary r)
      = Inr (sample_of uninit' attr (sized h attr (with_user_chain ips c)) (with_user_chain ips c) (binary r))"
proof -
  obtain r where "ReplaceRegAndStackWithCallChain ips (sample_of uninit attr h c b) = Inr r"
    "header r = sized h attr (with_user_chain ips c)" "sample_image attr (header r) (with_user_chain ips c) (binary r)"
    "callchain_ip_nr r = of_nat (length (c_chain c) + 1 + length ips)" "regs_abi r = 0" "stack_size r = 0"
    using ReplaceRegAndStackWithCallChain_ok [OF assms, of uninit] by blast
  then show ?thesis
    using sample_image_parse [OF assms(1), of uninit] sample_image_parse [of attr "header r" "with_user_chain ips c" "binary r" uninit']
    by simp
qed

theorem sample_replace_reg_and_stack_witness:
  "\<exists>r. rbind (SampleRecord_parse ex_object ex_attr ex_binary) (ReplaceRegAndStackWithCallChain [0x1000, 0x2000]) = Inr r
    \<and> header r = sized ex_header ex_attr (with_user_chain [0x1000, 0x2000] ex_content)
    \<and> sample_image ex_attr (header r) (with_user_chain [0x1000, 0x2000] ex_content) (binary r)
    \<and> callchain_ip_nr r = of_nat (length (c_chain ex_content) + 1 + length [0x1000 :: u64, 0x2000]) \<and> regs_abi r = 0 \<and> stack_size r = 0
    \<and> SampleRecord_parse ex_object ex_attr (binary r)
      = Inr (sample_of ex_object ex_attr (sized ex_header ex_attr (with_user_chain [0x1000, 0x2000] ex_content))
          (with_user_chain [0x1000, 0x2000] ex_content) (binary r))"
  by (rule sample_replace_reg_and_stack [OF ex_image ex_flags(1-3)]) (simp_all add: ex_content_def)

text \<open>C13 \<open>ExcludeKernelCallChain\<close>, for a sample type without the identifier field: the function returns the number of
  entries after the first user space marker of the call chain. The binary becomes, byte for byte, that of the sample in which every
  entry before that marker (every entry, if there is none) is a marker; if there is an entry after the marker, the sample also becomes a
  user space sample at that entry: the misc field of the header and the \<open>ip\<close>, in the object and in the binary.\<close>

theorem sample_exclude_kernel:
  assumes "sample_image attr h c b" and "flag (attr_sample_type attr) PERF_SAMPLE_CALLCHAIN"
    "\<not> flag (attr_sample_type attr) PERF_SAMPLE_IDENTIFIER"
  shows "\<exists>r. rbind (SampleRecord_parse uninit attr b) ExcludeKernelCallChain = Inr (length (user_entries (c_chain c)), r)
    \<and> header r = (if user_entries (c_chain c) = [] then h else user_header h)
    \<and> ip_data r = (if user_entries (c_chain c) = [] then ip_data (sample_of uninit attr h c b) else hd (user_entries (c_chain c)))
    \<and> sample_image attr (header r) (if user_entries (c_chain c) = [] then c\<lparr>c_chain := mask_kernel (c_chain c)\<rparr>
        else c\<lparr>c_chain := mask_kernel (c_chain c), c_ip := hd (user_entries (c_chain c))\<rparr>) (binary r)
    \<and> SampleRecord_parse uninit' attr (binary r) = Inr (sample_of uninit' attr
        (if user_entries (c_chain c) = [] then h else user_header h)
        (if user_entries (c_chain c) = [] then c\<lparr>c_chain := mask_kernel (c_chain c)\<rparr>
         else c\<lparr>c_chain := mask_kernel (c_chain c), c_ip := hd (user_entries (c_chain c))\<rparr>) (binary r))"
proof -
  obtain r where r: "ExcludeKernelCallChain (sample_of uninit attr h c b) = Inr (length (user_entries (c_chain c)), r)"
    "header r = (if user_entries (c_chain c) = [] then h else user_header h)"
    "ip_data r = (if user_entries (c_chain c) = [] then ip_data (sample_of uninit attr h c b) else hd (user_entries (c_chain c)))"
    "sample_image attr (header r) (if user_entries (c_chain c) = [] then c\<lparr>c_chain := mask_kernel (c_chain c)\<rparr>
        else c\<lparr>c_chain := mask_kernel (c_chain c), c_ip := hd (user_entries (c_chain c))\<rparr>) (binary r)"
    using ExcludeKernelCallChain_ok [OF assms, of uninit] by blast
  show ?thesis
    using r sample_image_parse [OF assms(1), of uninit] sample_image_parse [OF r(4), of uninit']
    by (intro exI [of _ r]) simp
qed

theorem sample_exclude_kernel_witness:
  "\<exists>r. rbind (SampleRecord_parse ex_object ex_attr ex_binary) ExcludeKernelCallChain = Inr (2, r)
    \<and> header r = user_header ex_header \<and> ip_data r = 0x1000
    \<and> sample_image ex_attr (header r)
        (ex_content\<lparr>c_chain := [PERF_CONTEXT_USER, PERF_CONTEXT_USER, PERF_CONTEXT_USER, 0x1000, 0x2000], c_ip := 0x1000\<rparr>) (binary r)
    \<and> SampleRecord_parse ex_object ex_attr (binary r) = Inr (sample_of ex_object ex_attr (user_header ex_header)
        (ex_content\<lparr>c_chain := [PERF_CONTEXT_USER, PERF_CONTEXT_USER, PERF_CONTEXT_USER, 0x1000, 0x2000], c_ip := 0x1000\<rparr>)
        (binary r))"
  using sample_exclude_kernel [OF ex_image ex_flags(1,4), of ex_object ex_object]
  unfolding ex_chain_length unfolding ex_chain by simp

text \<open>C37 \<open>ExcludeKernelCallChain\<close> with the identifier field, for a sample type with \<open>PERF_SAMPLE_IDENTIFIER\<close> and
  \<open>PERF_SAMPLE_IP\<close> but without \<open>PERF_SAMPLE_ID\<close>, and a call chain with an entry after its first user space marker: the
  function takes the word after the header for the \<open>ip\<close> of the sample, but that word is the event id. A reader of the rewritten
  binary finds the user space address in place of the id, and the kernel address still in place of the \<open>ip\<close>. (A sample
  type that also has \<open>PERF_SAMPLE_ID\<close> repeats the id in a later field, which the reader takes instead.)\<close>

theorem sample_exclude_kernel_overwrites_id:
  assumes "sample_image attr h c b" and "flag (attr_sample_type attr) PERF_SAMPLE_CALLCHAIN"
    "flag (attr_sample_type attr) PERF_SAMPLE_IDENTIFIER" "flag (attr_sample_type attr) PERF_SAMPLE_IP"
    "\<not> flag (attr_sample_type attr) PERF_SAMPLE_ID" and "user_entries (c_chain c) \<noteq> []"
  shows "\<exists>r r'. rbind (SampleRecord_parse uninit attr b) ExcludeKernelCallChain = Inr (length (user_entries (c_chain c)), r)
    \<and> SampleRecord_parse uninit' attr (binary r) = Inr r'
    \<and> id_data r' = hd (user_entries (c_chain c)) \<and> ip_data r' = c_ip c"
proof -
  obtain r where "ExcludeKernelCallChain (sample_of uninit attr h c b) = Inr (length (user_entries (c_chain c)), r)"
    and im: "sample_image attr (header r) (c\<lparr>c_chain := mask_kernel (c_chain c), c_id := hd (user_entries (c_chain c))\<rparr>) (binary r)"
    using ExcludeKernelCallChain_identifier [OF assms(1-5), of uninit] assms(6) by auto
  then show ?thesis
    using sample_image_parse [OF assms(1), of uninit] sample_image_parse [OF im, of uninit']
    by (simp add: sample_of_ids assms(3,4))
qed

theorem sample_exclude_kernel_overwrites_id_witness:
  "\<exists>r r'. rbind (SampleRecord_parse ex_object ex_attr_identifier
        (header_bytes ex_header_identifier @ content_bytes (attr_sample_type ex_attr_identifier) ex_content))
      ExcludeKernelCallChain = Inr (2, r)
    \<and> SampleRecord_parse ex_object ex_attr_identifier (binary r) = Inr r'
    \<and> id_data r' = 0x1000 \<and> ip_data r' = 0x8000"
  using sample_exclude_kernel_overwrites_id [OF ex_image_identifier ex_flags(5-8), of ex_object ex_object]
  unfolding ex_chain_length unfolding ex_chain by (simp add: ex_content_def)

text \<open>C9 \<open>UpdateUserCallChain\<close>, for a sample with a call chain and without registers and stack, whose new record is
  smaller than 64 KiB: when the chain changes its length, the new binary is, byte for byte, that of a sample whose call chain is the old
  one up to the first user space marker (all of it, if there is none), the marker and the given entries, with the other fields
  unchanged. When the chain keeps its length the function returns without writing anything, even if entries differ.\<close>

theorem sample_update_user_callchain:
  assumes "sample_image attr h c b" and "flag (attr_sample_type attr) PERF_SAMPLE_CALLCHAIN"
    and "c_abi c = 0" and "c_stack c = []"
    and "c' = c\<lparr>c_chain := takeWhile (\<lambda>x. x \<noteq> PERF_CONTEXT_USER) (c_chain c) @ PERF_CONTEXT_USER # user_ips\<rparr>"
    and "8 + length (content_bytes (attr_sample_type attr) c') < 65536"
  shows "\<exists>r. rbind (SampleRecord_parse uninit attr b) (UpdateUserCallChain junk user_ips) = Inr r
    \<and> (if length (c_chain c') = length (c_chain c) then r = sample_of uninit attr h c b
       else header r = sized h attr c' \<and> sample_image attr (header r) c' (binary r)
         \<and> callchain_ip_nr r = of_nat (length (c_chain c')) \<and> callchain_ips r = chain_off (attr_sample_type attr) c' + 8
         \<and> SampleRecord_parse uninit' attr (binary r) = Inr (sample_of uninit' attr (sized h attr c') c' (binary r)))"
proof (cases "length (c_chain c') = length (c_chain c)")
  case True
  then show ?thesis
    using UpdateUserCallChain_same [OF assms(1,2), of user_ips junk uninit] sample_image_parse [OF assms(1), of uninit] assms(5)
    by simp
next
  case False
  then obtain r where r: "UpdateUserCallChain junk user_ips (sample_of uninit attr h c b) = Inr r"
    "sample_image attr (header r) c' (binary r)" "header r = sized h attr c'"
    "callchain_ip_nr r = of_nat (length (c_chain c'))" "callchain_ips r = chain_off (attr_sample_type attr) c' + 8"
    using UpdateUserCallChain_ok [OF assms(1,2) assms(3) assms(4) assms(5,6), of junk uninit] by blast
  show ?thesis
    using False r sample_image_parse [OF assms(1), of uninit] sample_image_parse [OF r(2), of uninit'] by simp
qed

theorem sample_update_user_callchain_witness:
  "\<exists>r. rbind (SampleRecord_parse ex_object ex_attr
        (header_bytes ex_user_header @ content_bytes (attr_sample_type ex_attr) ex_user_content))
      (UpdateUserCallChain (\<lambda>_. 0xAA) [0x1000, 0x2000, 0x3000]) = Inr r
    \<and> sample_image ex_attr (header r)
        (ex_user_content\<lparr>c_chain := [PERF_CONTEXT_KERNEL, 0x8000, PERF_CONTEXT_USER, 0x1000, 0x2000, 0x3000]\<rparr>) (binary r)
    \<and> callchain_ip_nr r = 6"
proof -
  let ?c' = "ex_user_content\<lparr>c_chain := [PERF_CONTEXT_KERNEL, 0x8000, PERF_CONTEXT_USER, 0x1000, 0x2000, 0x3000]\<rparr>"
  have "length (content_bytes (attr_sample_type ex_attr) ?c') = 88"
    by code_simp
  then show ?thesis
    using sample_update_user_callchain [OF ex_image_user ex_flags(1), of ?c' "[0x1000, 0x2000, 0x3000]" ex_object "\<lambda>_. 0xAA" ex_object]
    by (auto simp: ex_user_content_def ex_content_def)
qed

text \<open>C23 \<open>RemoveInvalidStackData\<close>: when the kernel reports that less stack was used than dumped (and more than nothing),
  the binary shrinks, byte for byte, to that of a sample with exactly the used part of the stack; all other fields, the call chain, raw data,
  branch stack and registers included, are unchanged, and header and stack size of the object agree.\<close>

theorem sample_remove_invalid_stack:
  assumes "sample_image attr h c b" and "flag (attr_sample_type attr) PERF_SAMPLE_STACK_USER"
    and "c_dyn_size c \<noteq> 0" "unat (c_dyn_size c) < length (c_stack c)"
  shows "\<exists>r. rbind (SampleRecord_parse uninit attr b) RemoveInvalidStackData = Inr r
    \<and> header r = sized h attr (c\<lparr>c_stack := take (unat (c_dyn_size c)) (c_stack c)\<rparr>) \<and> stack_size r = c_dyn_size c
    \<and> sample_image attr (header r) (c\<lparr>c_stack := take (unat (c_dyn_size c)) (c_stack c)\<rparr>) (binary r)
    \<and> SampleRecord_parse uninit' attr (binary r) = Inr (sample_of uninit' attr
        (sized h attr (c\<lparr>c_stack := take (unat (c_dyn_size c)) (c_stack c)\<rparr>))
        (c\<lparr>c_stack := take (unat (c_dyn_size c)) (c_stack c)\<rparr>) (binary r))"
proof -
  obtain r where r: "RemoveInvalidStackData (sample_of uninit attr h c b) = Inr r"
    "header r = sized h attr (c\<lparr>c_stack := take (unat (c_dyn_size c)) (c_stack c)\<rparr>)" "stack_size r = c_dyn_size c"
    "sample_image attr (header r) (c\<lparr>c_stack := take (unat (c_dyn_size c)) (c_stack c)\<rparr>) (binary r)"
    using RemoveInvalidStackData_ok [OF assms refl, of uninit] by blast
  then show ?thesis
    using sample_image_parse [OF assms(1), of uninit] sample_image_parse [OF r(4), of uninit'] by simp
qed

theorem sample_remove_invalid_stack_witness:
  "\<exists>r. rbind (SampleRecord_parse ex_object ex_attr ex_binary) RemoveInvalidStackData = Inr r
    \<and> sample_image ex_attr (header r) (ex_content\<lparr>c_stack := [1, 2, 3, 4, 5, 6, 7, 8]\<rparr>) (binary r) \<and> stack_size r = 8"
  using sample_remove_invalid_stack [OF ex_image ex_flags(3), of ex_object ex_object]
  by (auto simp: ex_content_def)

text \<open>C24 \<open>AdjustCallChainGeneratedByKernel\<close>: every frame of the call chain except the first is moved back by one byte (two on
  arm), markers and null entries stay; the binary is, byte for byte, that of the sample with this chain and all other fields unchanged,
  and the object changes in nothing but its binary.\<close>

theorem sample_adjust_callchain:
  assumes "sample_image attr h c b" and "flag (attr_sample_type attr) PERF_SAMPLE_CALLCHAIN"
  shows "\<exists>b' xs. rbind (SampleRecord_parse uninit attr b) (AdjustCallChainGeneratedByKernel arm)
      = Inr ((sample_of uninit attr h c b)\<lparr>binary := b'\<rparr>)
    \<and> sample_image attr h (c\<lparr>c_chain := xs\<rparr>) b'
    \<and> SampleRecord_parse uninit' attr b' = Inr (sample_of uninit' attr h (c\<lparr>c_chain := xs\<rparr>) b')
    \<and> length xs = length (c_chain c)
    \<and> (\<forall>i < length xs. xs ! i = (if is_frame (c_chain c ! i) \<and> (\<exists>j<i. is_frame (c_chain c ! j))
         then c_chain c ! i - (if arm then 2 else 1) else c_chain c ! i))"
proof -
  obtain b' where b': "AdjustCallChainGeneratedByKernel arm (sample_of uninit attr h c b) = Inr ((sample_of uninit attr h c b)\<lparr>binary := b'\<rparr>)"
    "sample_image attr h (c\<lparr>c_chain := adjust_ips (if arm then 2 else 1) True (c_chain c)\<rparr>) b'"
    using AdjustCallChainGeneratedByKernel_ok [OF assms] by blast
  show ?thesis
    using b' sample_image_parse [OF assms(1), of uninit] sample_image_parse [OF b'(2), of uninit']
    by (intro exI [of _ b'] exI [of _ "adjust_ips (if arm then 2 else 1) True (c_chain c)"])
       (simp add: nth_adjust_ips)
qed

theorem sample_adjust_callchain_witness:
  "\<exists>b'. rbind (SampleRecord_parse ex_object ex_attr ex_binary) (AdjustCallChainGeneratedByKernel False)
      = Inr ((sample_of ex_object ex_attr ex_header ex_content ex_binary)\<lparr>binary := b'\<rparr>)
    \<and> sample_image ex_attr ex_header
        (ex_content\<lparr>c_chain := [PERF_CONTEXT_KERNEL, 0x8000, PERF_CONTEXT_USER, 0xFFF, 0x1FFF]\<rparr>) b'"
proof -
  obtain b' xs where 1: "rbind (SampleRecord_parse ex_object ex_attr ex_binary) (AdjustCallChainGeneratedByKernel False)
      = Inr ((sample_of ex_object ex_attr ex_header ex_content ex_binary)\<lparr>binary := b'\<rparr>)"
    "sample_image ex_attr ex_header (ex_content\<lparr>c_chain := xs\<rparr>) b'" "length xs = length (c_chain ex_content)"
    "\<And>i. i < length xs \<Longrightarrow> xs ! i = (if is_frame (c_chain ex_content ! i) \<and> (\<exists>j<i. is_frame (c_chain ex_content ! j))
         then c_chain ex_content ! i - 1 else c_chain ex_content ! i)"
    using sample_adjust_callchain [OF ex_image ex_flags(1), of ex_object False ex_object] by auto
  have f: "is_frame (c_chain ex_content ! 1)" "\<not> is_frame (c_chain ex_content ! 0)" "\<not> is_frame (c_chain ex_content ! 2)"
    "is_frame (c_chain ex_content ! 3)" "is_frame (c_chain ex_content ! 4)" and len: "length (c_chain ex_content) = 5"
    by code_simp+
  have "xs = [PERF_CONTEXT_KERNEL, 0x8000, PERF_CONTEXT_USER, 0xFFF, 0x1FFF]"
  proof (rule nth_equalityI)
    show "length xs = length [PERF_CONTEXT_KERNEL, 0x8000, PERF_CONTEXT_USER, 0xFFF, 0x1FFF]"
      using 1(3) len by simp
    fix i assume i: "i < length xs"
    have e: "(\<exists>j<i. is_frame (c_chain ex_content ! j)) \<longleftrightarrow> 1 < i"
      using f i unfolding 1(3) len by (metis One_nat_def Suc_lessI less_one not_less_iff_gr_or_eq zero_less_iff_neq_zero)
    have "i \<in> {0, 1, 2, 3, 4}"
      using i unfolding 1(3) len by auto
    then show "xs ! i = [PERF_CONTEXT_KERNEL, 0x8000, PERF_CONTEXT_USER, 0xFFF, 0x1FFF] ! i"
      using 1(4) [OF i] e f by (elim insertE) (simp_all add: ex_content_def)
  qed
  then show ?thesis
    using 1(1,2) by auto
qed

text \<open>C21 \<open>GetCallChain\<close>: the result is the sampled \<open>ip\<close> followed by the frames of the call chain,
  without markers and without a leading copy of the \<open>ip\<close>, and the count is the number of its
  leading entries that belong to the kernel; a kernel marker after the switch to user space is
  fatal.\<close>

theorem sample_get_callchain:
  assumes "sample_image attr h c b" and "flag (attr_sample_type attr) PERF_SAMPLE_CALLCHAIN"
    and "SampleRecord_parse uninit attr b = Inr r"
  shows "GetCallChain r =
    (if PERF_CONTEXT_KERNEL \<in> set (user_part (InKernel r) (c_chain c)) then Inl CHECK_failed
     else Inr (ip_data r # drop_copy (ip_data r) (frames (c_chain c)),
       (if InKernel r then 1 else 0) + length (drop_copy (ip_data r) (frames (kernel_part (InKernel r) (c_chain c))))))"
  using GetCallChain_ok [OF assms(1,2), of r uninit] assms(3) sample_image_parse [OF assms(1), of uninit] by simp

theorem sample_get_callchain_witness:
  "rbind (SampleRecord_parse ex_object ex_attr ex_binary) GetCallChain = Inr ([0x8000, 0x1000, 0x2000], 1)"
proof -
  let ?r = "sample_of ex_object ex_attr ex_header ex_content ex_binary"
  have p: "SampleRecord_parse ex_object ex_attr ex_binary = Inr ?r"
    by (rule sample_image_parse [OF ex_image])
  have "ip_data ?r = 0x8000" "InKernel ?r"
    by code_simp+
  then show ?thesis
    using sample_get_callchain [OF ex_image ex_flags(1) p]
    by (simp add: p ex_content_def user_part_def kernel_part_def frames_def drop_copy_def)
qed

text \<open>C25 A new sample, for fewer than 8000 call chain entries: if the sample type has only the fields the constructor knows (ip,
  tid, time, id, cpu, period, call chain, registers and stack), the binary it builds is complete and is, byte for byte, that of a user
  space sample with the arguments as its contents, the entries of the call chain included, and with no registers and no
  stack; it parses to this sample.\<close>

theorem sample_new_parse:
  assumes "attr_sample_type attr AND NOT new_sample_types = 0" and "length ips < 8000"
  shows "\<exists>r. SampleRecord_new junk uninit attr i ip pid tid time cpu period ips = Inr r
    \<and> length (binary r) = unat (rh_size (header r)) \<and> \<not> InKernel r
    \<and> sample_image attr (header r) (new_content i ip pid tid time cpu period ips) (binary r)
    \<and> SampleRecord_parse uninit' attr (binary r)
      = Inr (sample_of uninit' attr (header r) (new_content i ip pid tid time cpu period ips) (binary r))"
proof -
  obtain r where r: "SampleRecord_new junk uninit attr i ip pid tid time cpu period ips = Inr r"
    "rh_misc (header r) = PERF_RECORD_MISC_USER" "length (binary r) = unat (rh_size (header r))"
    "sample_image attr (header r) (new_content i ip pid tid time cpu period ips) (binary r)"
    using SampleRecord_new_ok [OF assms] by blast
  then show ?thesis
    using sample_image_parse [OF r(4)] by (simp add: InKernel_def)
qed

theorem sample_new_parse_witness:
  "\<exists>r. SampleRecord_new (\<lambda>_. 0xAA) ex_object ex_attr 1 0x1000 2 3 4 5 6 [0x1000, 0x2000] = Inr r
    \<and> length (binary r) = unat (rh_size (header r)) \<and> \<not> InKernel r
    \<and> sample_image ex_attr (header r) (new_content 1 0x1000 2 3 4 5 6 [0x1000, 0x2000]) (binary r)
    \<and> SampleRecord_parse ex_object ex_attr (binary r)
      = Inr (sample_of ex_object ex_attr (header r) (new_content 1 0x1000 2 3 4 5 6 [0x1000, 0x2000]) (binary r))"
  by (rule sample_new_parse) (simp_all add: ex_attr_def new_sample_types_def)

text \<open>C38 A call chain length that overflows: the size of the call chain is computed in 64 bits, so a
  record of sixteen bytes that claims \<open>2 ^ 61\<close> entries passes the bounds check of the parsing
  constructor, and \<open>GetCallChain\<close> then reads beyond the record.\<close>

theorem sample_ip_nr_overflow:
  "\<exists>r. SampleRecord_parse ex_object (ex_attr\<lparr>attr_sample_type := PERF_SAMPLE_CALLCHAIN\<rparr>)
      (header_bytes \<lparr>rh_type = PERF_RECORD_SAMPLE, rh_misc = PERF_RECORD_MISC_USER, rh_size = 16\<rparr> @ to_le 8 (0x2000000000000000 :: u64))
      = Inr r
    \<and> callchain_ip_nr r = 0x2000000000000000 \<and> GetCallChain r = Inl OutOfBounds"
proof -
  let ?p = "SampleRecord_parse ex_object (ex_attr\<lparr>attr_sample_type := PERF_SAMPLE_CALLCHAIN\<rparr>)
      (header_bytes \<lparr>rh_type = PERF_RECORD_SAMPLE, rh_misc = PERF_RECORD_MISC_USER, rh_size = 16\<rparr> @ to_le 8 (0x2000000000000000 :: u64))"
  obtain r where r: "?p = Inr r"
    and n: "callchain_ip_nr r = 0x2000000000000000" "callchain_ips r = 16" "length (binary r) = 16"
      "flag (sample_type r) PERF_SAMPLE_CALLCHAIN"
  proof -
    have "(case ?p of Inl _ \<Rightarrow> False | Inr r \<Rightarrow> callchain_ip_nr r = 0x2000000000000000 \<and> callchain_ips r = 16
        \<and> length (binary r) = 16 \<and> flag (sample_type r) PERF_SAMPLE_CALLCHAIN)"
      by code_simp
    then show ?thesis
      using that by (auto split: sum.splits)
  qed
  have "read_u64_at 16 (binary r) = Inl OutOfBounds"
    using n by (simp add: read_u64_at_def read_at_def)
  then have loop: "m \<noteq> 0 \<Longrightarrow> get_chain_loop m 0 in_kernel True acc k r = Inl OutOfBounds" for m in_kernel acc k
    using n(2) by (cases m) simp_all
  have "unat (callchain_ip_nr r) \<noteq> 0"
    using n(1) by (simp add: unat_eq_0)
  from loop [OF this] n(4) have "GetCallChain r = Inl OutOfBounds"
    by (simp only: GetCallChain_def Let_def not_True_eq_False if_False)
  with r n show ?thesis
    by blast
qed

end
