(* ===== verification/Record_Read.thy ===== *)
theory Record_Read
  imports Sample_Record
begin

text \<open>
  Reading records of any type: \<open>AnyRecord\<close> is a \<^verbatim>\<open>std::unique_ptr<Record>\<close> with the class of the
  object it points to, and the functions of \<^verbatim>\<open>simpleperf/record.cpp\<close> that read one record or all
  records of a buffer. \<open>uninit\<close> gives the previous contents of the memory of the sample object made
  for the record at a distance from the end of the buffer.
\<close>

section \<open>Records of any class\<close>

datatype AnyRecord =
    RMmap MmapRecord
  | RMmap2 Mmap2Record
  | RComm CommRecord
  | RExit ExitOrForkRecord
  | RFork ExitOrForkRecord
  | RLost LostRecord
  | RSample SampleRecord
  | RBuildId BuildIdRecord
  | RTracingData TracingDataRecord
  | RKernelSymbol KernelSymbolRecord
  | RDso DsoRecord
  | RSymbol SymbolRecord
  | REventId EventIdRecord
  | RCallChain CallChainRecord
  | RUnwindingResult UnwindingResultRecord
  | RUnknown UnknownRecord

primrec any_header :: "AnyRecord \<Rightarrow> RecordHeader" where
  "any_header (RMmap r) = header r"
| "any_header (RMmap2 r) = header r"
| "any_header (RComm r) = header r"
| "any_header (RExit r) = header r"
| "any_header (RFork r) = header r"
| "any_header (RLost r) = header r"
| "any_header (RSample r) = header r"
| "any_header (RBuildId r) = header r"
| "any_header (RTracingData r) = header r"
| "any_header (RKernelSymbol r) = header r"
| "any_header (RDso r) = header r"
| "any_header (RSymbol r) = header r"
| "any_header (REventId r) = header r"
| "any_header (RCallChain r) = header r"
| "any_header (RUnwindingResult r) = header r"
| "any_header (RUnknown r) = header r"

definition any_type :: "AnyRecord \<Rightarrow> u32" where
  "any_type r = rh_type (any_header r)"

primrec any_binary :: "AnyRecord \<Rightarrow> bytes" where
  "any_binary (RMmap r) = binary r"
| "any_binary (RMmap2 r) = binary r"
| "any_binary (RComm r) = binary r"
| "any_binary (RExit r) = binary r"
| "any_binary (RFork r) = binary r"
| "any_binary (RLost r) = binary r"
| "any_binary (RSample r) = binary r"
| "any_binary (RBuildId r) = binary r"
| "any_binary (RTracingData r) = binary r"
| "any_binary (RKernelSymbol r) = binary r"
| "any_binary (RDso r) = binary r"
| "any_binary (RSymbol r) = binary r"
| "any_binary (REventId r) = binary r"
| "any_binary (RCallChain r) = binary r"
| "any_binary (RUnwindingResult r) = binary r"
| "any_binary (RUnknown r) = binary r"

text \<open>The virtual function \<open>Timestamp\<close>: samples, call chains and unwinding results carry their own time.\<close>

primrec any_Timestamp :: "AnyRecord \<Rightarrow> u64" where
  "any_Timestamp (RMmap r) = Record_Timestamp r"
| "any_Timestamp (RMmap2 r) = Record_Timestamp r"
| "any_Timestamp (RComm r) = Record_Timestamp r"
| "any_Timestamp (RExit r) = Record_Timestamp r"
| "any_Timestamp (RFork r) = Record_Timestamp r"
| "any_Timestamp (RLost r) = Record_Timestamp r"
| "any_Timestamp (RSample r) = SampleRecord_Timestamp r"
| "any_Timestamp (RBuildId r) = Record_Timestamp r"
| "any_Timestamp (RTracingData r) = Record_Timestamp r"
| "any_Timestamp (RKernelSymbol r) = Record_Timestamp r"
| "any_Timestamp (RDso r) = Record_Timestamp r"
| "any_Timestamp (RSymbol r) = Record_Timestamp r"
| "any_Timestamp (REventId r) = Record_Timestamp r"
| "any_Timestamp (RCallChain r) = cr_time r"
| "any_Timestamp (RUnwindingResult r) = urr_time r"
| "any_Timestamp (RUnknown r) = Record_Timestamp r"

primrec any_OwnBinary :: "AnyRecord \<Rightarrow> AnyRecord" where
  "any_OwnBinary (RMmap r) = RMmap (OwnBinary r)"
| "any_OwnBinary (RMmap2 r) = RMmap2 (OwnBinary r)"
| "any_OwnBinary (RComm r) = RComm (OwnBinary r)"
| "any_OwnBinary (RExit r) = RExit (OwnBinary r)"
| "any_OwnBinary (RFork r) = RFork (OwnBinary r)"
| "any_OwnBinary (RLost r) = RLost (OwnBinary r)"
| "any_OwnBinary (RSample r) = RSample (OwnBinary r)"
| "any_OwnBinary (RBuildId r) = RBuildId (OwnBinary r)"
| "any_OwnBinary (RTracingData r) = RTracingData (OwnBinary r)"
| "any_OwnBinary (RKernelSymbol r) = RKernelSymbol (OwnBinary r)"
| "any_OwnBinary (RDso r) = RDso (OwnBinary r)"
| "any_OwnBinary (RSymbol r) = RSymbol (OwnBinary r)"
| "any_OwnBinary (REventId r) = REventId (OwnBinary r)"
| "any_OwnBinary (RCallChain r) = RCallChain (OwnBinary r)"
| "any_OwnBinary (RUnwindingResult r) = RUnwindingResult (OwnBinary r)"
| "any_OwnBinary (RUnknown r) = RUnknown (OwnBinary r)"

section \<open>Reading one record\<close>

definition rmap :: "('a \<Rightarrow> 'b) \<Rightarrow> 'e + 'a \<Rightarrow> 'e + 'b" where
  "rmap f r = rbind r (\<lambda>x. Inr (f x))"

definition ReadRecordFromBuffer :: "SampleRecord \<Rightarrow> perf_event_attr \<Rightarrow> u32 \<Rightarrow> bytes \<Rightarrow> abort + AnyRecord" where
  "ReadRecordFromBuffer uninit attr ty p =
     (if ty = PERF_RECORD_MMAP then rmap RMmap (MmapRecord_parse attr p)
      else if ty = PERF_RECORD_MMAP2 then rmap RMmap2 (Mmap2Record_parse attr p)
      else if ty = PERF_RECORD_COMM then rmap RComm (CommRecord_parse attr p)
      else if ty = PERF_RECORD_EXIT then rmap RExit (ExitOrForkRecord_parse attr p)
      else if ty = PERF_RECORD_FORK then rmap RFork (ExitOrForkRecord_parse attr p)
      else if ty = PERF_RECORD_LOST then rmap RLost (LostRecord_parse attr p)
      else if ty = PERF_RECORD_SAMPLE then rmap RSample (SampleRecord_parse uninit attr p)
      else if ty = PERF_RECORD_TRACING_DATA then rmap RTracingData (TracingDataRecord_parse p)
      else if ty = SIMPLE_PERF_RECORD_KERNEL_SYMBOL then rmap RKernelSymbol (KernelSymbolRecord_parse p)
      else if ty = SIMPLE_PERF_RECORD_DSO then rmap RDso (DsoRecord_parse p)
      else if ty = SIMPLE_PERF_RECORD_SYMBOL then rmap RSymbol (SymbolRecord_parse p)
      else if ty = SIMPLE_PERF_RECORD_EVENT_ID then rmap REventId (EventIdRecord_parse p)
      else if ty = SIMPLE_PERF_RECORD_CALLCHAIN then rmap RCallChain (CallChainRecord_parse p)
      else if ty = SIMPLE_PERF_RECORD_UNWINDING_RESULT then rmap RUnwindingResult (UnwindingResultRecord_parse p)
      else if ty = SIMPLE_PERF_RECORD_TRACING_DATA then rmap RTracingData (TracingDataRecord_parse p)
      else rmap RUnknown (UnknownRecord_parse p))"

definition ReadRecordFromOwnedBuffer :: "SampleRecord \<Rightarrow> perf_event_attr \<Rightarrow> u32 \<Rightarrow> bytes \<Rightarrow> abort + AnyRecord" where
  "ReadRecordFromOwnedBuffer uninit attr ty p = rmap any_OwnBinary (ReadRecordFromBuffer uninit attr ty p)"

text \<open>The overload that takes the type from the header in the buffer.\<close>

definition ReadRecordFromBuffer_untyped :: "SampleRecord \<Rightarrow> perf_event_attr \<Rightarrow> bytes \<Rightarrow> abort + AnyRecord" where
  "ReadRecordFromBuffer_untyped uninit attr p =
     rbind (get_u32 p) (\<lambda>(ty, _). ReadRecordFromBuffer uninit attr ty p)"

section \<open>Reading a buffer of records\<close>

text \<open>
  The loop of \<open>ReadRecordsFromBuffer\<close> on the rest \<open>p\<close> of the buffer. It ends because a header of
  size zero aborts.
\<close>

function ReadRecordsFromBuffer :: "(nat \<Rightarrow> SampleRecord) \<Rightarrow> perf_event_attr \<Rightarrow> bytes \<Rightarrow> abort + AnyRecord list" where
  "ReadRecordsFromBuffer uninit attr p =
     (if p = [] then Inr []
      else case RecordHeader_parse p of
        Inl e \<Rightarrow> Inl e
      | Inr h \<Rightarrow>
          if length p < unat (rh_size h) then Inl CHECK_failed
          else if rh_size h = 0 then Inl CHECK_failed
          else rbind (ReadRecordFromBuffer (uninit (length p)) attr (rh_type h) p) (\<lambda>r.
               rbind (ReadRecordsFromBuffer uninit attr (drop (unat (rh_size h)) p)) (\<lambda>rs.
               Inr (r # rs))))"
  by pat_completeness auto
termination
  by (relation "measure (\<lambda>(_, _, p). length p)") (auto simp: unat_gt_0)

declare ReadRecordsFromBuffer.simps [simp del]

section \<open>Records in a stream\<close>

text \<open>The record \<open>r\<close> seen as part of a buffer that continues with \<open>b\<close> from its start.\<close>

primrec any_at :: "bytes \<Rightarrow> AnyRecord \<Rightarrow> AnyRecord" where
  "any_at b (RMmap r) = RMmap (r\<lparr>binary := b, own_binary := False\<rparr>)"
| "any_at b (RMmap2 r) = RMmap2 (r\<lparr>binary := b, own_binary := False\<rparr>)"
| "any_at b (RComm r) = RComm (r\<lparr>binary := b, own_binary := False\<rparr>)"
| "any_at b (RExit r) = RExit (r\<lparr>binary := b, own_binary := False\<rparr>)"
| "any_at b (RFork r) = RFork (r\<lparr>binary := b, own_binary := False\<rparr>)"
| "any_at b (RLost r) = RLost (r\<lparr>binary := b, own_binary := False\<rparr>)"
| "any_at b (RSample r) = RSample (r\<lparr>binary := b, own_binary := False\<rparr>)"
| "any_at b (RBuildId r) = RBuildId (r\<lparr>binary := b, own_binary := False\<rparr>)"
| "any_at b (RTracingData r) = RTracingData (r\<lparr>binary := b, own_binary := False\<rparr>)"
| "any_at b (RKernelSymbol r) = RKernelSymbol (r\<lparr>binary := b, own_binary := False\<rparr>)"
| "any_at b (RDso r) = RDso (r\<lparr>binary := b, own_binary := False\<rparr>)"
| "any_at b (RSymbol r) = RSymbol (r\<lparr>binary := b, own_binary := False\<rparr>)"
| "any_at b (REventId r) = REventId (r\<lparr>binary := b, own_binary := False\<rparr>)"
| "any_at b (RCallChain r) = RCallChain (r\<lparr>binary := b, own_binary := False\<rparr>)"
| "any_at b (RUnwindingResult r) = RUnwindingResult (r\<lparr>binary := b, own_binary := False\<rparr>)"
| "any_at b (RUnknown r) = RUnknown (r\<lparr>binary := b, own_binary := False\<rparr>)"

text \<open>
  What a reader gets of a record may depend on the memory of the object it makes, so it is a
  function of \<open>uninit\<close>. \<open>stream_at\<close> is what a reader gets of the records of a buffer.
\<close>

fun stream_at :: "(nat \<Rightarrow> SampleRecord) \<Rightarrow> bytes \<Rightarrow> (SampleRecord \<Rightarrow> AnyRecord) list \<Rightarrow> AnyRecord list" where
  "stream_at uninit b [] = []"
| "stream_at uninit b (r # rs) =
     (let x = r (uninit (length b)) in
      any_at b x # stream_at uninit (drop (unat (rh_size (any_header x))) b) rs)"

text \<open>
  \<open>w\<close> is a complete record and reading the binary of \<open>w\<close> at the start of any buffer gives \<open>r\<close>.
\<close>

definition readable :: "perf_event_attr \<Rightarrow> AnyRecord \<Rightarrow> (SampleRecord \<Rightarrow> AnyRecord) \<Rightarrow> bool" where
  "readable attr w r \<longleftrightarrow> length (any_binary w) = unat (rh_size (any_header w)) \<and> 0 < length (any_binary w)
     \<and> (\<forall>t uninit. RecordHeader_parse (any_binary w @ t) = Inr (any_header w)
          \<and> any_header (r uninit) = any_header w
          \<and> ReadRecordFromBuffer uninit attr (any_type w) (any_binary w @ t) = Inr (any_at (any_binary w @ t) (r uninit)))"

lemma ReadRecordsFromBuffer_Nil [simp]: "ReadRecordsFromBuffer uninit attr [] = Inr []"
  by (simp add: ReadRecordsFromBuffer.simps)

lemma ReadRecordsFromBuffer_Cons:
  assumes "readable attr w r"
  shows "ReadRecordsFromBuffer uninit attr (any_binary w @ p)
    = rbind (ReadRecordsFromBuffer uninit attr p) (\<lambda>rs.
        Inr (any_at (any_binary w @ p) (r (uninit (length (any_binary w @ p)))) # rs))"
proof -
  have "any_binary w \<noteq> []" "rh_size (any_header w) \<noteq> 0"
    using assms by (auto simp: readable_def)
  then show ?thesis
    using assms
    by (subst ReadRecordsFromBuffer.simps) (simp add: readable_def any_type_def)
qed

lemma ReadRecordsFromBuffer_stream:
  assumes "list_all2 (readable attr) ws rs"
  shows "ReadRecordsFromBuffer uninit attr (concat (map any_binary ws))
    = Inr (stream_at uninit (concat (map any_binary ws)) rs)"
  using assms
proof (induction rule: list_all2_induct)
  case (Cons w ws r rs)
  have "unat (rh_size (any_header (r u))) = length (any_binary w)" for u
    using Cons.hyps(1) by (simp add: readable_def)
  then show ?case
    using Cons ReadRecordsFromBuffer_Cons [OF Cons.hyps(1)] by (simp add: Let_def)
qed simp

end
