(* ===== verification/Record_Stream.thy ===== *)
theory Record_Stream
  imports Record_Read Sample_Update
begin

text \<open>
  A buffer of records made by twelve of the thirteen value constructors of
  \<^verbatim>\<open>simpleperf/record.cpp\<close> (all but the one of \<open>BuildIdRecord\<close>) is read by \<open>ReadRecordsFromBuffer\<close>
  record by record, in any order of the classes.
\<close>

section \<open>The header a parsing constructor stores\<close>

lemma RecordHeader_parse_length: "RecordHeader_parse p = Inr h \<Longrightarrow> 8 \<le> length p"
  by (auto simp: RecordHeader_parse_def get_u32_def get_u16_def get_bytes_def split: if_splits)

lemma Record_parse_header: "Record_parse p = Inr r \<Longrightarrow> RecordHeader_parse p = Inr (header r)"
  by (auto simp: Record_parse_def)

lemma parse_header:
  "MmapRecord_parse attr p = Inr mm \<Longrightarrow> RecordHeader_parse p = Inr (header mm)"
  "Mmap2Record_parse attr p = Inr mm2 \<Longrightarrow> RecordHeader_parse p = Inr (header mm2)"
  "CommRecord_parse attr p = Inr cm \<Longrightarrow> RecordHeader_parse p = Inr (header cm)"
  "ExitOrForkRecord_parse attr p = Inr ef \<Longrightarrow> RecordHeader_parse p = Inr (header ef)"
  "KernelSymbolRecord_parse p = Inr ks \<Longrightarrow> RecordHeader_parse p = Inr (header ks)"
  "TracingDataRecord_parse p = Inr td \<Longrightarrow> RecordHeader_parse p = Inr (header td)"
  "DsoRecord_parse p = Inr ds \<Longrightarrow> RecordHeader_parse p = Inr (header ds)"
  "SymbolRecord_parse p = Inr sy \<Longrightarrow> RecordHeader_parse p = Inr (header sy)"
  "EventIdRecord_parse p = Inr ei \<Longrightarrow> RecordHeader_parse p = Inr (header ei)"
  "CallChainRecord_parse p = Inr cc \<Longrightarrow> RecordHeader_parse p = Inr (header cc)"
  "UnwindingResultRecord_parse p = Inr ur \<Longrightarrow> RecordHeader_parse p = Inr (header ur)"
  by (auto simp: MmapRecord_parse_def Mmap2Record_parse_def CommRecord_parse_def ExitOrForkRecord_parse_def
      KernelSymbolRecord_parse_def TracingDataRecord_parse_def DsoRecord_parse_def SymbolRecord_parse_def
      EventIdRecord_parse_def CallChainRecord_parse_def UnwindingResultRecord_parse_def Let_def record_simps
      dest!: Record_parse_header)

lemma readableI:
  assumes rb: "reads_back parse r r'" and hd: "\<And>p x. parse p = Inr x \<Longrightarrow> RecordHeader_parse p = Inr (header x)"
    and same: "header r' = header r"
    and w: "any_header w = header r" "any_binary w = binary r" "any_header w' = header r"
    and read: "\<And>uninit b. ReadRecordFromBuffer uninit attr (any_type w) b = rmap K (parse b)"
    and K: "\<And>b. K (r'\<lparr>binary := b, own_binary := False\<rparr>) = any_at b w'"
  shows "readable attr w (\<lambda>_. w')"
proof -
  have p: "parse (binary r @ t) = Inr (r'\<lparr>binary := binary r @ t, own_binary := False\<rparr>)" for t
    using rb by (simp add: reads_back_def)
  have h: "RecordHeader_parse (binary r @ t) = Inr (header r)" for t
    using hd [OF p [of t]] same by simp
  have "8 \<le> length (binary r)"
    using RecordHeader_parse_length [OF h [of "[]"]] by simp
  then show ?thesis
    using rb h w by (simp add: readable_def reads_back_def read p rmap_def K)
qed

lemma resampled_header [simp]: "header (resampled junk r) = header r"
  by (simp add: resampled_def)

section \<open>Records built by the constructors\<close>

text \<open>
  \<open>built attr w r\<close>: \<open>w\<close> was made by a constructor from arguments that fit a record, and \<open>r\<close> is what
  a reader with the same \<open>attr\<close> should see. Names have no zero byte, variable parts are short enough
  for the size field, and a sample has only the fields its constructor knows. For the classes with
  a \<open>SampleId\<close> trailer the reader sees \<open>resampled junk w\<close>: all of \<open>w\<close> but the identifier, which the
  constructor leaves unwritten. For the others it sees \<open>w\<close> itself, and for a sample the values the
  constructor was called with. \<open>BuildIdRecord\<close> is not among them: such records are kept in a section
  of their own, and \<open>ReadRecordFromBuffer\<close> has no case for their type.
\<close>

inductive built :: "perf_event_attr \<Rightarrow> AnyRecord \<Rightarrow> (SampleRecord \<Rightarrow> AnyRecord) \<Rightarrow> bool" where
  built_mmap: "\<lbrakk>MmapRecord_new junk attr in_kernel pid tid addr len pgoff nm event_id time = Inr mm;
      0 \<notin> set nm; length nm < 65000\<rbrakk>
    \<Longrightarrow> built attr (RMmap mm) (\<lambda>_. RMmap (resampled junk mm))"
| built_mmap2: "\<lbrakk>Mmap2Record_new junk obj attr in_kernel pid tid addr len pgoff prot nm event_id time = Inr mm2;
      0 \<notin> set nm; length nm < 65000\<rbrakk>
    \<Longrightarrow> built attr (RMmap2 mm2) (\<lambda>_. RMmap2 (resampled junk mm2))"
| built_comm: "\<lbrakk>CommRecord_new junk attr pid tid comm event_id time = Inr cm; 0 \<notin> set comm; length comm < 65000\<rbrakk>
    \<Longrightarrow> built attr (RComm cm) (\<lambda>_. RComm (resampled junk cm))"
| built_fork: "\<lbrakk>ForkRecord_new junk attr pid tid ppid ptid event_id = Inr fk\<rbrakk>
    \<Longrightarrow> built attr (RFork fk) (\<lambda>_. RFork (resampled junk fk))"
| built_sample: "\<lbrakk>SampleRecord_new junk obj attr i ip pid tid time cpu period ips = Inr sm;
      attr_sample_type attr AND NOT new_sample_types = 0; length ips < 8000\<rbrakk>
    \<Longrightarrow> built attr (RSample sm)
          (\<lambda>u. RSample (sample_of u attr (header sm) (new_content i ip pid tid time cpu period ips) []))"
| built_dso: "\<lbrakk>DsoRecord_new junk ty i nm vaddr = Inr ds; 0 \<notin> set nm; length nm < 2 ^ 32 - 64\<rbrakk>
    \<Longrightarrow> built attr (RDso ds) (\<lambda>_. RDso ds)"
| built_symbol: "\<lbrakk>SymbolRecord_new junk addr len nm i = Inr sy; 0 \<notin> set nm; length nm < 2 ^ 32 - 64\<rbrakk>
    \<Longrightarrow> built attr (RSymbol sy) (\<lambda>_. RSymbol sy)"
| built_kernel_symbol: "\<lbrakk>KernelSymbolRecord_new junk d = Inr ks; length d < 2 ^ 32 - 64\<rbrakk>
    \<Longrightarrow> built attr (RKernelSymbol ks) (\<lambda>_. RKernelSymbol ks)"
| built_tracing_data: "\<lbrakk>TracingDataRecord_new junk d = Inr td; length d < 2 ^ 32 - 128\<rbrakk>
    \<Longrightarrow> built attr (RTracingData td) (\<lambda>_. RTracingData td)"
| built_event_id: "\<lbrakk>EventIdRecord_new junk es = Inr ei; even (length es); length es < 2 ^ 29 - 2\<rbrakk>
    \<Longrightarrow> built attr (REventId ei) (\<lambda>_. REventId ei)"
| built_callchain: "\<lbrakk>CallChainRecord_new junk pid tid ct time ips sps = Inr cc; length sps = length ips;
      length ips < 2 ^ 28 - 4\<rbrakk>
    \<Longrightarrow> built attr (RCallChain cc) (\<lambda>_. RCallChain cc)"
| built_unwinding_result: "\<lbrakk>UnwindingResultRecord_new junk time ur = Inr u\<rbrakk>
    \<Longrightarrow> built attr (RUnwindingResult u) (\<lambda>_. RUnwindingResult u)"

lemma sample_of_at [simp]:
  "(sample_of u attr h c b)\<lparr>binary := b', own_binary := False\<rparr> = sample_of u attr h c b'"
  by (simp add: sample_of_def Let_def Record.extend_def SampleRecord.fields_def)

lemma sample_image_append: "sample_image attr h c b \<Longrightarrow> sample_image attr h c (b @ t)"
  by (elim sample_imageE) (auto intro: sample_imageI)

lemma built_readable:
  assumes "built attr w r"
  shows "readable attr w r"
  using assms
proof cases
  case (built_mmap junk in_kernel pid tid addr len pgoff nm event_id time mm)
  from MmapRecord_new_ok [OF built_mmap(4,5), of junk attr in_kernel pid tid addr len pgoff event_id time] built_mmap(3)
  show ?thesis
    unfolding built_mmap(1,2)
    by (intro readableI [OF _ parse_header(1)])
       (auto simp: any_type_def ReadRecordFromBuffer_def record_type_defs)
next
  case (built_mmap2 junk obj in_kernel pid tid addr len pgoff prot nm event_id time mm2)
  from Mmap2Record_new_ok [OF built_mmap2(4,5), of junk obj attr in_kernel pid tid addr len pgoff prot event_id time] built_mmap2(3)
  show ?thesis
    unfolding built_mmap2(1,2)
    by (intro readableI [OF _ parse_header(2)])
       (auto simp: any_type_def ReadRecordFromBuffer_def record_type_defs)
next
  case (built_comm junk pid tid comm event_id time cm)
  from CommRecord_new_ok [OF built_comm(4,5), of junk attr pid tid event_id time] built_comm(3)
  show ?thesis
    unfolding built_comm(1,2)
    by (intro readableI [OF _ parse_header(3)])
       (auto simp: any_type_def ReadRecordFromBuffer_def record_type_defs)
next
  case (built_fork junk pid tid ppid ptid event_id fk)
  from ForkRecord_new_ok [of junk attr pid tid ppid ptid event_id] built_fork(3)
  show ?thesis
    unfolding built_fork(1,2)
    by (intro readableI [OF _ parse_header(4)])
       (auto simp: any_type_def ReadRecordFromBuffer_def record_type_defs)
next
  case (built_sample junk obj i ip pid tid time cpu period ips sm)
  from SampleRecord_new_ok [OF built_sample(4,5), of junk obj i ip pid tid time cpu period] built_sample(3)
  have im: "sample_image attr (header sm) (new_content i ip pid tid time cpu period ips) (binary sm)"
    and len: "length (binary sm) = unat (rh_size (header sm))"
    by auto
  then obtain rest where "binary sm = header_bytes (header sm) @ rest" "rh_type (header sm) = PERF_RECORD_SAMPLE"
      "header_ok (header sm)"
    by (auto elim!: sample_imageE)
  moreover have "SampleRecord_parse u attr (binary sm @ t)
      = Inr (sample_of u attr (header sm) (new_content i ip pid tid time cpu period ips) (binary sm @ t))" for u t
    by (rule sample_image_parse [OF sample_image_append [OF im]])
  ultimately show ?thesis
    unfolding built_sample(1,2) readable_def
    using len by (simp add: any_type_def ReadRecordFromBuffer_def record_type_defs rmap_def RecordHeader_parse_bytes)
next
  case (built_dso junk ty i nm vaddr ds)
  from DsoRecord_new_ok [OF built_dso(4,5), of junk ty i vaddr] built_dso(3)
  show ?thesis
    unfolding built_dso(1,2)
    by (intro readableI [OF _ parse_header(7)])
       (auto simp: any_type_def ReadRecordFromBuffer_def record_type_defs)
next
  case (built_symbol junk addr len nm i sy)
  from SymbolRecord_new_ok [OF built_symbol(4,5), of junk addr len i] built_symbol(3)
  show ?thesis
    unfolding built_symbol(1,2)
    by (intro readableI [OF _ parse_header(8)])
       (auto simp: any_type_def ReadRecordFromBuffer_def record_type_defs)
next
  case (built_kernel_symbol junk d ks)
  from KernelSymbolRecord_new_ok [OF built_kernel_symbol(4), of junk] built_kernel_symbol(3)
  show ?thesis
    unfolding built_kernel_symbol(1,2)
    by (intro readableI [OF _ parse_header(5)])
       (auto simp: any_type_def ReadRecordFromBuffer_def record_type_defs)
next
  case (built_tracing_data junk d td)
  from TracingDataRecord_new_ok [OF built_tracing_data(4), of junk] built_tracing_data(3)
  show ?thesis
    unfolding built_tracing_data(1,2)
    by (intro readableI [OF _ parse_header(6)])
       (auto simp: any_type_def ReadRecordFromBuffer_def record_type_defs)
next
  case (built_event_id junk es ei)
  from EventIdRecord_new_ok [OF built_event_id(4,5), of junk] built_event_id(3)
  show ?thesis
    unfolding built_event_id(1,2)
    by (intro readableI [OF _ parse_header(9)])
       (auto simp: any_type_def ReadRecordFromBuffer_def record_type_defs)
next
  case (built_callchain junk pid tid ct time ips sps cc)
  from CallChainRecord_new_ok [OF built_callchain(4,5), of junk pid tid ct time] built_callchain(3)
  show ?thesis
    unfolding built_callchain(1,2)
    by (intro readableI [OF _ parse_header(10)])
       (auto simp: any_type_def ReadRecordFromBuffer_def record_type_defs)
next
  case (built_unwinding_result junk time ur u)
  from UnwindingResultRecord_new_ok [of junk time ur] built_unwinding_result(3)
  show ?thesis
    unfolding built_unwinding_result(1,2)
    by (intro readableI [OF _ parse_header(11)])
       (auto simp: any_type_def ReadRecordFromBuffer_def record_type_defs)
qed

end
