(* ===== verification/Record_Cache.thy ===== *)
theory Record_Cache
  imports Record_Read "HOL-Library.Multiset" "HOL-Library.Product_Lexorder"
begin

text \<open>
  \<open>RecordCache\<close> of \<^verbatim>\<open>simpleperf/record.cpp\<close>: a priority queue that reorders records by time, with the
  order they entered the cache to break ties. The interface \<open>priority_queue\<close> states what the
  cache relies on of \<^verbatim>\<open>std::priority_queue\<close>; its interpretation is a queue kept as the list of its
  elements, whose \<open>top\<close> is an element that no other element happens before.
\<close>

section \<open>Priority queue\<close>

locale priority_queue =
  fixes before :: "'a \<Rightarrow> 'a \<Rightarrow> bool"
    and elems :: "'q \<Rightarrow> 'a multiset"
    and qempty :: "'q"
    and push :: "'a \<Rightarrow> 'q \<Rightarrow> 'q"
    and top :: "'q \<Rightarrow> 'a"
    and pop :: "'q \<Rightarrow> 'q"
    and pop_all :: "'q \<Rightarrow> 'a list"
  assumes elems_empty: "elems qempty = {#}"
    and elems_push: "elems (push x q) = add_mset x (elems q)"
    and elems_pop: "elems q \<noteq> {#} \<Longrightarrow> elems (pop q) = elems q - {#top q#}"
    and top_in: "elems q \<noteq> {#} \<Longrightarrow> top q \<in># elems q"
    and top_first: "x \<in># elems q \<Longrightarrow> \<not> before x (top q)"
    and pop_all_empty: "elems q = {#} \<Longrightarrow> pop_all q = []"
    and pop_all_next: "elems q \<noteq> {#} \<Longrightarrow> pop_all q = top q # pop_all (pop q)"
begin

lemma size_pop: "elems q \<noteq> {#} \<Longrightarrow> size (elems (pop q)) < size (elems q)"
  by (simp add: elems_pop top_in size_Diff1_less)

lemma mset_pop_all: "mset (pop_all q) = elems q"
proof (induction "size (elems q)" arbitrary: q rule: less_induct)
  case less
  show ?case
  proof (cases "elems q = {#}")
    case False
    then show ?thesis
      using less [OF size_pop [OF False]] top_in [OF False] by (simp add: pop_all_next elems_pop)
  qed (simp add: pop_all_empty)
qed

lemma sorted_pop_all: "sorted_wrt (\<lambda>x y. \<not> before y x) (pop_all q)"
proof (induction "size (elems q)" arbitrary: q rule: less_induct)
  case less
  show ?case
  proof (cases "elems q = {#}")
    case False
    have "y \<in># elems q" if "y \<in> set (pop_all (pop q))" for y
      using that mset_pop_all [of "pop q"] False
      by (metis elems_pop in_diffD set_mset_mset)
    then show ?thesis
      using less [OF size_pop [OF False]] False top_first by (simp add: pop_all_next)
  qed (simp add: pop_all_empty)
qed

end

section \<open>The cache\<close>

record RecordWithSeq =
  rs_seq :: u32
  rs_record :: AnyRecord

definition IsHappensBefore :: "RecordWithSeq \<Rightarrow> RecordWithSeq \<Rightarrow> bool" where
  "IsHappensBefore r other =
     (let is_sample = (any_type (rs_record r) = PERF_RECORD_SAMPLE);
          is_other_sample = (any_type (rs_record other) = PERF_RECORD_SAMPLE);
          time = any_Timestamp (rs_record r);
          other_time = any_Timestamp (rs_record other)
      in if time \<noteq> other_time then time < other_time
         else if is_sample \<noteq> is_other_sample then (if is_sample then False else True)
         else rs_seq r < rs_seq other)"

definition RecordComparator :: "RecordWithSeq \<Rightarrow> RecordWithSeq \<Rightarrow> bool" where
  "RecordComparator r1 r2 = IsHappensBefore r2 r1"

text \<open>\<^verbatim>\<open>std::priority_queue\<close> with \<open>RecordComparator\<close>, as the list of its elements.\<close>

primrec queue_top :: "RecordWithSeq list \<Rightarrow> RecordWithSeq" where
  "queue_top (x # xs) = fold (\<lambda>y m. if RecordComparator m y then y else m) xs x"

definition queue_pop :: "RecordWithSeq list \<Rightarrow> RecordWithSeq list" where
  "queue_pop q = remove1 (queue_top q) q"

definition queue_push :: "RecordWithSeq \<Rightarrow> RecordWithSeq list \<Rightarrow> RecordWithSeq list" where
  "queue_push x q = q @ [x]"

record RecordCache =
  has_timestamp :: bool
  min_cache_size :: nat
  min_time_diff_in_ns :: u64
  last_time :: u64
  cur_seq :: u32
  cache_queue :: "RecordWithSeq list"

definition RecordCache_init :: "bool \<Rightarrow> nat \<Rightarrow> u64 \<Rightarrow> RecordCache" where
  "RecordCache_init ts n d = \<lparr>has_timestamp = ts, min_cache_size = n, min_time_diff_in_ns = d,
     last_time = 0, cur_seq = 0, cache_queue = []\<rparr>"

definition Push :: "AnyRecord \<Rightarrow> RecordCache \<Rightarrow> RecordCache" where
  "Push r c =
     (let c = (if has_timestamp c then c\<lparr>last_time := max (last_time c) (any_Timestamp r)\<rparr> else c)
      in c\<lparr>cur_seq := cur_seq c + 1,
           cache_queue := queue_push \<lparr>rs_seq = cur_seq c, rs_record = r\<rparr> (cache_queue c)\<rparr>)"

primrec Push_all :: "AnyRecord list \<Rightarrow> RecordCache \<Rightarrow> RecordCache" where
  "Push_all [] c = c"
| "Push_all (r # rs) c = Push_all rs (Push r c)"

text \<open>\<open>Pop\<close>: \<^verbatim>\<open>top()\<close> of an empty queue is undefined.\<close>

definition Pop :: "RecordCache \<Rightarrow> abort + AnyRecord option \<times> RecordCache" where
  "Pop c =
     (if length (cache_queue c) < min_cache_size c then Inr (None, c)
      else if cache_queue c = [] then Inl OutOfBounds
      else let r = rs_record (queue_top (cache_queue c)) in
        if has_timestamp c \<and> any_Timestamp r + min_time_diff_in_ns c > last_time c then Inr (None, c)
        else Inr (Some r, c\<lparr>cache_queue := queue_pop (cache_queue c)\<rparr>))"

lemma queue_top_in: "q \<noteq> [] \<Longrightarrow> queue_top q \<in> set q"
proof (cases q)
  case (Cons x xs)
  have "fold (\<lambda>y m. if RecordComparator m y then y else m) xs x \<in> set (x # xs)"
    by (induction xs arbitrary: x) auto
  with Cons show ?thesis by simp
qed simp

function queue_drain :: "RecordWithSeq list \<Rightarrow> RecordWithSeq list" where
  "queue_drain q = (if q = [] then [] else queue_top q # queue_drain (queue_pop q))"
  by pat_completeness auto
termination
  by (relation "measure length")
     (auto simp: queue_pop_def length_remove1 queue_top_in intro: diff_less)

declare queue_drain.simps [simp del]

definition PopAll :: "RecordCache \<Rightarrow> AnyRecord list \<times> RecordCache" where
  "PopAll c = (map rs_record (queue_drain (cache_queue c)), c\<lparr>cache_queue := []\<rparr>)"

definition ForcedPop :: "RecordCache \<Rightarrow> AnyRecord option \<times> RecordCache" where
  "ForcedPop c =
     (if cache_queue c = [] then (None, c)
      else (Some (rs_record (queue_top (cache_queue c))), c\<lparr>cache_queue := queue_pop (cache_queue c)\<rparr>))"

section \<open>The order\<close>

definition seq_key :: "RecordWithSeq \<Rightarrow> u64 \<times> bool \<times> u32" where
  "seq_key r = (any_Timestamp (rs_record r), any_type (rs_record r) = PERF_RECORD_SAMPLE, rs_seq r)"

definition order_key :: "AnyRecord \<Rightarrow> u64 \<times> bool" where
  "order_key r = (any_Timestamp r, any_type r = PERF_RECORD_SAMPLE)"

lemma IsHappensBefore_key: "IsHappensBefore x y \<longleftrightarrow> seq_key x < seq_key y"
  by (auto simp: IsHappensBefore_def seq_key_def Let_def less_prod_def)

lemma queue_top_le:
  assumes "x \<in> set q"
  shows "seq_key (queue_top q) \<le> seq_key x"
proof (cases q)
  case (Cons a xs)
  have "\<forall>y \<in> set (a # xs). seq_key (fold (\<lambda>y m. if RecordComparator m y then y else m) xs a) \<le> seq_key y"
  proof (induction xs arbitrary: a)
    case (Cons b xs)
    let ?m = "if RecordComparator a b then b else a"
    have "seq_key ?m \<le> seq_key a" "seq_key ?m \<le> seq_key b"
      by (auto simp: RecordComparator_def IsHappensBefore_key)
    then show ?case
      using Cons [of ?m] by (auto intro: order_trans)
  qed simp
  then show ?thesis
    using Cons assms by auto
qed (use assms in simp)

interpretation record_queue: priority_queue IsHappensBefore "mset :: RecordWithSeq list \<Rightarrow> _" "[]"
  queue_push queue_top queue_pop queue_drain
proof
  fix q :: "RecordWithSeq list" and x
  show "mset q \<noteq> {#} \<Longrightarrow> queue_drain q = queue_top q # queue_drain (queue_pop q)"
    by (subst queue_drain.simps) simp
  show "x \<in># mset q \<Longrightarrow> \<not> IsHappensBefore x (queue_top q)"
    using queue_top_le [of x q] by (simp add: IsHappensBefore_key not_less)
qed (simp_all add: queue_push_def queue_pop_def queue_drain.simps queue_top_in)

lemma queue_drain_sort:
  assumes "inj_on seq_key (set q)"
  shows "queue_drain q = sort_key seq_key q"
proof (rule sort_key_inj_key_eq [symmetric])
  show "mset q = mset (queue_drain q)"
    by (simp add: record_queue.mset_pop_all)
  show "inj_on seq_key (set q)"
    by (rule assms)
  show "sorted (map seq_key (queue_drain q))"
    using record_queue.sorted_pop_all [of q]
    by (simp add: sorted_wrt_map IsHappensBefore_key not_less)
qed

section \<open>Draining the cache\<close>

definition tag :: "u32 \<Rightarrow> nat \<times> AnyRecord \<Rightarrow> RecordWithSeq" where
  "tag s x = \<lparr>rs_seq = s + of_nat (fst x), rs_record = snd x\<rparr>"

lemma Push_simps [simp]:
  "cache_queue (Push r c) = cache_queue c @ [\<lparr>rs_seq = cur_seq c, rs_record = r\<rparr>]"
  "cur_seq (Push r c) = cur_seq c + 1"
  "has_timestamp (Push r c) = has_timestamp c"
  "min_cache_size (Push r c) = min_cache_size c"
  "min_time_diff_in_ns (Push r c) = min_time_diff_in_ns c"
  "last_time (Push r c) = (if has_timestamp c then max (last_time c) (any_Timestamp r) else last_time c)"
  by (simp_all add: Push_def Let_def queue_push_def)

lemma enumerate_Suc_map: "enumerate (Suc n) xs = map (\<lambda>(i, x). (Suc i, x)) (enumerate n xs)"
  by (induction xs arbitrary: n) auto

lemma cache_queue_Push_all:
  "cache_queue (Push_all rs c) = cache_queue c @ map (tag (cur_seq c)) (enumerate 0 rs)"
proof (induction rs arbitrary: c)
  case (Cons r rs)
  then show ?case
    by (auto simp: enumerate_Suc_map tag_def add.assoc)
qed simp

lemma order_key_mono: "seq_key x \<le> seq_key y \<Longrightarrow> order_key (rs_record x) \<le> order_key (rs_record y)"
  by (auto simp: seq_key_def order_key_def less_eq_prod_def less_prod_def)

lemma sorted_same_key:
  assumes "sorted_wrt (\<lambda>x y. rs_seq x \<le> rs_seq y) q" and "\<forall>x \<in> set q. order_key (rs_record x) = k"
  shows "sorted (map seq_key q)"
  using assms
  by (induction q) (auto simp: seq_key_def order_key_def less_eq_prod_def)

lemma sort_tagged:
  assumes "sorted_wrt (\<lambda>x y. rs_seq x \<le> rs_seq y) q"
  shows "map rs_record (sort_key seq_key q) = sort_key order_key (map rs_record q)"
proof (rule properties_for_sort_key [symmetric])
  show "mset (map rs_record (sort_key seq_key q)) = mset (map rs_record q)"
    by simp
  show "sorted (map order_key (map rs_record (sort_key seq_key q)))"
    using sorted_sort_key [of seq_key q]
    by (simp add: sorted_wrt_map) (erule sorted_wrt_mono_rel [rotated], rule order_key_mono)
  show "filter (\<lambda>x. order_key k = order_key x) (map rs_record (sort_key seq_key q))
      = filter (\<lambda>x. order_key k = order_key x) (map rs_record q)" for k
  proof -
    let ?P = "\<lambda>x. order_key k = order_key (rs_record x)"
    have "sorted (map seq_key (filter ?P q))"
      using assms by (intro sorted_same_key [where k = "order_key k"] sorted_wrt_filter) auto
    then show ?thesis
      by (simp add: filter_map o_def filter_sort sort_key_id_if_sorted)
  qed
qed

lemma sorted_tags:
  assumes "length rs \<le> 2 ^ 32"
  shows "sorted_wrt (\<lambda>x y. rs_seq x < rs_seq y) (map (tag 0) (enumerate 0 rs))"
proof -
  have "i < j \<Longrightarrow> j < length rs \<Longrightarrow> (of_nat i :: u32) < of_nat j" for i j
    using assms by (simp add: word_less_nat_alt unat_of_nat_u32)
  then show ?thesis
    by (auto simp: sorted_wrt_iff_nth_less tag_def nth_enumerate_eq)
qed

lemma inj_seq_key:
  assumes "sorted_wrt (\<lambda>x y. rs_seq x < rs_seq y) q"
  shows "inj_on seq_key (set q)"
proof -
  have "sorted_wrt (<) (map rs_seq q)"
    using assms by (simp add: sorted_wrt_map)
  then have "inj_on rs_seq (set q)"
    using strict_sorted_iff distinct_map by blast
  then show ?thesis
    by (intro inj_onI) (auto simp: seq_key_def dest: inj_onD)
qed

lemma PopAll_init:
  assumes "length rs \<le> 2 ^ 32"
  shows "fst (PopAll (Push_all rs (RecordCache_init ts n d))) = sort_key order_key rs"
proof -
  let ?q = "map (tag 0) (enumerate 0 rs)"
  have q: "cache_queue (Push_all rs (RecordCache_init ts n d)) = ?q"
    by (simp add: cache_queue_Push_all RecordCache_init_def)
  have "map rs_record ?q = rs"
    by (simp add: tag_def o_def)
  moreover have le: "sorted_wrt (\<lambda>x y. rs_seq x \<le> rs_seq y) ?q"
    using sorted_tags [OF assms] by (rule sorted_wrt_mono_rel [rotated]) simp
  ultimately show ?thesis
    using queue_drain_sort [OF inj_seq_key [OF sorted_tags [OF assms]]] sort_tagged [OF le]
    by (simp only: PopAll_def q fst_conv)
qed

section \<open>Streaming through the cache\<close>

datatype CacheOp = OpPush AnyRecord | OpPop

primrec run_cache :: "CacheOp list \<Rightarrow> RecordCache \<Rightarrow> abort + AnyRecord list \<times> RecordCache" where
  "run_cache [] c = Inr ([], c)"
| "run_cache (op # ops) c = (case op of
     OpPush r \<Rightarrow> run_cache ops (Push r c)
   | OpPop \<Rightarrow> rbind (Pop c) (\<lambda>(r, c).
       rbind (run_cache ops c) (\<lambda>(rs, c). Inr ((case r of None \<Rightarrow> rs | Some x \<Rightarrow> x # rs), c))))"

text \<open>
  A record that enters the cache is at most \<open>min_time_diff_in_ns\<close> older than the newest one seen,
  and its time plus that difference, which \<open>Pop\<close> computes, does not wrap in 64 bits.
\<close>

definition timely :: "RecordCache \<Rightarrow> AnyRecord \<Rightarrow> bool" where
  "timely c r \<longleftrightarrow> unat (last_time c) \<le> unat (any_Timestamp r) + unat (min_time_diff_in_ns c)
     \<and> unat (any_Timestamp r) + unat (min_time_diff_in_ns c) < 2 ^ 64"

primrec timely_ops :: "CacheOp list \<Rightarrow> RecordCache \<Rightarrow> bool" where
  "timely_ops [] c \<longleftrightarrow> True"
| "timely_ops (op # ops) c \<longleftrightarrow> (case op of
     OpPush r \<Rightarrow> timely c r \<and> timely_ops ops (Push r c)
   | OpPop \<Rightarrow> (case Pop c of Inl _ \<Rightarrow> True | Inr (_, c) \<Rightarrow> timely_ops ops c))"

text \<open>The records delivered so far are not newer than \<open>T\<close>, and nothing older can still come.\<close>

definition cache_inv :: "u64 \<Rightarrow> RecordCache \<Rightarrow> bool" where
  "cache_inv T c \<longleftrightarrow> has_timestamp c \<and> 0 < min_cache_size c
     \<and> (T = 0 \<or> unat T + unat (min_time_diff_in_ns c) \<le> unat (last_time c))
     \<and> (\<forall>x \<in> set (cache_queue c). T \<le> any_Timestamp (rs_record x)
          \<and> unat (any_Timestamp (rs_record x)) + unat (min_time_diff_in_ns c) < 2 ^ 64)"

lemma cache_inv_Push:
  assumes "cache_inv T c" and "timely c r"
  shows "cache_inv T (Push r c)"
  using assms
  by (auto simp: cache_inv_def timely_def word_le_nat_alt max_def)

lemma cache_inv_Pop:
  assumes inv: "cache_inv T c"
  obtains (none) "Pop c = Inr (None, c)"
    | (some) r c' where "Pop c = Inr (Some r, c')" and "cache_inv (any_Timestamp r) c'" and "T \<le> any_Timestamp r"
      and "mset (map rs_record (cache_queue c)) = add_mset r (mset (map rs_record (cache_queue c')))"
proof -
  let ?q = "cache_queue c" and ?x = "queue_top (cache_queue c)"
  let ?r = "rs_record ?x"
  have "?q \<noteq> []" if "\<not> length ?q < min_cache_size c"
    using inv that by (auto simp: cache_inv_def)
  then consider "length ?q < min_cache_size c" | "?q \<noteq> []" "any_Timestamp ?r + min_time_diff_in_ns c > last_time c"
      "\<not> length ?q < min_cache_size c"
    | "?q \<noteq> []" "any_Timestamp ?r + min_time_diff_in_ns c \<le> last_time c" "\<not> length ?q < min_cache_size c"
    by (metis not_less)
  then show ?thesis
  proof cases
    case 3
    have x: "?x \<in> set ?q"
      using 3(1) by (rule queue_top_in)
    then have nw: "unat (any_Timestamp ?r + min_time_diff_in_ns c) = unat (any_Timestamp ?r) + unat (min_time_diff_in_ns c)"
      using inv by (intro unat_add_lem [THEN iffD1]) (simp add: cache_inv_def)
    have "any_Timestamp ?r \<le> any_Timestamp (rs_record y)" if "y \<in> set ?q" for y
      using queue_top_le [OF that] by (auto simp: seq_key_def less_eq_prod_def)
    then have "cache_inv (any_Timestamp ?r) (c\<lparr>cache_queue := queue_pop ?q\<rparr>)"
      using inv 3(2) nw by (auto simp: cache_inv_def queue_pop_def word_le_nat_alt dest: set_remove1_subset [THEN subsetD])
    moreover have "T \<le> any_Timestamp ?r"
      using inv x by (simp add: cache_inv_def)
    moreover have "mset ?q = add_mset ?x (mset (queue_pop ?q))"
      using x by (simp add: queue_pop_def)
    ultimately show ?thesis
      using 3 inv by (intro some [of ?r "c\<lparr>cache_queue := queue_pop ?q\<rparr>"]) (simp_all add: Pop_def Let_def cache_inv_def not_less)
  qed (use inv none in \<open>simp_all add: Pop_def Let_def cache_inv_def\<close>)
qed

primrec pushed :: "CacheOp list \<Rightarrow> AnyRecord list" where
  "pushed [] = []"
| "pushed (op # ops) = (case op of OpPush r \<Rightarrow> r # pushed ops | OpPop \<Rightarrow> pushed ops)"

lemma run_cache_sorted:
  assumes "cache_inv T c" and "timely_ops ops c"
  shows "\<exists>out c'. run_cache ops c = Inr (out, c') \<and> sorted (map any_Timestamp out)
    \<and> (\<forall>r \<in> set out. T \<le> any_Timestamp r)
    \<and> mset out + mset (map rs_record (cache_queue c')) = mset (map rs_record (cache_queue c)) + mset (pushed ops)"
  using assms
proof (induction ops arbitrary: T c)
  case (Cons op ops)
  show ?case
  proof (cases op)
    case (OpPush r)
    then show ?thesis
      using Cons.IH [OF cache_inv_Push [OF Cons.prems(1)], of r] Cons.prems(2) by (auto simp: ac_simps)
  next
    case OpPop
    show ?thesis
      using Cons.prems(1)
    proof (cases rule: cache_inv_Pop)
      case none
      then show ?thesis
        using Cons.IH [OF Cons.prems(1)] Cons.prems(2) OpPop by auto
    next
      case (some r c')
      then obtain out c'' where "run_cache ops c' = Inr (out, c'')" "sorted (map any_Timestamp out)"
        "\<forall>x \<in> set out. any_Timestamp r \<le> any_Timestamp x"
        "mset out + mset (map rs_record (cache_queue c'')) = mset (map rs_record (cache_queue c')) + mset (pushed ops)"
        using Cons.IH [OF some(2)] Cons.prems(2) OpPop by auto
      then show ?thesis
        using some OpPop by (auto intro: order_trans)
    qed
  qed
qed simp

end
