(* ===== verification/Record_Properties.thy ===== *)
theory Record_Properties
  imports Sample_Properties Record_Stream Record_Cache
begin

text \<open>
  The properties of the records of \<^verbatim>\<open>simpleperf/record.cpp\<close>: the header and the
  \<open>SampleId\<close> trailer in binary, buffers that hold several records, and the cache that puts records
  in the order of their time.
\<close>

section \<open>Headers and trailers\<close>

text \<open>C26 Header round trip: \<open>RecordHeader::MoveToBinaryFormat\<close> either fails its \<^verbatim>\<open>CHECK\<close>, which
  happens exactly when the size of a kernel record does not fit 16 bits or a user record has a
  \<open>misc\<close> field, or writes eight bytes from which \<^verbatim>\<open>RecordHeader(const char*)\<close> recovers the header.\<close>

theorem header_roundtrip:
  assumes "8 \<le> length buf"
  shows "case RecordHeader_MoveToBinaryFormat h ([], buf) of
      Inl e \<Rightarrow> e = CHECK_failed \<and> (if rh_type h < SIMPLE_PERF_RECORD_TYPE_START then 65536 \<le> rh_size h else rh_misc h \<noteq> 0)
    | Inr (d, r) \<Rightarrow> length d = 8 \<and> r = drop 8 buf \<and> RecordHeader_parse (d @ r) = Inr h"
proof (cases "header_ok h")
  case True
  then show ?thesis
    using assms by (simp add: RecordHeader_write_ok RecordHeader_parse_bytes)
next
  case False
  then show ?thesis
    by (auto simp: RecordHeader_write_error) (auto simp: header_ok_def)
qed

theorem header_roundtrip_witness:
  "case RecordHeader_MoveToBinaryFormat \<lparr>rh_type = SIMPLE_PERF_RECORD_DSO, rh_misc = 0, rh_size = 0x12345\<rparr> ([], replicate 9 0) of
      Inl e \<Rightarrow> False
    | Inr (d, r) \<Rightarrow> d = [2, 0x80, 0, 0, 1, 0, 0x45, 0x23] \<and> length r = 1
        \<and> RecordHeader_parse (d @ r) = Inr \<lparr>rh_type = SIMPLE_PERF_RECORD_DSO, rh_misc = 0, rh_size = 0x12345\<rparr>"
proof -
  let ?w = "RecordHeader_MoveToBinaryFormat \<lparr>rh_type = SIMPLE_PERF_RECORD_DSO, rh_misc = 0, rh_size = 0x12345\<rparr> ([], replicate 9 0)"
  have "?w = Inr ([2, 0x80, 0, 0, 1, 0, 0x45, 0x23], [0])"
    by code_simp
  then show ?thesis
    using header_roundtrip [of "replicate 9 0" "\<lparr>rh_type = SIMPLE_PERF_RECORD_DSO, rh_misc = 0, rh_size = 0x12345\<rparr>"]
    by simp
qed

text \<open>C28 The trailer of a new mmap record: \<open>SampleId::Size\<close> reserves eight bytes for
  \<open>PERF_SAMPLE_IDENTIFIER\<close> and \<open>ReadFromBinaryFormat\<close> reads them, but \<open>WriteToBinaryFormat\<close> never
  writes them. A reader of the record finds in its \<open>id\<close> whatever the heap held in the last eight
  bytes of the buffer, not the event id the record was made with.\<close>

theorem mmap_identifier_lost:
  assumes "0 \<notin> set nm" and "length nm < 65000"
    and "attr_sample_id_all attr" and "flag (attr_sample_type attr) PERF_SAMPLE_IDENTIFIER"
  shows "\<exists>r r'. MmapRecord_new junk attr in_kernel pid tid addr len pgoff nm event_id time = Inr r
    \<and> Record_Id r = event_id \<and> MmapRecord_parse attr (binary r) = Inr r'
    \<and> Record_Id r' = from_le (map junk [length (binary r) - 8..<length (binary r)])
    \<and> mmap_data r' = mmap_data r \<and> mmap_filename r' = nm"
proof -
  obtain r where r: "MmapRecord_new junk attr in_kernel pid tid addr len pgoff nm event_id time = Inr r"
    "mmap_filename r = nm" "sample_id r = new_sid attr event_id time" "reads_back (MmapRecord_parse attr) r (resampled junk r)"
    using MmapRecord_new_ok [OF assms(1,2)] by blast
  have "has_identifier (new_sid attr event_id time)"
    using assms(3,4) by (simp add: has_identifier_def new_sid_def)
  moreover have "MmapRecord_parse attr (binary r @ []) = Inr ((resampled junk r)\<lparr>binary := binary r @ [], own_binary := False\<rparr>)"
    "length (binary r) = unat (rh_size (header r))"
    using r(4) unfolding reads_back_def by blast+
  ultimately show ?thesis
    using r by (simp add: Record_Id_def resampled_def SampleId_reread_def) (simp add: new_sid_def)
qed

theorem mmap_identifier_lost_witness:
  "\<exists>r r'. MmapRecord_new (\<lambda>_. 0xAA) \<lparr>attr_sample_type = PERF_SAMPLE_IDENTIFIER, attr_sample_id_all = True, attr_sample_regs_user = 0\<rparr>
      False 1 2 0x1000 0x100 0 [0x61, 0x62] 7 0 = Inr r
    \<and> Record_Id r = 7
    \<and> MmapRecord_parse \<lparr>attr_sample_type = PERF_SAMPLE_IDENTIFIER, attr_sample_id_all = True, attr_sample_regs_user = 0\<rparr> (binary r) = Inr r'
    \<and> Record_Id r' = from_le (map (\<lambda>_. 0xAA) [length (binary r) - 8..<length (binary r)])
    \<and> mmap_data r' = mmap_data r \<and> mmap_filename r' = [0x61, 0x62]"
  by (rule mmap_identifier_lost) (simp_all add: flag_def)

section \<open>Buffers of records\<close>

lemma RecordHeader_parse_take:
  assumes "8 \<le> k" and "8 \<le> length p"
  shows "RecordHeader_parse (take k p) = RecordHeader_parse p"
proof -
  have k: "4 \<le> k" "2 \<le> k - 4" "2 \<le> k - 4 - 2"
    using assms(1) by simp_all
  then show ?thesis
    using assms(2) by (simp add: RecordHeader_parse_def get_u32_def get_u16_def get_bytes_def drop_take min_def)
qed

lemma ReadRecordsFromBuffer_truncated:
  assumes "readable attr w r" and "8 \<le> k" and "k < length (any_binary w)"
  shows "ReadRecordsFromBuffer uninit attr (take k (any_binary w)) = Inl CHECK_failed"
proof -
  have "RecordHeader_parse (any_binary w @ []) = Inr (any_header w)"
    using assms(1) unfolding readable_def by blast
  then have "RecordHeader_parse (take k (any_binary w)) = Inr (any_header w)"
    using assms(2,3) by (simp add: RecordHeader_parse_take)
  then show ?thesis
    using assms by (subst ReadRecordsFromBuffer.simps) (auto simp: readable_def)
qed

text \<open>C27 Truncated buffers: take a buffer of records that were made by the constructors, from arguments
  that fit, of the twelve classes \<open>built\<close> lists (mmap, mmap2, comm, fork, sample, dso, symbol, kernel
  symbol, tracing data, event id, callchain and unwinding result). When its last record is cut
  anywhere behind its eight byte header, \<open>ReadRecordsFromBuffer\<close> stops at its \<^verbatim>\<open>CHECK\<close> instead of
  reading behind the buffer.\<close>

theorem record_stream_truncated:
  assumes "list_all2 (built attr) ws rs" and "built attr w r" and "8 \<le> k" and "k < length (any_binary w)"
  shows "ReadRecordsFromBuffer uninit attr (concat (map any_binary ws) @ take k (any_binary w)) = Inl CHECK_failed"
  using assms(1)
proof (induction rule: list_all2_induct)
  case Nil
  show ?case
    using ReadRecordsFromBuffer_truncated [OF built_readable [OF assms(2)] assms(3,4)] by simp
next
  case (Cons x xs y ys)
  then show ?case
    using ReadRecordsFromBuffer_Cons [OF built_readable [OF Cons.hyps(1)]] by simp
qed

definition ex_result :: UnwindingResult where
  "ex_result = \<lparr>ur_used_time = 1, ur_stop_reason = 2, ur_stop_info = 3, ur_stack_start = 4, ur_stack_end = 5\<rparr>"

lemma ex_dso_unwinding:
  obtains d u where "DsoRecord_new (\<lambda>_. 0xAA) 1 2 [0x6c, 0x69, 0x62] 0x1000 = Inr d"
    and "UnwindingResultRecord_new (\<lambda>_. 0xAA) 9 ex_result = Inr u"
    and "built attr (RDso d) (\<lambda>_. RDso d)" and "built attr (RUnwindingResult u) (\<lambda>_. RUnwindingResult u)"
    and "length (binary d) = unat (rh_size (header d))" and "20 < length (binary u)"
proof -
  have nm: "0 \<notin> set [0x6c, 0x69, 0x62 :: u8]" "length [0x6c, 0x69, 0x62 :: u8] < 2 ^ 32 - 64"
    by simp_all
  obtain d where d: "DsoRecord_new (\<lambda>_. 0xAA) 1 2 [0x6c, 0x69, 0x62] 0x1000 = Inr d" "reads_back DsoRecord_parse d d"
    using DsoRecord_new_ok [OF nm] by blast
  obtain u where u: "UnwindingResultRecord_new (\<lambda>_. 0xAA) 9 ex_result = Inr u"
    using UnwindingResultRecord_new_ok by blast
  have "(case UnwindingResultRecord_new (\<lambda>_. 0xAA) 9 ex_result of Inl _ \<Rightarrow> False | Inr u \<Rightarrow> 20 < length (binary u))"
    by code_simp
  then have "20 < length (binary u)"
    using u by simp
  then show ?thesis
    using that [OF d(1) u built_dso [OF d(1) nm] built_unwinding_result [OF u]] d(2) by (simp add: reads_back_def)
qed

theorem record_stream_truncated_witness:
  "\<exists>d u. DsoRecord_new (\<lambda>_. 0xAA) 1 2 [0x6c, 0x69, 0x62] 0x1000 = Inr d \<and> UnwindingResultRecord_new (\<lambda>_. 0xAA) 9 ex_result = Inr u
    \<and> ReadRecordsFromBuffer (\<lambda>_. ex_object) ex_attr (binary d @ take 20 (binary u)) = Inl CHECK_failed"
proof -
  obtain d u where du: "DsoRecord_new (\<lambda>_. 0xAA) 1 2 [0x6c, 0x69, 0x62] 0x1000 = Inr d"
    "UnwindingResultRecord_new (\<lambda>_. 0xAA) 9 ex_result = Inr u"
    "built ex_attr (RDso d) (\<lambda>_. RDso d)" "built ex_attr (RUnwindingResult u) (\<lambda>_. RUnwindingResult u)" "20 < length (binary u)"
    by (rule ex_dso_unwinding)
  then show ?thesis
    using record_stream_truncated [of ex_attr "[RDso d]" "[\<lambda>_. RDso d]" "RUnwindingResult u" "\<lambda>_. RUnwindingResult u" 20 "\<lambda>_. ex_object"]
    by simp
qed



section \<open>The cache\<close>

definition ex_record :: "u64 \<Rightarrow> AnyRecord" where
  "ex_record t = RUnknown (Record.extend (Record_init\<lparr>sample_id := SampleId_init\<lparr>sid_time := t\<rparr>\<rparr>) (UnknownRecord.fields []))"

lemma ex_record_simps [simp]: "any_Timestamp (ex_record t) = t" "any_type (ex_record t) \<noteq> PERF_RECORD_SAMPLE"
  by (simp_all add: ex_record_def any_type_def Record_Timestamp_def Record_init_def RecordHeader_zero_def
      Record.extend_def UnknownRecord.fields_def)

text \<open>C20 Draining the cache: records pushed into a fresh cache come out of \<open>PopAll\<close> in the stable
  sort by time, with samples after other records of the same time, as long as the 32 bit sequence
  number does not wrap.\<close>

theorem cache_pop_all_sorts:
  assumes "length rs \<le> 2 ^ 32"
  shows "fst (PopAll (Push_all rs (RecordCache_init ts n d)))
    = sort_key (\<lambda>r. (any_Timestamp r, any_type r = PERF_RECORD_SAMPLE)) rs"
  using PopAll_init [OF assms, of ts n d] by (simp add: order_key_def [abs_def])

theorem cache_pop_all_sorts_witness:
  "fst (PopAll (Push_all [ex_record 3, ex_record 1, ex_record 2] (RecordCache_init True 2 1)))
    = [ex_record 1, ex_record 2, ex_record 3]"
  using cache_pop_all_sorts [of "[ex_record 3, ex_record 1, ex_record 2]" True 2 1] by (simp add: word_le_nat_alt)

text \<open>C6 Streaming through the cache: take a fresh cache for records with timestamps, with a positive
  \<open>min_cache_size\<close>, and any interleaving of \<open>Push\<close> and \<open>Pop\<close> in which every record is, when it arrives,
  at most \<open>min_time_diff_in_ns\<close> older than the newest one seen, and its time plus \<open>min_time_diff_in_ns\<close>
  does not wrap in 64 bits. Then \<open>Pop\<close> never fails, the records it delivers are in the order of their time,
  and every record is delivered or still in the cache, exactly once.\<close>

theorem cache_streams_in_order:
  assumes "0 < n" and "timely_ops ops (RecordCache_init True n d)"
  shows "\<exists>out c. run_cache ops (RecordCache_init True n d) = Inr (out, c) \<and> sorted (map any_Timestamp out)
    \<and> mset out + mset (map rs_record (cache_queue c)) = mset (pushed ops)"
proof -
  have "cache_inv 0 (RecordCache_init True n d)"
    using assms(1) by (simp add: cache_inv_def RecordCache_init_def)
  then show ?thesis
    using run_cache_sorted [OF _ assms(2)] by (fastforce simp: RecordCache_init_def)
qed

definition ex_ops :: "CacheOp list" where
  "ex_ops = [OpPush (ex_record 20), OpPop, OpPush (ex_record 15), OpPush (ex_record 40), OpPop, OpPop, OpPop]"

theorem cache_streams_in_order_witness:
  "\<exists>out c. run_cache ex_ops (RecordCache_init True 1 10) = Inr (out, c) \<and> map any_Timestamp out = [15, 20]
    \<and> mset out + mset (map rs_record (cache_queue c)) = mset [ex_record 20, ex_record 15, ex_record 40]"
proof -
  have ok: "timely_ops ex_ops (RecordCache_init True 1 10)"
    by (simp add: ex_ops_def timely_def Pop_def Let_def RecordCache_init_def Push_def queue_push_def queue_pop_def
        RecordComparator_def IsHappensBefore_def word_less_nat_alt max_def word_le_nat_alt)
  have "(case run_cache ex_ops (RecordCache_init True 1 10) of Inl _ \<Rightarrow> False | Inr (out, _) \<Rightarrow> map any_Timestamp out = [15, 20])"
    by code_simp
  moreover have "pushed ex_ops = [ex_record 20, ex_record 15, ex_record 40]"
    by (simp add: ex_ops_def)
  ultimately show ?thesis
    using cache_streams_in_order [OF _ ok] by fastforce
qed

end
