(* ===== verification/Lookup3.thy ===== *)
theory Lookup3
  imports Prelude
begin

text \<open>
  The hash functions of \<^verbatim>\<open>ksmutils/lookup3.c\<close>. A key in memory is a function from the offset to the
  byte (or the word) there: the functions read beyond the last byte of the key when they read
  whole words, so the memory around the key is part of the model. \<open>byte_order\<close> stands for the
  preprocessor's choice of \<open>HASH_LITTLE_ENDIAN\<close> and \<open>HASH_BIG_ENDIAN\<close>, the flag \<open>valgrind\<close> for the
  macro \<^verbatim>\<open>VALGRIND\<close>, and \<open>addr\<close> is the address of the key, which decides how it is read.
\<close>

type_synonym mem = "nat \<Rightarrow> u8"
type_synonym hstate = "u32 \<times> u32 \<times> u32"

datatype byte_order = LITTLE_ENDIAN | BIG_ENDIAN | UNKNOWN_ENDIAN

definition HASH_LITTLE_ENDIAN :: "byte_order \<Rightarrow> bool" where
  "HASH_LITTLE_ENDIAN e \<longleftrightarrow> e = LITTLE_ENDIAN"

definition HASH_BIG_ENDIAN :: "byte_order \<Rightarrow> bool" where
  "HASH_BIG_ENDIAN e \<longleftrightarrow> e = BIG_ENDIAN"

section \<open>Mixing\<close>

definition rot :: "u32 \<Rightarrow> nat \<Rightarrow> u32" where
  "rot x k = push_bit k x OR drop_bit (32 - k) x"

definition mix :: "hstate \<Rightarrow> hstate" where
  "mix = (\<lambda>(a, b, c).
     let a = a - c; a = a XOR rot c 4; c = c + b;
         b = b - a; b = b XOR rot a 6; a = a + c;
         c = c - b; c = c XOR rot b 8; b = b + a;
         a = a - c; a = a XOR rot c 16; c = c + b;
         b = b - a; b = b XOR rot a 19; a = a + c;
         c = c - b; c = c XOR rot b 4; b = b + a
     in (a, b, c))"

definition final :: "hstate \<Rightarrow> hstate" where
  "final = (\<lambda>(a, b, c).
     let c = c XOR b; c = c - rot b 14;
         a = a XOR c; a = a - rot c 11;
         b = b XOR a; b = b - rot a 25;
         c = c XOR b; c = c - rot b 16;
         a = a XOR c; a = a - rot c 4;
         b = b XOR a; b = b - rot a 14;
         c = c XOR b; c = c - rot b 24
     in (a, b, c))"

section \<open>Hashing words\<close>

text \<open>\<open>k\<close> is the array from its start, \<open>off\<close> the distance the pointer has moved.\<close>

function word_loop :: "(nat \<Rightarrow> u32) \<Rightarrow> nat \<Rightarrow> nat \<Rightarrow> hstate \<Rightarrow> nat \<times> nat \<times> hstate" where
  "word_loop k off len (a, b, c) =
     (if len > 3
      then word_loop k (off + 3) (len - 3) (mix (a + k off, b + k (off + 1), c + k (off + 2)))
      else (off, len, (a, b, c)))"
  by pat_completeness auto
termination
  by (relation "measure (\<lambda>(k, off, len, s). len)") auto

definition word_tail :: "(nat \<Rightarrow> u32) \<Rightarrow> nat \<Rightarrow> nat \<Rightarrow> hstate \<Rightarrow> hstate" where
  "word_tail k off len = (\<lambda>(a, b, c).
     let c = (if len \<ge> 3 then c + k (off + 2) else c);
         b = (if len \<ge> 2 then b + k (off + 1) else b);
         a = (if len \<ge> 1 then a + k off else a)
     in if len \<ge> 1 then final (a, b, c) else (a, b, c))"

definition hashword :: "(nat \<Rightarrow> u32) \<Rightarrow> nat \<Rightarrow> u32 \<Rightarrow> u32" where
  "hashword k len initval =
     (let i = 0xdeadbeef + push_bit 2 (of_nat len) + initval;
          (off, len, s) = word_loop k 0 len (i, i, i);
          (a, b, c) = word_tail k off len s
      in c)"

text \<open>\<open>hashword2\<close> has a loop and a switch of its own; its value is what it leaves in \<open>*pc\<close> and \<open>*pb\<close>.\<close>

function word_loop2 :: "(nat \<Rightarrow> u32) \<Rightarrow> nat \<Rightarrow> nat \<Rightarrow> hstate \<Rightarrow> nat \<times> nat \<times> hstate" where
  "word_loop2 k off len (a, b, c) =
     (if len > 3
      then word_loop2 k (off + 3) (len - 3) (mix (a + k off, b + k (off + 1), c + k (off + 2)))
      else (off, len, (a, b, c)))"
  by pat_completeness auto
termination
  by (relation "measure (\<lambda>(k, off, len, s). len)") auto

definition word_tail2 :: "(nat \<Rightarrow> u32) \<Rightarrow> nat \<Rightarrow> nat \<Rightarrow> hstate \<Rightarrow> hstate" where
  "word_tail2 k off len = (\<lambda>(a, b, c).
     let c = (if len \<ge> 3 then c + k (off + 2) else c);
         b = (if len \<ge> 2 then b + k (off + 1) else b);
         a = (if len \<ge> 1 then a + k off else a)
     in if len \<ge> 1 then final (a, b, c) else (a, b, c))"

definition hashword2 :: "(nat \<Rightarrow> u32) \<Rightarrow> nat \<Rightarrow> u32 \<Rightarrow> u32 \<Rightarrow> u32 \<times> u32" where
  "hashword2 k len pc pb =
     (let i = 0xdeadbeef + ucast (push_bit 2 (of_nat len :: u64)) + pc;
          (off, len, s) = word_loop2 k 0 len (i, i, i + pb);
          (a, b, c) = word_tail2 k off len s
      in (c, b))"

section \<open>Hashing bytes\<close>

definition load16 :: "byte_order \<Rightarrow> mem \<Rightarrow> nat \<Rightarrow> u32" where
  "load16 e m i = (if e = BIG_ENDIAN then push_bit 8 (ucast (m i)) OR ucast (m (i + 1))
     else ucast (m i) OR push_bit 8 (ucast (m (i + 1))))"

definition load32 :: "byte_order \<Rightarrow> mem \<Rightarrow> nat \<Rightarrow> u32" where
  "load32 e m i = (if e = BIG_ENDIAN then from_le [m (i + 3), m (i + 2), m (i + 1), m i]
     else from_le [m i, m (i + 1), m (i + 2), m (i + 3)])"

text \<open>The loops over the blocks of twelve bytes, reading 32, 16 or 8 bits at a time.\<close>

function loop32 :: "byte_order \<Rightarrow> mem \<Rightarrow> nat \<Rightarrow> nat \<Rightarrow> hstate \<Rightarrow> nat \<times> nat \<times> hstate" where
  "loop32 e m off len (a, b, c) =
     (if len > 12
      then loop32 e m (off + 12) (len - 12)
             (mix (a + load32 e m off, b + load32 e m (off + 4), c + load32 e m (off + 8)))
      else (off, len, (a, b, c)))"
  by pat_completeness auto
termination
  by (relation "measure (\<lambda>(e, m, off, len, s). len)") auto

function loop16 :: "byte_order \<Rightarrow> mem \<Rightarrow> nat \<Rightarrow> nat \<Rightarrow> hstate \<Rightarrow> nat \<times> nat \<times> hstate" where
  "loop16 e m off len (a, b, c) =
     (if len > 12
      then loop16 e m (off + 12) (len - 12)
             (mix (a + (load16 e m off + push_bit 16 (load16 e m (off + 2))),
                   b + (load16 e m (off + 4) + push_bit 16 (load16 e m (off + 6))),
                   c + (load16 e m (off + 8) + push_bit 16 (load16 e m (off + 10)))))
      else (off, len, (a, b, c)))"
  by pat_completeness auto
termination
  by (relation "measure (\<lambda>(e, m, off, len, s). len)") auto

definition byte_at :: "mem \<Rightarrow> nat \<Rightarrow> nat \<Rightarrow> u32" where
  "byte_at m i n = push_bit n (ucast (m i))"

function loop8 :: "mem \<Rightarrow> nat \<Rightarrow> nat \<Rightarrow> hstate \<Rightarrow> nat \<times> nat \<times> hstate" where
  "loop8 m off len (a, b, c) =
     (if len > 12
      then let a = a + byte_at m off 0; a = a + byte_at m (off + 1) 8;
               a = a + byte_at m (off + 2) 16; a = a + byte_at m (off + 3) 24;
               b = b + byte_at m (off + 4) 0; b = b + byte_at m (off + 5) 8;
               b = b + byte_at m (off + 6) 16; b = b + byte_at m (off + 7) 24;
               c = c + byte_at m (off + 8) 0; c = c + byte_at m (off + 9) 8;
               c = c + byte_at m (off + 10) 16; c = c + byte_at m (off + 11) 24
           in loop8 m (off + 12) (len - 12) (mix (a, b, c))
      else (off, len, (a, b, c)))"
  by pat_completeness auto
termination
  by (relation "measure (\<lambda>(m, off, len, s). len)") auto

text \<open>
  The switches on the length of the last block. Where a case falls through to the next, the
  statement of case \<open>n\<close> runs for every length that is at least \<open>n\<close>.
\<close>

definition tail32 :: "byte_order \<Rightarrow> mem \<Rightarrow> nat \<Rightarrow> nat \<Rightarrow> hstate \<Rightarrow> hstate" where
  "tail32 e m off len = (\<lambda>(a, b, c).
     let k0 = load32 e m off; k1 = load32 e m (off + 4); k2 = load32 e m (off + 8) in
     if len = 12 then (a + k0, b + k1, c + k2)
     else if len = 11 then (a + k0, b + k1, c + (k2 AND 0xffffff))
     else if len = 10 then (a + k0, b + k1, c + (k2 AND 0xffff))
     else if len = 9 then (a + k0, b + k1, c + (k2 AND 0xff))
     else if len = 8 then (a + k0, b + k1, c)
     else if len = 7 then (a + k0, b + (k1 AND 0xffffff), c)
     else if len = 6 then (a + k0, b + (k1 AND 0xffff), c)
     else if len = 5 then (a + k0, b + (k1 AND 0xff), c)
     else if len = 4 then (a + k0, b, c)
     else if len = 3 then (a + (k0 AND 0xffffff), b, c)
     else if len = 2 then (a + (k0 AND 0xffff), b, c)
     else if len = 1 then (a + (k0 AND 0xff), b, c)
     else (a, b, c))"

text \<open>The same switch with the macro \<^verbatim>\<open>VALGRIND\<close>: no read goes beyond the key.\<close>

definition tail32_valgrind :: "byte_order \<Rightarrow> mem \<Rightarrow> nat \<Rightarrow> nat \<Rightarrow> hstate \<Rightarrow> hstate" where
  "tail32_valgrind e m off len = (\<lambda>(a, b, c).
     let k0 = load32 e m off; k1 = load32 e m (off + 4); k2 = load32 e m (off + 8) in
     if len = 12 then (a + k0, b + k1, c + k2)
     else if len \<ge> 8
     then let c = (if len \<ge> 11 then c + byte_at m (off + 10) 16 else c);
              c = (if len \<ge> 10 then c + byte_at m (off + 9) 8 else c);
              c = (if len \<ge> 9 then c + byte_at m (off + 8) 0 else c)
          in (a + k0, b + k1, c)
     else if len \<ge> 4
     then let b = (if len \<ge> 7 then b + byte_at m (off + 6) 16 else b);
              b = (if len \<ge> 6 then b + byte_at m (off + 5) 8 else b);
              b = (if len \<ge> 5 then b + byte_at m (off + 4) 0 else b)
          in (a + k0, b, c)
     else let a = (if len \<ge> 3 then a + byte_at m (off + 2) 16 else a);
              a = (if len \<ge> 2 then a + byte_at m (off + 1) 8 else a);
              a = (if len \<ge> 1 then a + byte_at m off 0 else a)
          in (a, b, c))"

definition tail16 :: "byte_order \<Rightarrow> mem \<Rightarrow> nat \<Rightarrow> nat \<Rightarrow> hstate \<Rightarrow> hstate" where
  "tail16 e m off len = (\<lambda>(a, b, c).
     let k = (\<lambda>i. load16 e m (off + 2 * i));
         a4 = a + (k 0 + push_bit 16 (k 1));
         b4 = b + (k 2 + push_bit 16 (k 3))
     in if len = 12 then (a4, b4, c + (k 4 + push_bit 16 (k 5)))
        else if len = 11 then (a4, b4, c + byte_at m (off + 10) 16 + k 4)
        else if len = 10 then (a4, b4, c + k 4)
        else if len = 9 then (a4, b4, c + byte_at m (off + 8) 0)
        else if len = 8 then (a4, b4, c)
        else if len = 7 then (a4, b + byte_at m (off + 6) 16 + k 2, c)
        else if len = 6 then (a4, b + k 2, c)
        else if len = 5 then (a4, b + byte_at m (off + 4) 0, c)
        else if len = 4 then (a4, b, c)
        else if len = 3 then (a + byte_at m (off + 2) 16 + k 0, b, c)
        else if len = 2 then (a + k 0, b, c)
        else if len = 1 then (a + byte_at m off 0, b, c)
        else (a, b, c))"

definition tail8 :: "mem \<Rightarrow> nat \<Rightarrow> nat \<Rightarrow> hstate \<Rightarrow> hstate" where
  "tail8 m off len = (\<lambda>(a, b, c).
     let add = (\<lambda>n i s x. if len \<ge> n then x + byte_at m (off + i) s else x)
     in (add 1 0 0 (add 2 1 8 (add 3 2 16 (add 4 3 24 a))),
         add 5 4 0 (add 6 5 8 (add 7 6 16 (add 8 7 24 b))),
         add 9 8 0 (add 10 9 8 (add 11 10 16 (add 12 11 24 c)))))"

text \<open>The body of \<open>hashlittle\<close>, from the initial state to the last one.\<close>

definition little_run :: "byte_order \<Rightarrow> bool \<Rightarrow> u64 \<Rightarrow> mem \<Rightarrow> nat \<Rightarrow> hstate \<Rightarrow> hstate" where
  "little_run e valgrind addr m len s =
     (let (len', s') =
        (if HASH_LITTLE_ENDIAN e \<and> addr AND 0x3 = 0
         then let (off, len, s) = loop32 e m 0 len s
              in (len, if valgrind then tail32_valgrind e m off len s else tail32 e m off len s)
         else if HASH_LITTLE_ENDIAN e \<and> addr AND 0x1 = 0
         then let (off, len, s) = loop16 e m 0 len s in (len, tail16 e m off len s)
         else let (off, len, s) = loop8 m 0 len s in (len, tail8 m off len s))
      in if len' = 0 then s' else final s')"

definition hashlittle :: "byte_order \<Rightarrow> bool \<Rightarrow> u64 \<Rightarrow> mem \<Rightarrow> nat \<Rightarrow> u32 \<Rightarrow> u32" where
  "hashlittle e valgrind addr m len initval =
     (let i = 0xdeadbeef + of_nat len + initval;
          (a, b, c) = little_run e valgrind addr m len (i, i, i)
      in c)"

section \<open>The variant with two results\<close>

text \<open>
  \<open>hashlittle2\<close> repeats the loops and the switches of \<open>hashlittle\<close>; they are translated from its own lines.
\<close>

function loop32_2 :: "byte_order \<Rightarrow> mem \<Rightarrow> nat \<Rightarrow> nat \<Rightarrow> hstate \<Rightarrow> nat \<times> nat \<times> hstate" where
  "loop32_2 e m off len (a, b, c) =
     (if len > 12
      then loop32_2 e m (off + 12) (len - 12)
             (mix (a + load32 e m off, b + load32 e m (off + 4), c + load32 e m (off + 8)))
      else (off, len, (a, b, c)))"
  by pat_completeness auto
termination
  by (relation "measure (\<lambda>(e, m, off, len, s). len)") auto

definition tail32_2 :: "byte_order \<Rightarrow> mem \<Rightarrow> nat \<Rightarrow> nat \<Rightarrow> hstate \<Rightarrow> hstate" where
  "tail32_2 e m off len = (\<lambda>(a, b, c).
     let k0 = load32 e m off; k1 = load32 e m (off + 4); k2 = load32 e m (off + 8) in
     if len = 12 then (a + k0, b + k1, c + k2)
     else if len = 11 then (a + k0, b + k1, c + (k2 AND 0xffffff))
     else if len = 10 then (a + k0, b + k1, c + (k2 AND 0xffff))
     else if len = 9 then (a + k0, b + k1, c + (k2 AND 0xff))
     else if len = 8 then (a + k0, b + k1, c)
     else if len = 7 then (a + k0, b + (k1 AND 0xffffff), c)
     else if len = 6 then (a + k0, b + (k1 AND 0xffff), c)
     else if len = 5 then (a + k0, b + (k1 AND 0xff), c)
     else if len = 4 then (a + k0, b, c)
     else if len = 3 then (a + (k0 AND 0xffffff), b, c)
     else if len = 2 then (a + (k0 AND 0xffff), b, c)
     else if len = 1 then (a + (k0 AND 0xff), b, c)
     else (a, b, c))"

definition tail32_valgrind_2 :: "byte_order \<Rightarrow> mem \<Rightarrow> nat \<Rightarrow> nat \<Rightarrow> hstate \<Rightarrow> hstate" where
  "tail32_valgrind_2 e m off len = (\<lambda>(a, b, c).
     let k0 = load32 e m off; k1 = load32 e m (off + 4); k2 = load32 e m (off + 8) in
     if len = 12 then (a + k0, b + k1, c + k2)
     else if len \<ge> 8
     then let c = (if len \<ge> 11 then c + byte_at m (off + 10) 16 else c);
              c = (if len \<ge> 10 then c + byte_at m (off + 9) 8 else c);
              c = (if len \<ge> 9 then c + byte_at m (off + 8) 0 else c)
          in (a + k0, b + k1, c)
     else if len \<ge> 4
     then let b = (if len \<ge> 7 then b + byte_at m (off + 6) 16 else b);
              b = (if len \<ge> 6 then b + byte_at m (off + 5) 8 else b);
              b = (if len \<ge> 5 then b + byte_at m (off + 4) 0 else b)
          in (a + k0, b, c)
     else let a = (if len \<ge> 3 then a + byte_at m (off + 2) 16 else a);
              a = (if len \<ge> 2 then a + byte_at m (off + 1) 8 else a);
              a = (if len \<ge> 1 then a + byte_at m off 0 else a)
          in (a, b, c))"

function loop16_2 :: "byte_order \<Rightarrow> mem \<Rightarrow> nat \<Rightarrow> nat \<Rightarrow> hstate \<Rightarrow> nat \<times> nat \<times> hstate" where
  "loop16_2 e m off len (a, b, c) =
     (if len > 12
      then loop16_2 e m (off + 12) (len - 12)
             (mix (a + (load16 e m off + push_bit 16 (load16 e m (off + 2))),
                   b + (load16 e m (off + 4) + push_bit 16 (load16 e m (off + 6))),
                   c + (load16 e m (off + 8) + push_bit 16 (load16 e m (off + 10)))))
      else (off, len, (a, b, c)))"
  by pat_completeness auto
termination
  by (relation "measure (\<lambda>(e, m, off, len, s). len)") auto

definition tail16_2 :: "byte_order \<Rightarrow> mem \<Rightarrow> nat \<Rightarrow> nat \<Rightarrow> hstate \<Rightarrow> hstate" where
  "tail16_2 e m off len = (\<lambda>(a, b, c).
     let k = (\<lambda>i. load16 e m (off + 2 * i));
         a4 = a + (k 0 + push_bit 16 (k 1));
         b4 = b + (k 2 + push_bit 16 (k 3))
     in if len = 12 then (a4, b4, c + (k 4 + push_bit 16 (k 5)))
        else if len = 11 then (a4, b4, c + byte_at m (off + 10) 16 + k 4)
        else if len = 10 then (a4, b4, c + k 4)
        else if len = 9 then (a4, b4, c + byte_at m (off + 8) 0)
        else if len = 8 then (a4, b4, c)
        else if len = 7 then (a4, b + byte_at m (off + 6) 16 + k 2, c)
        else if len = 6 then (a4, b + k 2, c)
        else if len = 5 then (a4, b + byte_at m (off + 4) 0, c)
        else if len = 4 then (a4, b, c)
        else if len = 3 then (a + byte_at m (off + 2) 16 + k 0, b, c)
        else if len = 2 then (a + k 0, b, c)
        else if len = 1 then (a + byte_at m off 0, b, c)
        else (a, b, c))"

function loop8_2 :: "mem \<Rightarrow> nat \<Rightarrow> nat \<Rightarrow> hstate \<Rightarrow> nat \<times> nat \<times> hstate" where
  "loop8_2 m off len (a, b, c) =
     (if len > 12
      then let a = a + byte_at m off 0; a = a + byte_at m (off + 1) 8;
               a = a + byte_at m (off + 2) 16; a = a + byte_at m (off + 3) 24;
               b = b + byte_at m (off + 4) 0; b = b + byte_at m (off + 5) 8;
               b = b + byte_at m (off + 6) 16; b = b + byte_at m (off + 7) 24;
               c = c + byte_at m (off + 8) 0; c = c + byte_at m (off + 9) 8;
               c = c + byte_at m (off + 10) 16; c = c + byte_at m (off + 11) 24
           in loop8_2 m (off + 12) (len - 12) (mix (a, b, c))
      else (off, len, (a, b, c)))"
  by pat_completeness auto
termination
  by (relation "measure (\<lambda>(m, off, len, s). len)") auto

definition tail8_2 :: "mem \<Rightarrow> nat \<Rightarrow> nat \<Rightarrow> hstate \<Rightarrow> hstate" where
  "tail8_2 m off len = (\<lambda>(a, b, c).
     let add = (\<lambda>n i s x. if len \<ge> n then x + byte_at m (off + i) s else x)
     in (add 1 0 0 (add 2 1 8 (add 3 2 16 (add 4 3 24 a))),
         add 5 4 0 (add 6 5 8 (add 7 6 16 (add 8 7 24 b))),
         add 9 8 0 (add 10 9 8 (add 11 10 16 (add 12 11 24 c)))))"

definition hashlittle2 :: "byte_order \<Rightarrow> bool \<Rightarrow> u64 \<Rightarrow> mem \<Rightarrow> nat \<Rightarrow> u32 \<Rightarrow> u32 \<Rightarrow> u32 \<times> u32" where
  "hashlittle2 e valgrind addr m len pc pb =
     (let i = 0xdeadbeef + of_nat len + pc;
          (len', s') =
            (if HASH_LITTLE_ENDIAN e \<and> addr AND 0x3 = 0
             then let (off, len, s) = loop32_2 e m 0 len (i, i, i + pb)
                  in (len, if valgrind then tail32_valgrind_2 e m off len s else tail32_2 e m off len s)
             else if HASH_LITTLE_ENDIAN e \<and> addr AND 0x1 = 0
             then let (off, len, s) = loop16_2 e m 0 len (i, i, i + pb) in (len, tail16_2 e m off len s)
             else let (off, len, s) = loop8_2 m 0 len (i, i, i + pb) in (len, tail8_2 m off len s));
          (a, b, c) = (if len' = 0 then s' else final s')
      in (c, b))"

section \<open>The big-endian variant\<close>

function loop32_big :: "byte_order \<Rightarrow> mem \<Rightarrow> nat \<Rightarrow> nat \<Rightarrow> hstate \<Rightarrow> nat \<times> nat \<times> hstate" where
  "loop32_big e m off len (a, b, c) =
     (if len > 12
      then loop32_big e m (off + 12) (len - 12)
             (mix (a + load32 e m off, b + load32 e m (off + 4), c + load32 e m (off + 8)))
      else (off, len, (a, b, c)))"
  by pat_completeness auto
termination
  by (relation "measure (\<lambda>(e, m, off, len, s). len)") auto

function loop8_big :: "mem \<Rightarrow> nat \<Rightarrow> nat \<Rightarrow> hstate \<Rightarrow> nat \<times> nat \<times> hstate" where
  "loop8_big m off len (a, b, c) =
     (if len > 12
      then let a = a + byte_at m off 24; a = a + byte_at m (off + 1) 16;
               a = a + byte_at m (off + 2) 8; a = a + byte_at m (off + 3) 0;
               b = b + byte_at m (off + 4) 24; b = b + byte_at m (off + 5) 16;
               b = b + byte_at m (off + 6) 8; b = b + byte_at m (off + 7) 0;
               c = c + byte_at m (off + 8) 24; c = c + byte_at m (off + 9) 16;
               c = c + byte_at m (off + 10) 8; c = c + byte_at m (off + 11) 0
           in loop8_big m (off + 12) (len - 12) (mix (a, b, c))
      else (off, len, (a, b, c)))"
  by pat_completeness auto
termination
  by (relation "measure (\<lambda>(m, off, len, s). len)") auto

definition tail32_big :: "byte_order \<Rightarrow> mem \<Rightarrow> nat \<Rightarrow> nat \<Rightarrow> hstate \<Rightarrow> hstate" where
  "tail32_big e m off len = (\<lambda>(a, b, c).
     let k0 = load32 e m off; k1 = load32 e m (off + 4); k2 = load32 e m (off + 8) in
     if len = 12 then (a + k0, b + k1, c + k2)
     else if len = 11 then (a + k0, b + k1, c + (k2 AND 0xffffff00))
     else if len = 10 then (a + k0, b + k1, c + (k2 AND 0xffff0000))
     else if len = 9 then (a + k0, b + k1, c + (k2 AND 0xff000000))
     else if len = 8 then (a + k0, b + k1, c)
     else if len = 7 then (a + k0, b + (k1 AND 0xffffff00), c)
     else if len = 6 then (a + k0, b + (k1 AND 0xffff0000), c)
     else if len = 5 then (a + k0, b + (k1 AND 0xff000000), c)
     else if len = 4 then (a + k0, b, c)
     else if len = 3 then (a + (k0 AND 0xffffff00), b, c)
     else if len = 2 then (a + (k0 AND 0xffff0000), b, c)
     else if len = 1 then (a + (k0 AND 0xff000000), b, c)
     else (a, b, c))"

definition tail32_big_valgrind :: "byte_order \<Rightarrow> mem \<Rightarrow> nat \<Rightarrow> nat \<Rightarrow> hstate \<Rightarrow> hstate" where
  "tail32_big_valgrind e m off len = (\<lambda>(a, b, c).
     let k0 = load32 e m off; k1 = load32 e m (off + 4); k2 = load32 e m (off + 8) in
     if len = 12 then (a + k0, b + k1, c + k2)
     else if len \<ge> 8
     then let c = (if len \<ge> 11 then c + byte_at m (off + 10) 8 else c);
              c = (if len \<ge> 10 then c + byte_at m (off + 9) 16 else c);
              c = (if len \<ge> 9 then c + byte_at m (off + 8) 24 else c)
          in (a + k0, b + k1, c)
     else if len \<ge> 4
     then let b = (if len \<ge> 7 then b + byte_at m (off + 6) 8 else b);
              b = (if len \<ge> 6 then b + byte_at m (off + 5) 16 else b);
              b = (if len \<ge> 5 then b + byte_at m (off + 4) 24 else b)
          in (a + k0, b, c)
     else let a = (if len \<ge> 3 then a + byte_at m (off + 2) 8 else a);
              a = (if len \<ge> 2 then a + byte_at m (off + 1) 16 else a);
              a = (if len \<ge> 1 then a + byte_at m off 24 else a)
          in (a, b, c))"

definition tail8_big :: "mem \<Rightarrow> nat \<Rightarrow> nat \<Rightarrow> hstate \<Rightarrow> hstate" where
  "tail8_big m off len = (\<lambda>(a, b, c).
     let add = (\<lambda>n i s x. if len \<ge> n then x + byte_at m (off + i) s else x)
     in (add 1 0 24 (add 2 1 16 (add 3 2 8 (add 4 3 0 a))),
         add 5 4 24 (add 6 5 16 (add 7 6 8 (add 8 7 0 b))),
         add 9 8 24 (add 10 9 16 (add 11 10 8 (add 12 11 0 c)))))"

definition hashbig :: "byte_order \<Rightarrow> bool \<Rightarrow> u64 \<Rightarrow> mem \<Rightarrow> nat \<Rightarrow> u32 \<Rightarrow> u32" where
  "hashbig e valgrind addr m len initval =
     (let i = 0xdeadbeef + of_nat len + initval;
          (len', s') =
            (if HASH_BIG_ENDIAN e \<and> addr AND 0x3 = 0
             then let (off, len, s) = loop32_big e m 0 len (i, i, i)
                  in (len, if valgrind then tail32_big_valgrind e m off len s else tail32_big e m off len s)
             else let (off, len, s) = loop8_big m 0 len (i, i, i) in (len, tail8_big m off len s));
          (a, b, c) = (if len' = 0 then s' else final s')
      in c)"

declare word_loop.simps [simp del] loop32.simps [simp del] loop16.simps [simp del] loop8.simps [simp del]
  loop8_big.simps [simp del] loop32_big.simps [simp del] word_loop2.simps [simp del]
  loop32_2.simps [simp del] loop16_2.simps [simp del] loop8_2.simps [simp del]

section \<open>The reference: blocks of decoded words\<close>

text \<open>
  The hash of a byte string: the state is mixed with blocks of twelve bytes, each the three words
  that a decoder \<open>dec\<close> makes of four bytes, or of what is left of them at the end.
\<close>

definition key_bytes :: "mem \<Rightarrow> nat \<Rightarrow> nat \<Rightarrow> bytes" where
  "key_bytes m off n = map (\<lambda>i. m (off + i)) [0..<n]"

definition add_block :: "(bytes \<Rightarrow> u32) \<Rightarrow> hstate \<Rightarrow> bytes \<Rightarrow> hstate" where
  "add_block dec s bs = (case s of (a, b, c) \<Rightarrow>
     (a + dec (take 4 bs), b + dec (take 4 (drop 4 bs)), c + dec (take 4 (drop 8 bs))))"

function block_hash :: "(bytes \<Rightarrow> u32) \<Rightarrow> hstate \<Rightarrow> bytes \<Rightarrow> hstate" where
  "block_hash dec s bs =
     (if length bs > 12 then block_hash dec (mix (add_block dec s (take 12 bs))) (drop 12 bs)
      else if bs = [] then s else final (add_block dec s bs))"
  by pat_completeness auto
termination
  by (relation "measure (\<lambda>(_, _, bs). length bs)") auto

declare block_hash.simps [simp del]

definition from_be :: "bytes \<Rightarrow> u32" where
  "from_be bs = from_le (rev (bs @ replicate (4 - length bs) 0))"

lemma length_key_bytes [simp]: "length (key_bytes m off n) = n"
  by (simp add: key_bytes_def)

lemma key_bytes_Nil [simp]: "key_bytes m off n = [] \<longleftrightarrow> n = 0"
  by (simp add: key_bytes_def)

lemma take_key_bytes: "k \<le> n \<Longrightarrow> take k (key_bytes m off n) = key_bytes m off k"
  by (simp add: key_bytes_def take_map)

lemma drop_key_bytes: "drop k (key_bytes m off n) = key_bytes m (off + k) (n - k)"
  by (cases "k \<le> n") (auto intro!: nth_equalityI simp: key_bytes_def add.assoc)

lemma key_bytes_0 [simp]: "key_bytes m off 0 = []"
  by simp

lemma add_block_key:
  "add_block dec (a, b, c) (key_bytes m off n)
    = (a + dec (key_bytes m off (min 4 n)), b + dec (key_bytes m (off + 4) (min 4 (n - 4))),
       c + dec (key_bytes m (off + 8) (min 4 (n - 8))))"
proof -
  have "take 4 (key_bytes m i k) = key_bytes m i (min 4 k)" for i k
    by (cases "4 \<le> k") (simp_all add: take_key_bytes min_def)
  then show ?thesis
    by (simp add: add_block_def drop_key_bytes)
qed

lemma add_block_Nil: "dec [] = 0 \<Longrightarrow> add_block dec s [] = s"
  by (cases s) (simp add: add_block_def)

text \<open>
  One way of reading the key: a loop over the whole blocks and a switch for the last one. If each
  step of the loop adds the decoded block, and the switch adds what is left of it, then the way of
  reading does not matter.
\<close>

locale key_reader =
  fixes loop :: "mem \<Rightarrow> nat \<Rightarrow> nat \<Rightarrow> hstate \<Rightarrow> nat \<times> nat \<times> hstate"
    and tail :: "mem \<Rightarrow> nat \<Rightarrow> nat \<Rightarrow> hstate \<Rightarrow> hstate"
    and dec :: "bytes \<Rightarrow> u32"
  assumes loop_step: "12 < len \<Longrightarrow> loop m off len s
      = loop m (off + 12) (len - 12) (mix (add_block dec s (key_bytes m off 12)))"
    and loop_stop: "len \<le> 12 \<Longrightarrow> loop m off len s = (off, len, s)"
    and tail_block: "len \<le> 12 \<Longrightarrow> tail m off len s = add_block dec s (key_bytes m off len)"
    and dec_empty: "dec [] = 0"
begin

lemma run_from:
  "(case loop m off len s of (off', len', s') \<Rightarrow>
      if len' = 0 then tail m off' len' s' else final (tail m off' len' s'))
    = block_hash dec s (key_bytes m off len)"
proof (induction len arbitrary: off s rule: less_induct)
  case (less len)
  show ?case
  proof (cases "12 < len")
    case True
    then show ?thesis
      using less [of "len - 12" "off + 12"]
      by (subst block_hash.simps) (simp add: loop_step take_key_bytes drop_key_bytes)
  next
    case False
    then show ?thesis
      by (subst block_hash.simps) (auto simp: loop_stop tail_block add_block_Nil dec_empty)
  qed
qed

lemma run: "(let (off, len, s) = loop m 0 len s in (len, tail m off len s)) = (len', s') \<Longrightarrow>
    (if len' = 0 then s' else final s') = block_hash dec s (key_bytes m 0 len)"
  using run_from [of m 0 len s] by (auto split: prod.splits)

end

section \<open>Words from bytes\<close>

lemma from_le_Cons_add: "(from_le (b # bs) :: u32) = ucast b + push_bit 8 (from_le bs)"
proof -
  have "(ucast b :: u32) AND push_bit 8 (from_le bs) = 0"
    by (rule bit_word_eqI) (auto simp: bit_simps dest: bit_imp_le_length)
  then show ?thesis
    by (simp add: disjunctive_add_eq_or)
qed

lemma from_le_take: "from_le (take n bs) = take_bit (8 * n) (from_le bs)"
proof (induction bs arbitrary: n)
  case (Cons b bs)
  show ?case
  proof (cases n)
    case (Suc k)
    then show ?thesis
      using Cons [of k] by (intro bit_word_eqI) (auto simp: bit_simps dest: bit_imp_le_length)
  qed simp
qed simp


lemma from_le_masks:
  "(from_le [a, b, c, d] :: u32) AND 0xffffff = from_le [a, b, c]"
  "(from_le [a, b, c, d] :: u32) AND 0xffff = from_le [a, b]"
  "(from_le [a, b, c, d] :: u32) AND 0xff = from_le [a]"
  using from_le_take [of 3 "[a, b, c, d]", where 'a = 32] from_le_take [of 2 "[a, b, c, d]", where 'a = 32]
    from_le_take [of 1 "[a, b, c, d]", where 'a = 32]
  by (simp_all add: take_bit_eq_mask mask_eq_exp_minus_1)

text \<open>Both sides of every comparison become sums of shifted bytes.\<close>

lemma key_bytes_upto_4:
  "key_bytes m i 1 = [m i]" "key_bytes m i 2 = [m i, m (i + 1)]" "key_bytes m i 3 = [m i, m (i + 1), m (i + 2)]"
  "key_bytes m i 4 = [m i, m (i + 1), m (i + 2), m (i + 3)]"
  by (simp_all add: key_bytes_def eval_nat_numeral)

lemma load_sums:
  "load16 LITTLE_ENDIAN m i = byte_at m i 0 + byte_at m (i + 1) 8"
  "push_bit 16 (byte_at m i 0 + byte_at m' j 8) = byte_at m i 16 + byte_at m' j 24"
  "load32 LITTLE_ENDIAN m i = from_le (key_bytes m i 4)"
proof -
  have "load16 LITTLE_ENDIAN m i = from_le [m i, m (i + 1)]"
    by (simp add: load16_def)
  then show "load16 LITTLE_ENDIAN m i = byte_at m i 0 + byte_at m (i + 1) 8"
    by (simp add: from_le_Cons_add byte_at_def del: from_le.simps(2))
qed (simp_all add: load32_def key_bytes_upto_4 byte_at_def push_bit_add)

lemma from_le_key_masks:
  "(from_le (key_bytes m i 4) :: u32) AND 0xffffff = from_le (key_bytes m i 3)"
  "(from_le (key_bytes m i 4) :: u32) AND 0xffff = from_le (key_bytes m i 2)"
  "(from_le (key_bytes m i 4) :: u32) AND 0xff = from_le (key_bytes m i 1)"
  unfolding key_bytes_upto_4 by (rule from_le_masks)+

lemma from_le_sums:
  "from_le (key_bytes m i 1) = byte_at m i 0"
  "from_le (key_bytes m i 2) = byte_at m i 0 + byte_at m (i + 1) 8"
  "from_le (key_bytes m i 3) = byte_at m i 0 + byte_at m (i + 1) 8 + byte_at m (i + 2) 16"
  "from_le (key_bytes m i 4) = byte_at m i 0 + byte_at m (i + 1) 8 + byte_at m (i + 2) 16 + byte_at m (i + 3) 24"
  unfolding key_bytes_upto_4
  by (simp_all add: from_le_Cons_add byte_at_def push_bit_add add.assoc del: from_le.simps(2))

lemmas block_sums = One_nat_def [symmetric] add_block_key add_block_Nil load_sums from_le_sums add.assoc add.left_commute add.commute

lemma le_12_cases:
  assumes "len \<le> 12"
  obtains "len = (0::nat)" | "len = 1" | "len = 2" | "len = 3" | "len = 4" | "len = 5" | "len = 6" | "len = 7"
    | "len = 8" | "len = 9" | "len = 10" | "len = 11" | "len = 12"
proof -
  have "len = 0 \<or> len = 1 \<or> len = 2 \<or> len = 3 \<or> len = 4 \<or> len = 5 \<or> len = 6 \<or> len = 7 \<or> len = 8
    \<or> len = 9 \<or> len = 10 \<or> len = 11 \<or> len = 12"
    using assms by presburger
  then show ?thesis
    using that by blast
qed

interpretation little32: key_reader "loop32 LITTLE_ENDIAN" "tail32 LITTLE_ENDIAN" from_le
proof
  fix m off s and len :: nat
  show "12 < len \<Longrightarrow> loop32 LITTLE_ENDIAN m off len s
      = loop32 LITTLE_ENDIAN m (off + 12) (len - 12) (mix (add_block from_le s (key_bytes m off 12)))"
    by (cases s) (simp add: loop32.simps [of _ _ _ len] add_block_key load_sums)
  show "len \<le> 12 \<Longrightarrow> loop32 LITTLE_ENDIAN m off len s = (off, len, s)"
    by (cases s) (simp add: loop32.simps)
  show "tail32 LITTLE_ENDIAN m off len s = add_block from_le s (key_bytes m off len)" if "len \<le> 12"
    using that by (cases s, cases rule: le_12_cases)
      (simp_all add: tail32_def add_block_key add_block_Nil load_sums from_le_key_masks One_nat_def [symmetric] del: One_nat_def add_2_eq_Suc add_2_eq_Suc')
qed simp

interpretation little32_valgrind: key_reader "loop32 LITTLE_ENDIAN" "tail32_valgrind LITTLE_ENDIAN" from_le
proof
  fix m off s and len :: nat
  show "tail32_valgrind LITTLE_ENDIAN m off len s = add_block from_le s (key_bytes m off len)" if "len \<le> 12"
    using that by (cases s, cases rule: le_12_cases) (simp_all add: tail32_valgrind_def block_sums del: One_nat_def add_2_eq_Suc add_2_eq_Suc')
qed (simp_all add: little32.loop_step little32.loop_stop)

interpretation little16: key_reader "loop16 LITTLE_ENDIAN" "tail16 LITTLE_ENDIAN" from_le
proof
  fix m off s and len :: nat
  show "12 < len \<Longrightarrow> loop16 LITTLE_ENDIAN m off len s
      = loop16 LITTLE_ENDIAN m (off + 12) (len - 12) (mix (add_block from_le s (key_bytes m off 12)))"
    by (cases s) (simp add: loop16.simps [of _ _ _ len] block_sums del: One_nat_def add_2_eq_Suc add_2_eq_Suc')
  show "len \<le> 12 \<Longrightarrow> loop16 LITTLE_ENDIAN m off len s = (off, len, s)"
    by (cases s) (simp add: loop16.simps)
  show "tail16 LITTLE_ENDIAN m off len s = add_block from_le s (key_bytes m off len)" if "len \<le> 12"
    using that by (cases s, cases rule: le_12_cases) (simp_all add: tail16_def block_sums del: One_nat_def add_2_eq_Suc add_2_eq_Suc')
qed simp

interpretation little8: key_reader loop8 tail8 from_le
proof
  fix m off s and len :: nat
  show "12 < len \<Longrightarrow> loop8 m off len s
      = loop8 m (off + 12) (len - 12) (mix (add_block from_le s (key_bytes m off 12)))"
    by (cases s) (simp add: loop8.simps [of _ _ len] block_sums del: One_nat_def add_2_eq_Suc add_2_eq_Suc')
  show "len \<le> 12 \<Longrightarrow> loop8 m off len s = (off, len, s)"
    by (cases s) (simp add: loop8.simps)
  show "tail8 m off len s = add_block from_le s (key_bytes m off len)" if "len \<le> 12"
    using that by (cases s, cases rule: le_12_cases) (simp_all add: tail8_def block_sums del: One_nat_def add_2_eq_Suc add_2_eq_Suc')
qed simp

text \<open>The readers of \<open>hashlittle2\<close>.\<close>

interpretation little32_2: key_reader "loop32_2 LITTLE_ENDIAN" "tail32_2 LITTLE_ENDIAN" from_le
proof
  fix m off s and len :: nat
  show "12 < len \<Longrightarrow> loop32_2 LITTLE_ENDIAN m off len s
      = loop32_2 LITTLE_ENDIAN m (off + 12) (len - 12) (mix (add_block from_le s (key_bytes m off 12)))"
    by (cases s) (simp add: loop32_2.simps [of _ _ _ len] add_block_key load_sums)
  show "len \<le> 12 \<Longrightarrow> loop32_2 LITTLE_ENDIAN m off len s = (off, len, s)"
    by (cases s) (simp add: loop32_2.simps)
  show "tail32_2 LITTLE_ENDIAN m off len s = add_block from_le s (key_bytes m off len)" if "len \<le> 12"
    using that by (cases s, cases rule: le_12_cases)
      (simp_all add: tail32_2_def add_block_key add_block_Nil load_sums from_le_key_masks One_nat_def [symmetric] del: One_nat_def add_2_eq_Suc add_2_eq_Suc')
qed simp

interpretation little32_valgrind_2: key_reader "loop32_2 LITTLE_ENDIAN" "tail32_valgrind_2 LITTLE_ENDIAN" from_le
proof
  fix m off s and len :: nat
  show "tail32_valgrind_2 LITTLE_ENDIAN m off len s = add_block from_le s (key_bytes m off len)" if "len \<le> 12"
    using that by (cases s, cases rule: le_12_cases) (simp_all add: tail32_valgrind_2_def block_sums del: One_nat_def add_2_eq_Suc add_2_eq_Suc')
qed (simp_all add: little32_2.loop_step little32_2.loop_stop)

interpretation little16_2: key_reader "loop16_2 LITTLE_ENDIAN" "tail16_2 LITTLE_ENDIAN" from_le
proof
  fix m off s and len :: nat
  show "12 < len \<Longrightarrow> loop16_2 LITTLE_ENDIAN m off len s
      = loop16_2 LITTLE_ENDIAN m (off + 12) (len - 12) (mix (add_block from_le s (key_bytes m off 12)))"
    by (cases s) (simp add: loop16_2.simps [of _ _ _ len] block_sums del: One_nat_def add_2_eq_Suc add_2_eq_Suc')
  show "len \<le> 12 \<Longrightarrow> loop16_2 LITTLE_ENDIAN m off len s = (off, len, s)"
    by (cases s) (simp add: loop16_2.simps)
  show "tail16_2 LITTLE_ENDIAN m off len s = add_block from_le s (key_bytes m off len)" if "len \<le> 12"
    using that by (cases s, cases rule: le_12_cases) (simp_all add: tail16_2_def block_sums del: One_nat_def add_2_eq_Suc add_2_eq_Suc')
qed simp

interpretation little8_2: key_reader loop8_2 tail8_2 from_le
proof
  fix m off s and len :: nat
  show "12 < len \<Longrightarrow> loop8_2 m off len s
      = loop8_2 m (off + 12) (len - 12) (mix (add_block from_le s (key_bytes m off 12)))"
    by (cases s) (simp add: loop8_2.simps [of _ _ len] block_sums del: One_nat_def add_2_eq_Suc add_2_eq_Suc')
  show "len \<le> 12 \<Longrightarrow> loop8_2 m off len s = (off, len, s)"
    by (cases s) (simp add: loop8_2.simps)
  show "tail8_2 m off len s = add_block from_le s (key_bytes m off len)" if "len \<le> 12"
    using that by (cases s, cases rule: le_12_cases) (simp_all add: tail8_2_def block_sums del: One_nat_def add_2_eq_Suc add_2_eq_Suc')
qed simp

section \<open>Big-endian readers\<close>

lemma from_le_high:
  "(from_le [d, c, b, a] :: u32) AND 0xffffff00 = from_le [0, c, b, a]"
  "(from_le [d, c, b, a] :: u32) AND 0xffff0000 = from_le [0, 0, b, a]"
  "(from_le [d, c, b, a] :: u32) AND 0xff000000 = from_le [0, 0, 0, a]"
proof -
  have *: "(ucast x OR push_bit 8 y :: u32) AND NOT (mask (8 + n)) = push_bit 8 (y AND NOT (mask n))" for x :: u8 and y n
    by (rule bit_word_eqI) (auto simp: bit_simps dest: bit_imp_le_length)
  have m: "(0xffffff00 :: u32) = NOT (mask (8 + 0))" "(0xffff0000 :: u32) = NOT (mask (8 + (8 + 0)))"
    "(0xff000000 :: u32) = NOT (mask (8 + (8 + (8 + 0))))"
    by (simp_all add: mask_eq_exp_minus_1)
  show "(from_le [d, c, b, a] :: u32) AND 0xffffff00 = from_le [0, c, b, a]"
    "(from_le [d, c, b, a] :: u32) AND 0xffff0000 = from_le [0, 0, b, a]"
    "(from_le [d, c, b, a] :: u32) AND 0xff000000 = from_le [0, 0, 0, a]"
    unfolding m from_le.simps * by simp_all
qed

lemma from_be_upto_4:
  "from_be (key_bytes m i 1) = from_le [0, 0, 0, m i]"
  "from_be (key_bytes m i 2) = from_le [0, 0, m (i + 1), m i]"
  "from_be (key_bytes m i 3) = from_le [0, m (i + 2), m (i + 1), m i]"
  "from_be (key_bytes m i 4) = from_le [m (i + 3), m (i + 2), m (i + 1), m i]"
  unfolding key_bytes_upto_4 by (simp_all add: from_be_def eval_nat_numeral)

lemma load_big: "load32 BIG_ENDIAN m i = from_be (key_bytes m i 4)"
  unfolding from_be_upto_4 by (simp add: load32_def)

lemma from_be_key_masks:
  "from_be (key_bytes m i 4) AND 0xffffff00 = from_be (key_bytes m i 3)"
  "from_be (key_bytes m i 4) AND 0xffff0000 = from_be (key_bytes m i 2)"
  "from_be (key_bytes m i 4) AND 0xff000000 = from_be (key_bytes m i 1)"
  unfolding from_be_upto_4 by (rule from_le_high)+

lemma from_be_sums:
  "from_be (key_bytes m i 1) = byte_at m i 24"
  "from_be (key_bytes m i 2) = byte_at m i 24 + byte_at m (i + 1) 16"
  "from_be (key_bytes m i 3) = byte_at m i 24 + byte_at m (i + 1) 16 + byte_at m (i + 2) 8"
  "from_be (key_bytes m i 4) = byte_at m i 24 + byte_at m (i + 1) 16 + byte_at m (i + 2) 8 + byte_at m (i + 3) 0"
  unfolding from_be_upto_4
  by (simp_all add: from_le_Cons_add byte_at_def push_bit_add add.assoc add.commute add.left_commute del: from_le.simps(2))

lemma from_be_Nil [simp]: "from_be [] = 0"
  by (simp add: from_be_def eval_nat_numeral)

lemmas big_sums = One_nat_def [symmetric] add_block_key add_block_Nil load_big from_be_sums
  add.assoc add.left_commute add.commute

interpretation big32: key_reader "loop32_big BIG_ENDIAN" "tail32_big BIG_ENDIAN" from_be
proof
  fix m off s and len :: nat
  show "12 < len \<Longrightarrow> loop32_big BIG_ENDIAN m off len s
      = loop32_big BIG_ENDIAN m (off + 12) (len - 12) (mix (add_block from_be s (key_bytes m off 12)))"
    by (cases s) (simp add: loop32_big.simps [of _ _ _ len] add_block_key load_big)
  show "len \<le> 12 \<Longrightarrow> loop32_big BIG_ENDIAN m off len s = (off, len, s)"
    by (cases s) (simp add: loop32_big.simps)
  show "tail32_big BIG_ENDIAN m off len s = add_block from_be s (key_bytes m off len)" if "len \<le> 12"
    using that by (cases s, cases rule: le_12_cases)
      (simp_all add: tail32_big_def add_block_key add_block_Nil load_big from_be_key_masks One_nat_def [symmetric] del: One_nat_def add_2_eq_Suc add_2_eq_Suc')
qed simp

interpretation big32_valgrind: key_reader "loop32_big BIG_ENDIAN" "tail32_big_valgrind BIG_ENDIAN" from_be
proof
  fix m off s and len :: nat
  show "tail32_big_valgrind BIG_ENDIAN m off len s = add_block from_be s (key_bytes m off len)" if "len \<le> 12"
    using that by (cases s, cases rule: le_12_cases) (simp_all add: tail32_big_valgrind_def big_sums del: One_nat_def add_2_eq_Suc add_2_eq_Suc')
qed (simp_all add: big32.loop_step big32.loop_stop)

interpretation big8: key_reader loop8_big tail8_big from_be
proof
  fix m off s and len :: nat
  show "12 < len \<Longrightarrow> loop8_big m off len s
      = loop8_big m (off + 12) (len - 12) (mix (add_block from_be s (key_bytes m off 12)))"
    by (cases s) (simp add: loop8_big.simps [of _ _ len] big_sums del: One_nat_def add_2_eq_Suc add_2_eq_Suc')
  show "len \<le> 12 \<Longrightarrow> loop8_big m off len s = (off, len, s)"
    by (cases s) (simp add: loop8_big.simps)
  show "tail8_big m off len s = add_block from_be s (key_bytes m off len)" if "len \<le> 12"
    using that by (cases s, cases rule: le_12_cases) (simp_all add: tail8_big_def big_sums del: One_nat_def add_2_eq_Suc add_2_eq_Suc')
qed simp

section \<open>Hashing an array of words\<close>

lemma word_run:
  assumes k: "\<And>i. k i = dec (key_bytes m (4 * i) 4)" and "dec [] = 0"
  shows "(case word_loop k off len s of (off', len', s') \<Rightarrow> word_tail k off' len' s')
    = block_hash dec s (key_bytes m (4 * off) (4 * len))"
proof (induction len arbitrary: off s rule: less_induct)
  case (less len)
  obtain a b c where s: "s = (a, b, c)"
    by (cases s)
  show ?case
  proof (cases "3 < len")
    case True
    then show ?thesis
      using less [of "len - 3" "off + 3"]
      by (subst block_hash.simps)
         (simp add: s word_loop.simps [of _ _ len] take_key_bytes drop_key_bytes add_block_key
           k [of off] k [of "off + 1"] k [of "off + 2", simplified] k [of "Suc off"] algebra_simps)
  next
    case False
    then consider "len = 0" | "len = 1" | "len = 2" | "len = 3"
      by linarith
    then show ?thesis
      by cases (subst block_hash.simps, simp add: s word_loop.simps word_tail_def add_block_key k assms(2) algebra_simps)+
  qed
qed

lemma word_run2:
  assumes k: "\<And>i. k i = dec (key_bytes m (4 * i) 4)" and "dec [] = 0"
  shows "(case word_loop2 k off len s of (off', len', s') \<Rightarrow> word_tail2 k off' len' s')
    = block_hash dec s (key_bytes m (4 * off) (4 * len))"
proof (induction len arbitrary: off s rule: less_induct)
  case (less len)
  obtain a b c where s: "s = (a, b, c)"
    by (cases s)
  show ?case
  proof (cases "3 < len")
    case True
    then show ?thesis
      using less [of "len - 3" "off + 3"]
      by (subst block_hash.simps)
         (simp add: s word_loop2.simps [of _ _ len] take_key_bytes drop_key_bytes add_block_key
           k [of off] k [of "off + 1"] k [of "off + 2", simplified] k [of "Suc off"] algebra_simps)
  next
    case False
    then consider "len = 0" | "len = 1" | "len = 2" | "len = 3"
      by linarith
    then show ?thesis
      by cases (subst block_hash.simps, simp add: s word_loop2.simps word_tail2_def add_block_key k assms(2) algebra_simps)+
  qed
qed

text \<open>For any array of words the loops and the switches of the two functions agree.\<close>

lemma word_loop2_eq: "word_loop2 k off len s = word_loop k off len s"
proof (induction len arbitrary: off s rule: less_induct)
  case (less len)
  then show ?case
    by (cases s) (simp add: word_loop.simps [of _ _ len] word_loop2.simps [of _ _ len])
qed

lemma word_tail2_eq: "word_tail2 k off len s = word_tail k off len s"
  by (simp add: word_tail2_def word_tail_def)

section \<open>The inverse of mix\<close>

text \<open>One line of \<open>mix\<close>, with the three variables renamed for the next line, and its inverse.\<close>

definition mix_round :: "nat \<Rightarrow> hstate \<Rightarrow> hstate" where
  "mix_round k = (\<lambda>(a, b, c). (b, c + b, (a - c) XOR rot c k))"

definition unmix_round :: "nat \<Rightarrow> hstate \<Rightarrow> hstate" where
  "unmix_round k = (\<lambda>(x, y, z). let c = y - x in ((z XOR rot c k) + c, x, c))"

definition unmix :: "hstate \<Rightarrow> hstate" where
  "unmix = unmix_round 4 \<circ> unmix_round 6 \<circ> unmix_round 8 \<circ> unmix_round 16 \<circ> unmix_round 19 \<circ> unmix_round 4"

lemma mix_rounds: "mix = mix_round 4 \<circ> mix_round 19 \<circ> mix_round 16 \<circ> mix_round 8 \<circ> mix_round 6 \<circ> mix_round 4"
  by (rule ext) (simp add: mix_def mix_round_def split_def Let_def)

lemma unmix_round_inverse:
  "unmix_round k (mix_round k s) = s"
  "mix_round k (unmix_round k s) = s"
  by (cases s, simp add: mix_round_def unmix_round_def Let_def xor.assoc)+

lemma unmix_mix: "unmix (mix s) = s" and mix_unmix: "mix (unmix s) = s"
  by (simp_all add: mix_rounds unmix_def unmix_round_inverse)

section \<open>Properties\<close>

lemma little_run_block: "little_run e v addr m len s = block_hash from_le s (key_bytes m 0 len)"
proof -
  note runs = little32.run_from [of m 0 len s] little32_valgrind.run_from [of m 0 len s]
    little16.run_from [of m 0 len s] little8.run_from [of m 0 len s]
  show ?thesis
    using runs
    by (cases "e = LITTLE_ENDIAN") (auto simp: little_run_def HASH_LITTLE_ENDIAN_def split_def Let_def split: if_splits)
qed

lemma hashbig_block: "hashbig e v addr m len initval =
    (let i = 0xdeadbeef + of_nat len + initval; (a, b, c) = block_hash from_be (i, i, i) (key_bytes m 0 len) in c)"
proof -
  define i :: u32 where "i = 0xdeadbeef + of_nat len + initval"
  note runs = big32.run_from [of m 0 len "(i, i, i)"] big32_valgrind.run_from [of m 0 len "(i, i, i)"]
    big8.run_from [of m 0 len "(i, i, i)"]
  show ?thesis
    unfolding hashbig_def Let_def i_def [symmetric] using runs
    by (cases "e = BIG_ENDIAN") (auto simp: HASH_BIG_ENDIAN_def split_def Let_def split: if_splits)
qed

lemma hashlittle2_block: "hashlittle2 e v addr m len pc pb =
    (let i = 0xdeadbeef + of_nat len + pc; (a, b, c) = block_hash from_le (i, i, i + pb) (key_bytes m 0 len) in (c, b))"
proof -
  define i :: u32 where "i = 0xdeadbeef + of_nat len + pc"
  note runs = little32_2.run_from [of m 0 len "(i, i, i + pb)"] little32_valgrind_2.run_from [of m 0 len "(i, i, i + pb)"]
    little16_2.run_from [of m 0 len "(i, i, i + pb)"] little8_2.run_from [of m 0 len "(i, i, i + pb)"]
  show ?thesis
    unfolding hashlittle2_def Let_def i_def [symmetric] using runs
    by (cases "e = LITTLE_ENDIAN") (auto simp: HASH_LITTLE_ENDIAN_def split_def Let_def split: if_splits)
qed

text \<open>C7 One hash for every way of reading: \<open>hashlittle\<close> reads the key as 32 bit words, as 16 bit words or
  as bytes, depending on the byte order of the machine, the alignment of the key and the macro
  \<^verbatim>\<open>VALGRIND\<close>, and reads past the end of an aligned key. The result is always the hash of exactly
  the bytes of the key, read as little-endian words; \<open>hashbig\<close> is the same with big-endian words.\<close>

theorem lookup3_reads_agree:
  "hashlittle e valgrind addr m len initval =
     (let i = 0xdeadbeef + of_nat len + initval; (a, b, c) = block_hash from_le (i, i, i) (key_bytes m 0 len) in c)
   \<and> hashbig e valgrind addr m len initval =
     (let i = 0xdeadbeef + of_nat len + initval; (a, b, c) = block_hash from_be (i, i, i) (key_bytes m 0 len) in c)"
  by (simp add: hashlittle_def little_run_block hashbig_block)

lemma push_bit_2_of_nat:
  "push_bit 2 (of_nat n :: u32) = of_nat (4 * n)" "(ucast (push_bit 2 (of_nat n :: u64)) :: u32) = of_nat (4 * n)"
proof -
  show "push_bit 2 (of_nat n :: u32) = of_nat (4 * n)"
    by (simp add: push_bit_eq_mult)
  have "push_bit 2 (of_nat n :: u64) = of_nat (4 * n)"
    by (simp add: push_bit_eq_mult)
  then show "(ucast (push_bit 2 (of_nat n :: u64)) :: u32) = of_nat (4 * n)"
    by (simp add: word_unat_eq_iff unsigned_ucast_eq unat_of_nat take_bit_eq_mod mod_mod_cancel del: of_nat_mult)
qed

text \<open>C22 Hashing words and hashing bytes agree, as the comment before \<open>hashword\<close> says: the hash of an
  array of \<open>len\<close> words is the \<open>hashlittle\<close> of its \<open>4 * len\<close> bytes where the words are stored little
  endian, and the \<open>hashbig\<close> of them where they are stored big endian.\<close>

theorem hashword_of_bytes:
  "hashword (\<lambda>i. load32 LITTLE_ENDIAN m (4 * i)) len initval = hashlittle e valgrind addr m (4 * len) initval
   \<and> hashword (\<lambda>i. load32 BIG_ENDIAN m (4 * i)) len initval = hashbig e valgrind addr m (4 * len) initval"
proof -
  have "(case word_loop (\<lambda>i. load32 LITTLE_ENDIAN m (4 * i)) 0 len s of (off', len', s') \<Rightarrow>
        word_tail (\<lambda>i. load32 LITTLE_ENDIAN m (4 * i)) off' len' s')
      = block_hash from_le s (key_bytes m 0 (4 * len))" for s
    using word_run [of "\<lambda>i. load32 LITTLE_ENDIAN m (4 * i)" from_le m 0 len s] by (simp add: load_sums)
  moreover have "(case word_loop (\<lambda>i. load32 BIG_ENDIAN m (4 * i)) 0 len s of (off', len', s') \<Rightarrow>
        word_tail (\<lambda>i. load32 BIG_ENDIAN m (4 * i)) off' len' s')
      = block_hash from_be s (key_bytes m 0 (4 * len))" for s
    using word_run [of "\<lambda>i. load32 BIG_ENDIAN m (4 * i)" from_be m 0 len s] by (simp add: load_big)
  ultimately show ?thesis
    by (simp add: hashword_def hashlittle_def little_run_block hashbig_block push_bit_2_of_nat split_def Let_def del: of_nat_mult)
qed

text \<open>C33 The variants with two seeds, which repeat the loops and switches of the others. \<open>hashlittle2\<close> gives
  the last two words of the reference hash of exactly the bytes of the key, whatever the byte order,
  the alignment and the macro \<^verbatim>\<open>VALGRIND\<close>, with the second seed added to the third word of the initial
  state. \<open>hashword2\<close> of \<open>len\<close> words stored little endian is \<open>hashlittle2\<close> of their bytes. With a second seed
  of zero, the primary value of each is the hash that \<open>hashlittle\<close> or \<open>hashword\<close> returns.\<close>

theorem lookup3_second_seed:
  "hashlittle2 e valgrind addr m len pc pb =
     (let i = 0xdeadbeef + of_nat len + pc;
          (a, b, c) = block_hash from_le (i, i, i + pb) (key_bytes m 0 len)
      in (c, b))
   \<and> hashword2 (\<lambda>i. load32 LITTLE_ENDIAN m (4 * i)) len pc pb = hashlittle2 e valgrind addr m (4 * len) pc pb
   \<and> fst (hashlittle2 e valgrind addr m len pc 0) = hashlittle e valgrind addr m len pc
   \<and> fst (hashword2 k len pc 0) = hashword k len pc"
proof -
  have "(case word_loop2 (\<lambda>i. load32 LITTLE_ENDIAN m (4 * i)) 0 len s of (off', len', s') \<Rightarrow>
        word_tail2 (\<lambda>i. load32 LITTLE_ENDIAN m (4 * i)) off' len' s')
      = block_hash from_le s (key_bytes m 0 (4 * len))" for s
    using word_run2 [of "\<lambda>i. load32 LITTLE_ENDIAN m (4 * i)" from_le m 0 len s] by (simp add: load_sums)
  then have "hashword2 (\<lambda>i. load32 LITTLE_ENDIAN m (4 * i)) len pc pb = hashlittle2 e valgrind addr m (4 * len) pc pb"
    by (simp add: hashword2_def hashlittle2_block push_bit_2_of_nat split_def Let_def del: of_nat_mult)
  moreover have "fst (hashlittle2 e valgrind addr m len pc 0) = hashlittle e valgrind addr m len pc"
    by (simp add: hashlittle2_block hashlittle_def little_run_block split_def Let_def)
  moreover have "fst (hashword2 k len pc 0) = hashword k len pc"
    by (simp add: hashword2_def hashword_def word_loop2_eq word_tail2_eq push_bit_2_of_nat split_def Let_def del: of_nat_mult)
  ultimately show ?thesis
    by (simp add: hashlittle2_block)
qed

text \<open>C29 \<open>mix\<close> is reversible, as its comment promises: no two states are mixed into the same state, and
  every state can come out.\<close>

theorem mix_reversible: "bij mix"
  by (rule bij_betw_byWitness [where f' = unmix]) (simp_all add: unmix_mix mix_unmix)

end
