(* ===== verification/Sha1.thy ===== *)
theory Sha1
  imports Prelude
begin

text \<open>
  SHA-1 as in \<^verbatim>\<open>ext4_utils/sha1.c\<close>, which the file system tools use to derive UUIDs. The flag
  \<open>little\<close> stands for \<^verbatim>\<open>BYTE_ORDER == LITTLE_ENDIAN\<close>. The working variables are a tuple, and each round
  returns the tuple in the order in which the next line of the unrolled loop names the variables:
  after \<^verbatim>\<open>R0(a,b,c,d,e,0)\<close> comes \<^verbatim>\<open>R0(e,a,b,c,d,1)\<close>. The macro \<^verbatim>\<open>SHA1HANDSOFF\<close> is defined, so the block is
  a copy of the data.
\<close>

type_synonym sha_state = "u32 \<times> u32 \<times> u32 \<times> u32 \<times> u32"

record SHA1_CTX =
  sc_state :: sha_state
  sc_count0 :: u32
  sc_count1 :: u32
  sc_buffer :: bytes

section \<open>The rounds\<close>

definition rol :: "u32 \<Rightarrow> nat \<Rightarrow> u32" where
  "rol x n = push_bit n x OR drop_bit (32 - n) x"

text \<open>The union \<open>CHAR64LONG16\<close> seen as sixteen words of the machine.\<close>

definition CHAR64LONG16 :: "bool \<Rightarrow> bytes \<Rightarrow> u32 list" where
  "CHAR64LONG16 little bs = map (\<lambda>i. let w = take 4 (drop (4 * i) bs) in
     if little then from_le w else from_le (rev w)) [0..<16]"

definition blk0 :: "bool \<Rightarrow> nat \<Rightarrow> u32 list \<Rightarrow> u32 list \<times> u32" where
  "blk0 little i l =
     (if little
      then let x = (rol (l ! i) 24 AND 0xFF00FF00) OR (rol (l ! i) 8 AND 0x00FF00FF) in (l[i := x], x)
      else (l, l ! i))"

definition blk :: "nat \<Rightarrow> u32 list \<Rightarrow> u32 list \<times> u32" where
  "blk i l =
     (let x = rol (l ! ((i + 13) mod 16) XOR l ! ((i + 8) mod 16) XOR l ! ((i + 2) mod 16) XOR l ! (i mod 16)) 1
      in (l[i mod 16 := x], x))"

definition R0 :: "bool \<Rightarrow> nat \<Rightarrow> u32 list \<times> sha_state \<Rightarrow> u32 list \<times> sha_state" where
  "R0 little i = (\<lambda>(l, (v, w, x, y, z)). let (l, m) = blk0 little i l in
     (l, (z + (((w AND (x XOR y)) XOR y) + m + 0x5A827999 + rol v 5), v, rol w 30, x, y)))"

definition R1 :: "nat \<Rightarrow> u32 list \<times> sha_state \<Rightarrow> u32 list \<times> sha_state" where
  "R1 i = (\<lambda>(l, (v, w, x, y, z)). let (l, m) = blk i l in
     (l, (z + (((w AND (x XOR y)) XOR y) + m + 0x5A827999 + rol v 5), v, rol w 30, x, y)))"

definition R2 :: "nat \<Rightarrow> u32 list \<times> sha_state \<Rightarrow> u32 list \<times> sha_state" where
  "R2 i = (\<lambda>(l, (v, w, x, y, z)). let (l, m) = blk i l in
     (l, (z + ((w XOR x XOR y) + m + 0x6ED9EBA1 + rol v 5), v, rol w 30, x, y)))"

definition R3 :: "nat \<Rightarrow> u32 list \<times> sha_state \<Rightarrow> u32 list \<times> sha_state" where
  "R3 i = (\<lambda>(l, (v, w, x, y, z)). let (l, m) = blk i l in
     (l, (z + ((((w OR x) AND y) OR (w AND x)) + m + 0x8F1BBCDC + rol v 5), v, rol w 30, x, y)))"

definition R4 :: "nat \<Rightarrow> u32 list \<times> sha_state \<Rightarrow> u32 list \<times> sha_state" where
  "R4 i = (\<lambda>(l, (v, w, x, y, z)). let (l, m) = blk i l in
     (l, (z + ((w XOR x XOR y) + m + 0xCA62C1D6 + rol v 5), v, rol w 30, x, y)))"

definition SHA1Transform :: "bool \<Rightarrow> sha_state \<Rightarrow> bytes \<Rightarrow> sha_state" where
  "SHA1Transform little st buffer =
     (let ls = (CHAR64LONG16 little buffer, st);
          ls = fold (R0 little) [0..<16] ls;
          ls = fold R1 [16..<20] ls;
          ls = fold R2 [20..<40] ls;
          ls = fold R3 [40..<60] ls;
          (l, (a, b, c, d, e)) = fold R4 [60..<80] ls;
          (s0, s1, s2, s3, s4) = st
      in (s0 + a, s1 + b, s2 + c, s3 + d, s4 + e))"

section \<open>Hashing a message\<close>

text \<open>\<open>SHA1Init\<close> leaves the buffer as it was.\<close>

definition SHA1Init :: "bytes \<Rightarrow> SHA1_CTX" where
  "SHA1Init buf = \<lparr>sc_state = (0x67452301, 0xEFCDAB89, 0x98BADCFE, 0x10325476, 0xC3D2E1F0),
     sc_count0 = 0, sc_count1 = 0, sc_buffer = buf\<rparr>"

text \<open>\<^verbatim>\<open>memcpy(&dst[j], src, n)\<close> with both ranges checked.\<close>

definition copy_into :: "bytes \<Rightarrow> nat \<Rightarrow> bytes \<Rightarrow> nat \<Rightarrow> abort + bytes" where
  "copy_into dst j src n = (if j + n \<le> length dst \<and> n \<le> length src
     then Inr (take j dst @ take n src @ drop (j + n) dst) else Inl OutOfBounds)"

text \<open>The loop over the whole blocks of the data from index \<open>i\<close>, with the sums of \<^verbatim>\<open>u_int\<close>s in 32 bits.\<close>

function update_loop :: "bool \<Rightarrow> sha_state \<Rightarrow> bytes \<Rightarrow> nat \<Rightarrow> abort + sha_state \<times> nat" where
  "update_loop little st d i =
     (if (of_nat i + 63 :: u32) < of_nat (length d)
      then if i + 64 \<le> length d
           then update_loop little (SHA1Transform little st (take 64 (drop i d))) d (i + 64)
           else Inl OutOfBounds
      else Inr (st, i))"
  by pat_completeness auto
termination
  by (relation "measure (\<lambda>(_, _, d, i). length d - i)") auto

declare update_loop.simps [simp del]

text \<open>The bit count in two words.\<close>

definition add_count :: "u32 \<Rightarrow> SHA1_CTX \<Rightarrow> SHA1_CTX" where
  "add_count len ctx =
     (let j = sc_count0 ctx;
          ctx = ctx\<lparr>sc_count0 := j + push_bit 3 len\<rparr>
      in if sc_count0 ctx < j then ctx\<lparr>sc_count1 := sc_count1 ctx + (drop_bit 29 len + 1)\<rparr> else ctx)"

definition SHA1Update :: "bool \<Rightarrow> SHA1_CTX \<Rightarrow> bytes \<Rightarrow> abort + SHA1_CTX" where
  "SHA1Update little ctx d =
     (let len = of_nat (length d) :: u32;
          j = drop_bit 3 (sc_count0 ctx) AND 63;
          ctx = add_count len ctx
      in if j + len > 63
         then rbind (copy_into (sc_buffer ctx) (unat j) d (64 - unat j)) (\<lambda>buf.
              rbind (update_loop little (SHA1Transform little (sc_state ctx) buf) d (64 - unat j)) (\<lambda>(st, i).
              rbind (copy_into buf 0 (drop i d) (unat (len - of_nat i))) (\<lambda>buf.
              Inr (ctx\<lparr>sc_state := st, sc_buffer := buf\<rparr>))))
         else rbind (copy_into (sc_buffer ctx) (unat j) d (unat len)) (\<lambda>buf.
              Inr (ctx\<lparr>sc_buffer := buf\<rparr>)))"

lemma SHA1Update_counts:
  assumes "SHA1Update little ctx d = Inr ctx'"
  shows "sc_count0 ctx' = sc_count0 ctx + push_bit 3 (of_nat (length d))"
    and "sc_count1 ctx' = (if sc_count0 ctx' < sc_count0 ctx
      then sc_count1 ctx + (drop_bit 29 (of_nat (length d)) + 1) else sc_count1 ctx)"
proof -
  have "sc_count0 ctx' = sc_count0 ctx + push_bit 3 (of_nat (length d)) \<and>
    sc_count1 ctx' = (if sc_count0 ctx + push_bit 3 (of_nat (length d)) < sc_count0 ctx
      then sc_count1 ctx + (drop_bit 29 (of_nat (length d)) + 1) else sc_count1 ctx)"
    using assms by (auto simp: SHA1Update_def add_count_def Let_def rbind_def split: if_splits sum.splits prod.splits)
  then show "sc_count0 ctx' = sc_count0 ctx + push_bit 3 (of_nat (length d))"
    and "sc_count1 ctx' = (if sc_count0 ctx' < sc_count0 ctx
      then sc_count1 ctx + (drop_bit 29 (of_nat (length d)) + 1) else sc_count1 ctx)"
    by simp_all
qed

section \<open>Reference\<close>

text \<open>
  The message schedule, the round functions and constants, and the compression of one block as in
  FIPS 180: the schedule has eighty words, and every round shifts the five variables. Rotations are those of the
  word library; nothing of the code's definitions is used.
\<close>

definition be_word :: "bytes \<Rightarrow> nat \<Rightarrow> u32" where
  "be_word bs t = from_le (rev (take 4 (drop (4 * t) bs)))"

fun schedule :: "(nat \<Rightarrow> u32) \<Rightarrow> nat \<Rightarrow> u32" where
  "schedule M t = (if t < 16 then M t
     else word_rotl 1 (schedule M (t - 3) XOR schedule M (t - 8) XOR schedule M (t - 14) XOR schedule M (t - 16)))"

declare schedule.simps [simp del]

definition sha_f :: "nat \<Rightarrow> u32 \<Rightarrow> u32 \<Rightarrow> u32 \<Rightarrow> u32" where
  "sha_f t x y z =
     (if t < 20 then (x AND y) OR (NOT x AND z)
      else if t < 40 then x XOR y XOR z
      else if t < 60 then (x AND y) OR (x AND z) OR (y AND z)
      else x XOR y XOR z)"

definition sha_K :: "nat \<Rightarrow> u32" where
  "sha_K t = (if t < 20 then 0x5A827999 else if t < 40 then 0x6ED9EBA1
     else if t < 60 then 0x8F1BBCDC else 0xCA62C1D6)"

definition sha_round :: "(nat \<Rightarrow> u32) \<Rightarrow> nat \<Rightarrow> sha_state \<Rightarrow> sha_state" where
  "sha_round M t = (\<lambda>(a, b, c, d, e).
     (word_rotl 5 a + sha_f t b c d + e + sha_K t + schedule M t, a, word_rotl 30 b, c, d))"

definition sha_add :: "sha_state \<Rightarrow> sha_state \<Rightarrow> sha_state" where
  "sha_add = (\<lambda>(s0, s1, s2, s3, s4) (a, b, c, d, e). (s0 + a, s1 + b, s2 + c, s3 + d, s4 + e))"

definition compress :: "sha_state \<Rightarrow> bytes \<Rightarrow> sha_state" where
  "compress st bs = sha_add st (fold (sha_round (be_word bs)) [0..<80] st)"

text \<open>The macro \<^verbatim>\<open>rol\<close> rotates.\<close>

lemma rol_rotl: "0 < n \<Longrightarrow> n < 32 \<Longrightarrow> rol x n = word_rotl n x"
proof (rule bit_word_eqI)
  fix k
  assume n: "0 < n" "n < 32" and k: "k < LENGTH(32)"
  have "(k + 32 - n) mod 32 = (if n \<le> k then k - n else k + 32 - n)"
  proof (cases "n \<le> k")
    case True
    then have "k + 32 - n = (k - n) + 32"
      by simp
    then have "(k + 32 - n) mod 32 = (k - n) mod 32"
      by (simp only: mod_add_self2)
    then show ?thesis
      using True k by simp
  next
    case False
    then show ?thesis
      using n by simp
  qed
  moreover have "\<not> bit x (32 + k - n)" if "n \<le> k"
    using that bit_imp_le_length [of x "32 + k - n"] by auto
  ultimately show "bit (rol x n) k \<longleftrightarrow> bit (word_rotl n x) k"
    using n k by (cases "n \<le> k") (simp_all add: rol_def bit_simps bit_word_rotl_iff add.commute [of 32] del: add_Suc_right)
qed

lemma schedule_rol:
  "schedule M t = (if t < 16 then M t
     else rol (schedule M (t - 3) XOR schedule M (t - 8) XOR schedule M (t - 14) XOR schedule M (t - 16)) 1)"
  by (subst schedule.simps) (simp add: rol_rotl)

lemma sha_round_rol:
  "sha_round M t = (\<lambda>(a, b, c, d, e). (rol a 5 + sha_f t b c d + e + sha_K t + schedule M t, a, rol b 30, c, d))"
  by (simp add: sha_round_def rol_rotl)

section \<open>The circular schedule\<close>

text \<open>
  Before round \<open>t\<close> the sixteen words hold the last sixteen words of the schedule, and in the first
  sixteen rounds the words of the block that are still to come.
\<close>

definition sched_inv :: "(nat \<Rightarrow> u32) \<Rightarrow> (nat \<Rightarrow> u32) \<Rightarrow> nat \<Rightarrow> u32 list \<Rightarrow> bool" where
  "sched_inv M raw t l \<longleftrightarrow> length l = 16 \<and> (\<forall>j < t. t \<le> j + 16 \<longrightarrow> l ! (j mod 16) = schedule M j)
     \<and> (\<forall>j < 16. t \<le> j \<longrightarrow> l ! j = raw j)"

lemma mod_16_inj:
  assumes "j < t" and "t < j + 16"
  shows "(j :: nat) mod 16 \<noteq> t mod 16"
proof
  assume "j mod 16 = t mod 16"
  then have "16 dvd t - j"
    using assms(1) mod_eq_dvd_iff_nat [of j t 16] by simp
  then show False
    using assms by (auto dest: dvd_imp_le)
qed

lemma sched_inv_update:
  assumes "sched_inv M raw t l"
  shows "sched_inv M raw (Suc t) (l[t mod 16 := schedule M t])"
proof -
  have "l[t mod 16 := schedule M t] ! (j mod 16) = schedule M j" if "j < Suc t" "Suc t \<le> j + 16" for j
  proof (cases "j = t")
    case False
    then have "j mod 16 \<noteq> t mod 16" "j < t" "t \<le> j + 16"
      using that mod_16_inj [of j t] by auto
    then show ?thesis
      using assms by (simp add: sched_inv_def)
  qed (use assms in \<open>simp add: sched_inv_def\<close>)
  then show ?thesis
    using assms by (auto simp: sched_inv_def)
qed

lemma blk_schedule:
  assumes "sched_inv M raw t l" and "16 \<le> t"
  shows "blk t l = (l[t mod 16 := schedule M t], schedule M t)"
proof -
  obtain k where t: "t = k + 16"
    using le_Suc_ex [OF assms(2)] by (auto simp: add.commute)
  have l: "l ! (j mod 16) = schedule M j" if "j < t" "t \<le> j + 16" for j
    using assms(1) that by (simp add: sched_inv_def)
  have "(t + 13) mod 16 = (k + 13) mod 16" "(t + 8) mod 16 = (k + 8) mod 16" "(t + 2) mod 16 = (k + 2) mod 16"
    "t mod 16 = k mod 16"
    using mod_add_self2 [of "k + 13" 16] mod_add_self2 [of "k + 8" 16] mod_add_self2 [of "k + 2" 16]
    by (simp_all add: t)
  moreover have "schedule M t = rol (schedule M (k + 13) XOR schedule M (k + 8) XOR schedule M (k + 2) XOR schedule M k) 1"
    by (subst schedule_rol) (simp add: t add.commute)
  ultimately show ?thesis
    using l [of "k + 13"] l [of "k + 8"] l [of "k + 2"] l [of k] by (simp add: blk_def Let_def t)
qed

lemma blk0_schedule:
  assumes "sched_inv M raw t l" and "t < 16"
    and "if little then (rol (raw t) 24 AND 0xFF00FF00) OR (rol (raw t) 8 AND 0x00FF00FF) = M t else raw t = M t"
  shows "blk0 little t l = (l[t mod 16 := schedule M t], schedule M t)"
proof -
  have "l ! t = raw t" "schedule M t = M t" "length l = 16"
    using assms(1,2) by (simp_all add: sched_inv_def schedule_rol)
  then show ?thesis
    using assms(2,3) list_update_id [of l t] by (cases little) (simp_all add: blk0_def Let_def)
qed

lemma fold_rounds_ex:
  assumes "\<And>t l s. \<lbrakk>m \<le> t; t < n; sched_inv M raw t l\<rbrakk> \<Longrightarrow> R t (l, s) = (l[t mod 16 := schedule M t], sha_round M t s)"
    and "sched_inv M raw m l" and "m \<le> n"
  shows "\<exists>l'. fold R [m..<n] (l, s) = (l', fold (sha_round M) [m..<n] s) \<and> sched_inv M raw n l'"
  using assms(3,1,2)
proof (induction n rule: dec_induct)
  case (step n)
  then obtain l' where "fold R [m..<n] (l, s) = (l', fold (sha_round M) [m..<n] s)" "sched_inv M raw n l'"
    by auto
  then show ?case
    using step.prems(1) [of n l'] step.hyps sched_inv_update [of M raw n l'] by auto
qed simp

lemma fold_rounds:
  assumes "\<And>t l s. \<lbrakk>m \<le> t; t < n; sched_inv M raw t l\<rbrakk> \<Longrightarrow> R t (l, s) = (l[t mod 16 := schedule M t], sha_round M t s)"
    and "sched_inv M raw m l" and "m \<le> n"
  obtains l' where "fold R [m..<n] (l, s) = (l', fold (sha_round M) [m..<n] s)" and "sched_inv M raw n l'"
  using fold_rounds_ex [OF assms, of s] by blast

section \<open>The rounds of the code\<close>

lemma choose_xor: "((w AND (x XOR y)) XOR y) = ((w AND x) OR (NOT w AND y))" for w x y :: u32
  by (rule bit_word_eqI) (auto simp: bit_simps)

lemma majority_or: "(((w OR x) AND y) OR (w AND x)) = ((w AND x) OR (w AND y) OR (x AND y))" for w x y :: u32
  by (rule bit_word_eqI) (auto simp: bit_simps)

lemmas round_simps = sha_round_rol sha_f_def sha_K_def choose_xor majority_or

lemma R0_round:
  assumes "blk0 little t l = (l', schedule M t)" and "t < 16"
  shows "R0 little t (l, s) = (l', sha_round M t s)"
  using assms by (cases s) (simp add: R0_def round_simps add.assoc add.commute add.left_commute)

lemma R_round:
  assumes "sched_inv M raw t l" and "16 \<le> t"
  shows "t < 20 \<Longrightarrow> R1 t (l, s) = (l[t mod 16 := schedule M t], sha_round M t s)"
    and "20 \<le> t \<Longrightarrow> t < 40 \<Longrightarrow> R2 t (l, s) = (l[t mod 16 := schedule M t], sha_round M t s)"
    and "40 \<le> t \<Longrightarrow> t < 60 \<Longrightarrow> R3 t (l, s) = (l[t mod 16 := schedule M t], sha_round M t s)"
    and "60 \<le> t \<Longrightarrow> R4 t (l, s) = (l[t mod 16 := schedule M t], sha_round M t s)"
proof -
  note simps = blk_schedule [OF assms] round_simps add.assoc add.commute add.left_commute
  show "t < 20 \<Longrightarrow> R1 t (l, s) = (l[t mod 16 := schedule M t], sha_round M t s)"
    by (cases s) (simp add: R1_def simps)
  show "20 \<le> t \<Longrightarrow> t < 40 \<Longrightarrow> R2 t (l, s) = (l[t mod 16 := schedule M t], sha_round M t s)"
    by (cases s) (simp add: R2_def simps)
  show "40 \<le> t \<Longrightarrow> t < 60 \<Longrightarrow> R3 t (l, s) = (l[t mod 16 := schedule M t], sha_round M t s)"
    by (cases s) (simp add: R3_def simps)
  show "60 \<le> t \<Longrightarrow> R4 t (l, s) = (l[t mod 16 := schedule M t], sha_round M t s)"
    by (cases s) (simp add: R4_def simps)
qed

section \<open>One block\<close>

lemma byte_swap:
  "(rol (from_le [a, b, c, d]) 24 AND 0xFF00FF00) OR (rol (from_le [a, b, c, d]) 8 AND 0x00FF00FF)
    = (from_le [d, c, b, a] :: u32)" (is "?l = ?r")
proof (rule bit_word_eqI)
  have m: "(0xFF00FF00 :: u32) = push_bit 24 (mask 8) OR push_bit 8 (mask 8)"
    "(0x00FF00FF :: u32) = push_bit 16 (mask 8) OR mask 8"
    by (simp_all add: mask_eq_exp_minus_1)
  have len: "bit x i \<Longrightarrow> i < 8" for x :: u8 and i
    by (auto dest: bit_imp_le_length)
  fix i assume "i < LENGTH(32)"
  then consider "i < 8" | "8 \<le> i" "i < 16" | "16 \<le> i" "i < 24" | "24 \<le> i" "i < 32"
    by fastforce
  then show "bit ?l i = bit ?r i"
    unfolding m by cases (auto simp: rol_def bit_simps dest: len)
qed

lemma length_4E:
  assumes "length xs = 4"
  obtains a b c d where "xs = [a, b, c, d]"
  using assms by (auto simp: numeral_eq_Suc length_Suc_conv)

lemma CHAR64LONG16_word:
  assumes "length bs = 64" and "t < 16"
  shows "if little then (rol (CHAR64LONG16 little bs ! t) 24 AND 0xFF00FF00) OR (rol (CHAR64LONG16 little bs ! t) 8 AND 0x00FF00FF)
        = be_word bs t else CHAR64LONG16 little bs ! t = be_word bs t"
proof -
  have "length (take 4 (drop (4 * t) bs)) = 4"
    using assms by simp
  then obtain a b c d where w: "take 4 (drop (4 * t) bs) = [a, b, c, d]"
    by (rule length_4E)
  have "CHAR64LONG16 little bs ! t = (if little then from_le [a, b, c, d] else from_le [d, c, b, a])"
    using assms(2) w by (simp add: CHAR64LONG16_def Let_def del: from_le.simps(2))
  moreover have "be_word bs t = from_le [d, c, b, a]"
    using w by (simp add: be_word_def del: from_le.simps(2))
  ultimately show ?thesis
    using byte_swap [of a b c d] by (cases little) (simp_all del: from_le.simps(2))
qed

lemma SHA1Transform_compress:
  assumes len: "length bs = 64"
  shows "SHA1Transform little st bs = compress st bs"
proof -
  let ?M = "be_word bs" and ?l = "CHAR64LONG16 little bs"
  let ?raw = "\<lambda>t. ?l ! t" and ?f = "fold (sha_round (be_word bs))"
  have inv: "sched_inv ?M ?raw 0 ?l"
    by (simp add: sched_inv_def CHAR64LONG16_def)
  have r0: "R0 little t (l, s) = (l[t mod 16 := schedule ?M t], sha_round ?M t s)"
    if "0 \<le> t" "t < 16" "sched_inv ?M ?raw t l" for t l s
    using blk0_schedule [OF that(3,2) CHAR64LONG16_word [OF len that(2)]] that(2) by (rule R0_round)
  obtain l1 where 1: "fold (R0 little) [0..<16] (?l, st) = (l1, ?f [0..<16] st)" "sched_inv ?M ?raw 16 l1"
    by (rule fold_rounds [OF r0 inv]) simp_all
  obtain l2 where 2: "fold R1 [16..<20] (l1, ?f [0..<16] st) = (l2, ?f [16..<20] (?f [0..<16] st))" "sched_inv ?M ?raw 20 l2"
    by (rule fold_rounds [OF _ 1(2), of 20 R1]) (rule R_round, simp_all)
  let ?s2 = "?f [16..<20] (?f [0..<16] st)"
  obtain l3 where 3: "fold R2 [20..<40] (l2, ?s2) = (l3, ?f [20..<40] ?s2)" "sched_inv ?M ?raw 40 l3"
    by (rule fold_rounds [OF _ 2(2), of 40 R2]) (rule R_round, simp_all)
  let ?s3 = "?f [20..<40] ?s2"
  obtain l4 where 4: "fold R3 [40..<60] (l3, ?s3) = (l4, ?f [40..<60] ?s3)" "sched_inv ?M ?raw 60 l4"
    by (rule fold_rounds [OF _ 3(2), of 60 R3]) (rule R_round, simp_all)
  obtain l5 where 5: "fold R4 [60..<80] (l4, ?f [40..<60] ?s3) = (l5, ?f [60..<80] (?f [40..<60] ?s3))"
    by (rule fold_rounds [OF _ 4(2), of 80 R4]) (rule R_round, simp_all)
  have split: "[0..<80] = [0..<16] @ [16..<20] @ [20..<40] @ [40..<60] @ [60..<(80 :: nat)]"
    using upt_add_eq_append [of 0 16 64] upt_add_eq_append [of 16 20 60] upt_add_eq_append [of 20 40 40]
      upt_add_eq_append [of 40 60 20] by simp
  show ?thesis
    unfolding SHA1Transform_def compress_def Let_def 1(1) 2(1) 3(1) 4(1) 5 split fold_append comp_def
    by (simp only: sha_add_def split_def fst_conv snd_conv)
qed

section \<open>A message in pieces\<close>

function sha_blocks :: "sha_state \<Rightarrow> bytes \<Rightarrow> sha_state" where
  "sha_blocks st bs = (if 64 \<le> length bs then sha_blocks (compress st (take 64 bs)) (drop 64 bs) else st)"
  by pat_completeness auto
termination
  by (relation "measure (\<lambda>(_, bs). length bs)") auto

declare sha_blocks.simps [simp del]

text \<open>The bytes after the last whole block.\<close>

definition leftover :: "bytes \<Rightarrow> bytes" where
  "leftover bs = drop (length bs - length bs mod 64) bs"

lemma length_leftover [simp]: "length (leftover bs) = length bs mod 64"
  by (simp add: leftover_def)

lemma leftover_step: "64 \<le> length bs \<Longrightarrow> leftover bs = leftover (drop 64 bs)"
proof -
  assume "64 \<le> length bs"
  moreover from this have "length bs mod 64 = (length bs - 64) mod 64"
    by (simp add: le_mod_geq)
  moreover have "(length bs - 64) mod 64 \<le> length bs - 64"
    by simp
  ultimately show ?thesis
    by (simp add: leftover_def)
qed

lemma sha_blocks_step: "64 \<le> length bs \<Longrightarrow> sha_blocks st bs = sha_blocks (compress st (take 64 bs)) (drop 64 bs)"
  and sha_blocks_stop: "length bs < 64 \<Longrightarrow> sha_blocks st bs = st"
  by (simp_all add: sha_blocks.simps [of st bs])

lemma sha_blocks_append: "sha_blocks st (bs @ d) = sha_blocks (sha_blocks st bs) (leftover bs @ d)"
proof (induction st bs rule: sha_blocks.induct)
  case (1 st bs)
  show ?case
  proof (cases "64 \<le> length bs")
    case True
    then show ?thesis
      using 1 by (simp add: leftover_step sha_blocks_step [of bs] sha_blocks_step [of "bs @ d"])
  next
    case False
    then show ?thesis
      by (simp add: leftover_def sha_blocks_stop [of bs])
  qed
qed

lemma leftover_append: "leftover (bs @ d) = leftover (leftover bs @ d)"
proof (induction bs rule: length_induct)
  case (1 bs)
  show ?case
  proof (cases "64 \<le> length bs")
    case True
    then have "leftover (drop 64 bs @ d) = leftover (leftover (drop 64 bs) @ d)"
      by (intro 1 [rule_format]) simp
    moreover have "leftover (bs @ d) = leftover (drop 64 bs @ d)"
      using leftover_step [of "bs @ d"] True by simp
    ultimately show ?thesis
      using leftover_step [OF True] by simp
  qed (simp add: leftover_def)
qed

text \<open>
  \<open>sha_inv ctx msg\<close>: the context has taken in the message \<open>msg\<close>. The buffer holds the bytes after the
  last whole block, and the two counters hold the length in bits.
\<close>

abbreviation sha_H0 :: sha_state where
  "sha_H0 \<equiv> (0x67452301, 0xEFCDAB89, 0x98BADCFE, 0x10325476, 0xC3D2E1F0)"

definition sha_data :: "SHA1_CTX \<Rightarrow> bytes \<Rightarrow> bool" where
  "sha_data ctx msg \<longleftrightarrow> length (sc_buffer ctx) = 64 \<and> sc_state ctx = sha_blocks sha_H0 msg
     \<and> take (length msg mod 64) (sc_buffer ctx) = leftover msg"

definition sha_inv :: "SHA1_CTX \<Rightarrow> bytes \<Rightarrow> bool" where
  "sha_inv ctx msg \<longleftrightarrow> sha_data ctx msg
     \<and> sc_count0 ctx = of_nat (8 * length msg) \<and> sc_count1 ctx = of_nat (8 * length msg div 2 ^ 32)"

lemma SHA1Init_inv: "length buf = 64 \<Longrightarrow> sha_inv (SHA1Init buf) []"
  by (simp add: sha_inv_def sha_data_def SHA1Init_def sha_blocks.simps leftover_def)

lemma bits_to_bytes: "unat (of_nat (8 * n) :: u32) div 8 mod 64 = n mod 64"
proof -
  have "8 * n mod 2 ^ 32 div 8 mod 64 = n mod 64"
    using mult_mod_right [of 8 n "2 ^ 29", symmetric] by (simp add: mod_mod_cancel)
  then show ?thesis
    unfolding unat_of_nat by simp
qed

lemma buffered_bytes:
  assumes "sc_count0 ctx = of_nat (8 * n)"
  shows "unat (drop_bit 3 (sc_count0 ctx) AND 63) = n mod 64"
proof -
  have m: "(63 :: u32) = mask 6"
    by (simp add: mask_eq_exp_minus_1)
  have "unat (drop_bit 3 (sc_count0 ctx) AND 63) = unat (sc_count0 ctx) div 8 mod 64"
    unfolding m by (simp add: take_bit_eq_mask [symmetric] take_bit_eq_mod drop_bit_eq_div unat_div unat_mod)
  then show ?thesis
    unfolding assms bits_to_bytes .
qed

lemma update_loop_blocks:
  assumes "i \<le> length d" and "length d + 64 < 2 ^ 32"
  shows "update_loop little st d i = Inr (sha_blocks st (drop i d), length d - length (leftover (drop i d)))"
  using assms
proof (induction little st d i rule: update_loop.induct)
  case (1 little st d i)
  have c: "(of_nat i + 63 :: u32) < of_nat (length d) \<longleftrightarrow> i + 64 \<le> length d"
  proof -
    have "unat (of_nat i + 63 :: u32) = i + 63"
      using 1(2,3) by (subst unat_add_lem [THEN iffD1]) (simp_all add: unat_of_nat_u32)
    then show ?thesis
      using 1(2,3) by (auto simp: word_less_nat_alt unat_of_nat_u32)
  qed
  show ?case
  proof (cases "i + 64 \<le> length d")
    case True
    then have "length (take 64 (drop i d)) = 64" "64 \<le> length (drop i d)"
      by simp_all
    then show ?thesis
      using True c 1
      by (subst update_loop.simps)
         (simp add: SHA1Transform_compress sha_blocks_step [of "drop i d"] leftover_step [of "drop i d"] add.commute)
  next
    case False
    then show ?thesis
      using c 1(2) by (subst update_loop.simps) (simp add: sha_blocks_stop leftover_def)
  qed
qed

lemma carry:
  fixes N :: nat
  assumes y: "y < N"
  shows "(x + y) div N = x div N + (if (x + y) mod N < x mod N then 1 else 0)"
proof -
  define a where "a = x mod N"
  have x: "a < N" and e: "x + y = (a + y) + x div N * N"
    using y by (simp_all add: a_def)
  have d: "(x + y) div N = x div N + (a + y) div N" and m: "(x + y) mod N = (a + y) mod N"
    using y unfolding e by simp_all
  show ?thesis
  proof (cases "a + y < N")
    case True
    then show ?thesis
      unfolding d m a_def [symmetric] by simp
  next
    case False
    then have q: "(a + y) div N = 1"
      using x y by (intro div_nat_eqI) simp_all
    then have "(a + y) mod N = a + y - N"
      using minus_mult_div_eq_mod [of "a + y" N] by simp
    then show ?thesis
      unfolding d m a_def [symmetric] using q False x y by simp
  qed
qed

lemma count_update:
  assumes "n < 2 ^ 29" and "c0 = of_nat (8 * L)" and "c1 = of_nat (8 * L div 2 ^ 32)"
  shows "c0 + push_bit 3 (of_nat n) = (of_nat (8 * (L + n)) :: u32)"
    and "(if c0 + push_bit 3 (of_nat n) < c0 then c1 + (drop_bit 29 (of_nat n) + 1) else c1)
      = (of_nat (8 * (L + n) div 2 ^ 32) :: u32)"
proof -
  show c: "c0 + push_bit 3 (of_nat n) = (of_nat (8 * (L + n)) :: u32)"
    using assms(2) by (simp add: push_bit_eq_mult algebra_simps)
  have "unat (drop_bit 29 (of_nat n :: u32)) = 0"
    using assms(1) by (simp add: unsigned_drop_bit_eq unat_of_nat_u32 drop_bit_eq_div unat_div)
  then have z: "drop_bit 29 (of_nat n :: u32) = 0"
    by (simp only: unat_eq_0)
  have "of_nat (8 * (L + n)) < (of_nat (8 * L) :: u32) \<longleftrightarrow> (8 * L + 8 * n) mod 2 ^ 32 < 8 * L mod 2 ^ 32"
    unfolding word_less_nat_alt unat_of_nat distrib_left by simp
  moreover have "8 * (L + n) div 2 ^ 32
      = 8 * L div 2 ^ 32 + (if (8 * L + 8 * n) mod 2 ^ 32 < 8 * L mod 2 ^ 32 then 1 else 0)"
    using carry [of "8 * n" "2 ^ 32" "8 * L"] assms(1) by (simp add: algebra_simps)
  ultimately show "(if c0 + push_bit 3 (of_nat n) < c0 then c1 + (drop_bit 29 (of_nat n) + 1) else c1)
      = (of_nat (8 * (L + n) div 2 ^ 32) :: u32)"
    unfolding c z unfolding assms(2,3) by simp
qed

lemma add_count_simps [simp]: "sc_state (add_count n ctx) = sc_state ctx" "sc_buffer (add_count n ctx) = sc_buffer ctx"
  by (simp_all add: add_count_def Let_def)

text \<open>The state and the buffer after \<open>SHA1Update\<close>.\<close>

lemma SHA1Update_data:
  assumes data: "sha_data ctx msg" and cnt: "sc_count0 ctx = of_nat (8 * length msg)" and len: "length d + 64 < 2 ^ 32"
  shows "\<exists>ctx'. SHA1Update little ctx d = Inr ctx' \<and> sha_data ctx' (msg @ d)"
proof -
  define k where "k = length msg mod 64"
  let ?n = "of_nat (length d) :: u32"
  let ?j = "drop_bit 3 (sc_count0 ctx) AND 63"
  let ?c = "add_count ?n ctx"
  have buf: "length (sc_buffer ctx) = 64" "take k (sc_buffer ctx) = leftover msg"
    and st: "sc_state ctx = sha_blocks sha_H0 msg"
    using data by (simp_all add: sha_data_def k_def)
  have j: "unat ?j = k" and k: "k < 64"
    using buffered_bytes [OF cnt] by (simp_all add: k_def)
  have n: "unat ?n = length d"
    using len by (simp add: unat_of_nat_u32)
  have jn: "?j + ?n > 63 \<longleftrightarrow> k + length d > 63"
  proof -
    have "unat (?j + ?n) = k + length d"
      using j n k len by (subst unat_add_lem [THEN iffD1]) simp_all
    then show ?thesis
      by (simp add: word_less_nat_alt)
  qed
  show ?thesis
  proof (cases "k + length d > 63")
    case False
    let ?buf = "take k (sc_buffer ctx) @ d @ drop (k + length d) (sc_buffer ctx)"
    have "SHA1Update little ctx d = Inr (?c\<lparr>sc_buffer := ?buf\<rparr>)"
      using False jn j n buf(1) by (simp add: SHA1Update_def Let_def copy_into_def)
    moreover have "sha_blocks sha_H0 (msg @ d) = sha_blocks sha_H0 msg"
      using False by (simp add: sha_blocks_append [of _ msg] sha_blocks_stop k_def)
    moreover have lo: "leftover (msg @ d) = leftover msg @ d"
      unfolding leftover_append [of msg] using False by (simp add: leftover_def [of "leftover msg @ d"] k_def)
    moreover have "length (msg @ d) mod 64 = k + length d"
      using arg_cong [OF lo, of length] by (simp add: k_def)
    ultimately show ?thesis
      using buf st False by (simp add: sha_data_def k_def [symmetric])
  next
    case True
    let ?d2 = "drop (64 - k) d"
    let ?r = "length (leftover ?d2)"
    define b where "b = leftover msg @ take (64 - k) d"
    have lb: "length b = 64" and eb: "take k (sc_buffer ctx) @ take (64 - k) d @ drop 64 (sc_buffer ctx) = b"
      using True k buf by (simp_all add: b_def k_def [symmetric])
    have split: "take 64 (leftover msg @ d) = b" "drop 64 (leftover msg @ d) = ?d2" "64 \<le> length (leftover msg @ d)"
      using True k by (simp_all add: b_def k_def [symmetric])
    have r: "?r \<le> length ?d2" "?r < 64" "64 - k \<le> length d"
      using True by simp_all
    have loop: "update_loop little (SHA1Transform little (sc_state ctx) b) d (64 - k)
        = Inr (sha_blocks (compress (sc_state ctx) b) ?d2, length d - ?r)"
      using update_loop_blocks [of "64 - k" d] r(3) len lb by (simp add: SHA1Transform_compress)
    have dr: "drop (length d - ?r) d = leftover ?d2"
      using r by (simp add: leftover_def)
    have "?r \<le> length d"
      using r(1) by simp
    then have "unat (?n - of_nat (length d - ?r)) = ?r"
      using r(2) by (simp add: of_nat_diff unat_of_nat_u32)
    then have "SHA1Update little ctx d = Inr (?c\<lparr>sc_state := sha_blocks (compress (sc_state ctx) b) ?d2,
        sc_buffer := leftover ?d2 @ drop ?r b\<rparr>)"
      using True jn j n buf(1) lb loop dr r k eb by (simp add: SHA1Update_def Let_def copy_into_def)
    moreover have "sha_blocks sha_H0 (msg @ d) = sha_blocks (compress (sc_state ctx) b) ?d2"
      unfolding sha_blocks_append [of _ msg] sha_blocks_step [OF split(3)] split(1,2) st ..
    moreover have lo: "leftover (msg @ d) = leftover ?d2"
      unfolding leftover_append [of msg] leftover_step [OF split(3)] split(2) ..
    moreover have "length (msg @ d) mod 64 = ?r"
      using arg_cong [OF lo, of length] by simp
    ultimately show ?thesis
      using lb r(2) unfolding sha_data_def by simp
  qed
qed

text \<open>A call of \<open>SHA1Update\<close> with less than half a gigabyte appends its data to the message.\<close>

lemma SHA1Update_ok:
  assumes inv: "sha_inv ctx msg" and len: "length d < 2 ^ 29"
  shows "\<exists>ctx'. SHA1Update little ctx d = Inr ctx' \<and> sha_inv ctx' (msg @ d)"
proof -
  have cnt: "sc_count0 ctx = of_nat (8 * length msg)" "sc_count1 ctx = of_nat (8 * length msg div 2 ^ 32)"
    using inv by (simp_all add: sha_inv_def)
  obtain ctx' where u: "SHA1Update little ctx d = Inr ctx'" "sha_data ctx' (msg @ d)"
    using SHA1Update_data [OF _ cnt(1), of d little] inv len by (auto simp: sha_inv_def)
  show ?thesis
    using u count_update [OF len cnt] SHA1Update_counts [OF u(1)] by (simp only: sha_inv_def length_append) simp
qed

section \<open>The digest\<close>

definition finalcount :: "SHA1_CTX \<Rightarrow> bytes" where
  "finalcount ctx = map (\<lambda>i. ucast (drop_bit ((3 - i mod 4) * 8) (if 4 \<le> i then sc_count0 ctx else sc_count1 ctx) AND 255))
     [0..<8]"

text \<open>The padding loop. It ends because every step adds eight bits to the count.\<close>

lemma and_504: "c AND 504 = 448 \<longleftrightarrow> (unat c div 8) mod 64 = 56" for c :: u32
proof -
  have m: "(504 :: u32) = push_bit 3 (mask 6)"
    by (simp add: mask_eq_exp_minus_1)
  have "c AND 504 = push_bit 3 (take_bit 6 (drop_bit 3 c))"
    unfolding m by (rule bit_word_eqI) (auto simp: bit_simps)
  also have "\<dots> = 448 \<longleftrightarrow> take_bit 6 (drop_bit 3 c) = 56"
  proof -
    have "unat (take_bit 6 (drop_bit 3 c)) < 64"
      by (simp add: take_bit_eq_mod unat_mod)
    then have "unat (push_bit 3 (take_bit 6 (drop_bit 3 c))) = 8 * unat (take_bit 6 (drop_bit 3 c))"
      by (simp add: push_bit_eq_mult unat_word_ariths)
    then show ?thesis
      by (simp add: word_unat_eq_iff)
  qed
  also have "\<dots> \<longleftrightarrow> (unat c div 8) mod 64 = 56"
    by (simp add: word_unat_eq_iff take_bit_eq_mod drop_bit_eq_div unat_mod unat_div)
  finally show ?thesis .
qed

lemma pad_step: "(unat (c + 8) div 8) mod 64 = Suc (unat c div 8) mod 64" for c :: u32
proof -
  have "unat (c + 8) = (unat c + 8) mod (8 * 2 ^ 29)"
    by (simp add: unat_word_ariths)
  moreover have "(unat c + 8) div 8 = Suc (unat c div 8)"
    by simp
  ultimately have "unat (c + 8) div 8 = Suc (unat c div 8) mod 2 ^ 29"
    using mod_mult2_eq [of "unat c + 8" 8 "2 ^ 29"] by simp
  then show ?thesis
    by (simp add: mod_mod_cancel)
qed

lemma pad_measure:
  assumes "q < 64" and "q \<noteq> (56 :: nat)"
  shows "(120 - q) mod 64 = Suc ((120 - Suc q mod 64) mod 64)"
proof -
  consider "q < 56" | "56 < q" "q < 63" | "q = 63"
    using assms by linarith
  then show ?thesis
    by cases (simp_all add: le_mod_geq)
qed

function pad_loop :: "bool \<Rightarrow> SHA1_CTX \<Rightarrow> abort + SHA1_CTX" where
  "pad_loop little ctx =
     (if sc_count0 ctx AND 504 \<noteq> 448
      then case SHA1Update little ctx [0] of Inl e \<Rightarrow> Inl e | Inr ctx \<Rightarrow> pad_loop little ctx
      else Inr ctx)"
  by pat_completeness auto
termination
proof (relation "measure (\<lambda>(_, ctx). (120 - (unat (sc_count0 ctx) div 8) mod 64) mod 64)")
  fix little ctx ctx'
  assume c: "sc_count0 ctx AND 504 \<noteq> 448" and u: "SHA1Update little ctx [0] = Inr ctx'"
  define q where "q = (unat (sc_count0 ctx) div 8) mod 64"
  have "sc_count0 ctx' = sc_count0 ctx + 8"
    using SHA1Update_counts(1) [OF u] by (simp add: push_bit_eq_mult)
  then have "(unat (sc_count0 ctx') div 8) mod 64 = Suc q mod 64"
    by (simp add: pad_step q_def mod_Suc_eq)
  moreover have "q < 64" "q \<noteq> 56"
    using c by (simp_all add: q_def and_504)
  then have "(120 - q) mod 64 = Suc ((120 - Suc q mod 64) mod 64)"
    by (rule pad_measure)
  ultimately show "((little, ctx'), little, ctx) \<in> measure (\<lambda>(_, ctx). (120 - (unat (sc_count0 ctx) div 8) mod 64) mod 64)"
    by (simp add: q_def)
qed simp

declare pad_loop.simps [simp del]

definition state_words :: "sha_state \<Rightarrow> u32 list" where
  "state_words = (\<lambda>(a, b, c, d, e). [a, b, c, d, e])"

definition digest_bytes :: "sha_state \<Rightarrow> bytes" where
  "digest_bytes st = map (\<lambda>i. ucast (drop_bit ((3 - i mod 4) * 8) (state_words st ! (i div 4)) AND 255)) [0..<20]"

definition SHA1Final :: "bool \<Rightarrow> SHA1_CTX \<Rightarrow> abort + bytes" where
  "SHA1Final little ctx =
     (let count = finalcount ctx in
      rbind (SHA1Update little ctx [0x80]) (\<lambda>ctx.
      rbind (pad_loop little ctx) (\<lambda>ctx.
      rbind (SHA1Update little ctx count) (\<lambda>ctx.
      Inr (digest_bytes (sc_state ctx))))))"

text \<open>The data of a message given to \<open>SHA1Update\<close> in pieces.\<close>

primrec SHA1Updates :: "bool \<Rightarrow> SHA1_CTX \<Rightarrow> bytes list \<Rightarrow> abort + SHA1_CTX" where
  "SHA1Updates little ctx [] = Inr ctx"
| "SHA1Updates little ctx (d # ds) = rbind (SHA1Update little ctx d) (\<lambda>ctx. SHA1Updates little ctx ds)"

text \<open>
  The digest of a message: pad it to whole blocks with its length in bits at the end, compress the blocks, and write the five words with
  their most significant byte first.
\<close>

definition sha_pad :: "bytes \<Rightarrow> bytes" where
  "sha_pad msg = msg @ 0x80 # replicate ((119 - length msg mod 64) mod 64) 0
     @ rev (to_le 8 (of_nat (8 * length msg) :: u64))"

definition sha1 :: "bytes \<Rightarrow> bytes" where
  "sha1 msg = (case sha_blocks sha_H0 (sha_pad msg) of
     (a, b, c, d, e) \<Rightarrow> concat (map (\<lambda>w. rev (to_le 4 w)) [a, b, c, d, e]))"

lemma digest_bytes_big_endian:
  "digest_bytes (a, b, c, d, e) = concat (map (\<lambda>w. rev (to_le 4 w)) [a, b, c, d, e])"
proof -
  have "to_le 4 w = [ucast w, ucast (drop_bit 8 w), ucast (drop_bit 16 w), ucast (drop_bit 24 w)]" for w :: u32
    by (simp add: numeral_eq_Suc drop_bit_drop_bit [of 8, simplified])
  moreover have "ucast (x AND 255) = (ucast x :: u8)" for x :: u32
  proof -
    have "x AND 255 = take_bit 8 x"
      by (simp add: take_bit_eq_mask mask_eq_exp_minus_1)
    then show ?thesis
      by (simp only:) (rule bit_word_eqI, auto simp: bit_simps)
  qed
  ultimately show ?thesis
    by (simp add: digest_bytes_def state_words_def upt_rec)
qed

section \<open>Properties\<close>

lemma SHA1Updates_ok:
  assumes "sha_inv ctx msg" and "\<forall>d \<in> set ds. length d < 2 ^ 29"
  shows "\<exists>ctx'. SHA1Updates little ctx ds = Inr ctx' \<and> sha_inv ctx' (msg @ concat ds)"
  using assms
proof (induction ds arbitrary: ctx msg)
  case (Cons d ds)
  then obtain ctx' where "SHA1Update little ctx d = Inr ctx'" "sha_inv ctx' (msg @ d)"
    using SHA1Update_ok by fastforce
  then show ?case
    using Cons.IH [of ctx' "msg @ d"] Cons.prems(2) by simp
qed simp

lemma sha_inv_padded: "sha_inv ctx msg \<Longrightarrow> sc_count0 ctx AND 504 = 448 \<longleftrightarrow> length msg mod 64 = 56"
  unfolding and_504 sha_inv_def by (simp only: bits_to_bytes)

lemma pad_loop_ok:
  assumes "sha_inv ctx msg" and "(120 - length msg mod 64) mod 64 = n"
  shows "\<exists>ctx'. pad_loop little ctx = Inr ctx' \<and> sha_inv ctx' (msg @ replicate n 0)"
  using assms
proof (induction n arbitrary: ctx msg rule: less_induct)
  case (less n)
  let ?q = "length msg mod 64"
  show ?case
  proof (cases "?q = 56")
    case True
    then show ?thesis
      using less.prems sha_inv_padded [OF less.prems(1)] by (subst pad_loop.simps) simp
  next
    case False
    obtain ctx' where u: "SHA1Update little ctx [0] = Inr ctx'" "sha_inv ctx' (msg @ [0])"
      using SHA1Update_ok [OF less.prems(1), of "[0]" little] by auto
    let ?n = "(120 - length (msg @ [0 :: u8]) mod 64) mod 64"
    have n: "n = Suc ?n"
      using pad_measure [of ?q] False less.prems(2) by (simp add: mod_Suc_eq)
    then obtain ctx'' where "pad_loop little ctx' = Inr ctx''" "sha_inv ctx'' ((msg @ [0]) @ replicate ?n 0)"
      using less.IH [OF _ u(2) refl] by auto
    then show ?thesis
      using u(1) False sha_inv_padded [OF less.prems(1)] n by (subst pad_loop.simps) simp
  qed
qed

lemma of_nat_u64_parts:
  "(of_nat n :: u32) = ucast (of_nat n :: u64)"
  "(of_nat (n div 2 ^ 32) :: u32) = ucast (drop_bit 32 (of_nat n :: u64))"
proof -
  have "n mod 2 ^ 64 div 2 ^ 32 mod 2 ^ 32 = n div 2 ^ 32 mod 2 ^ (32 :: nat)"
    using mod_mult2_eq [of n "2 ^ 32" "2 ^ 32"] by simp
  then show "(of_nat (n div 2 ^ 32) :: u32) = ucast (drop_bit 32 (of_nat n :: u64))"
    by (simp add: word_unat_eq_iff unsigned_ucast_eq unsigned_drop_bit_eq unat_of_nat take_bit_eq_mod drop_bit_eq_div unat_div)
  show "(of_nat n :: u32) = ucast (of_nat n :: u64)"
    by (simp add: word_unat_eq_iff unsigned_ucast_eq unat_of_nat take_bit_eq_mod mod_mod_cancel)
qed

lemma finalcount_bytes:
  assumes "sha_inv ctx msg"
  shows "finalcount ctx = rev (to_le 8 (of_nat (8 * length msg) :: u64))"
proof -
  define w :: u64 where "w = of_nat (8 * length msg)"
  have c: "sc_count0 ctx = ucast w" "sc_count1 ctx = ucast (drop_bit 32 w)"
    using assms of_nat_u64_parts [of "8 * length msg"] by (simp_all add: sha_inv_def w_def del: of_nat_mult)
  have b: "ucast (drop_bit k (ucast w :: u32) AND 255) = (ucast (drop_bit k w) :: u8)"
    "ucast (drop_bit k (ucast (drop_bit 32 w) :: u32) AND 255) = (ucast (drop_bit (32 + k) w) :: u8)" if "k + 8 \<le> 32" for k
  proof -
    have m: "(255 :: u32) = mask 8"
      by (simp add: mask_eq_exp_minus_1)
    show "ucast (drop_bit k (ucast w :: u32) AND 255) = (ucast (drop_bit k w) :: u8)"
      "ucast (drop_bit k (ucast (drop_bit 32 w) :: u32) AND 255) = (ucast (drop_bit (32 + k) w) :: u8)"
      unfolding m using that by (auto intro!: bit_word_eqI simp: bit_simps add.assoc)
  qed
  have u: "[0..<8] = [0, 1, 2, 3, 4, 5, 6, 7 :: nat]"
    by (simp add: upt_conv_Cons)
  have t: "to_le (numeral n) x = ucast x # to_le (pred_numeral n) (drop_bit 8 x)" for n and x :: u64
    by (simp add: numeral_eq_Suc)
  show ?thesis
    unfolding w_def [symmetric] finalcount_def c u by (simp add: t b b [of 0, simplified])
qed

lemma SHA1Final_ok:
  assumes "sha_inv ctx msg"
  shows "SHA1Final little ctx = Inr (sha1 msg)"
proof -
  obtain c1 where 1: "SHA1Update little ctx [0x80] = Inr c1" "sha_inv c1 (msg @ [0x80])"
    using SHA1Update_ok [OF assms, of "[0x80]" little] by auto
  let ?k = "(119 - length msg mod 64) mod 64"
  have k: "(120 - length (msg @ [0x80 :: u8]) mod 64) mod 64 = ?k"
  proof (cases "length msg mod 64 = 63")
    case False
    then have "Suc (length msg mod 64) < 64"
      using mod_less_divisor [of 64 "length msg"] by linarith
    then have "length (msg @ [0x80 :: u8]) mod 64 = Suc (length msg mod 64)"
      by (simp add: mod_Suc)
    then show ?thesis
      by simp
  qed (simp add: mod_Suc)
  obtain c2 where 2: "pad_loop little c1 = Inr c2" "sha_inv c2 ((msg @ [0x80]) @ replicate ?k 0)"
    using pad_loop_ok [OF 1(2) k, of little] by auto
  have "length (finalcount ctx) < 2 ^ 29"
    by (simp add: finalcount_def)
  from SHA1Update_ok [OF 2(2) this, of little]
  obtain c3 where 3: "SHA1Update little c2 (finalcount ctx) = Inr c3"
    "sha_inv c3 (((msg @ [0x80]) @ replicate ?k 0) @ finalcount ctx)"
    by auto
  then have "sc_state c3 = sha_blocks sha_H0 (sha_pad msg)"
    by (simp add: sha_inv_def sha_data_def sha_pad_def finalcount_bytes [OF assms])
  then show ?thesis
    using 1 2 3 by (simp add: SHA1Final_def Let_def sha1_def digest_bytes_big_endian [simplified] split: prod.split)
qed

text \<open>The published digest of the message abc, with the states of the code after each group of rounds.\<close>

lemma rol_numeral:
  assumes "n < 32"
  shows "rol (numeral m) n = word_of_nat (take_bit 32 (numeral m * 2 ^ n) + take_bit 32 (numeral m) div 2 ^ (32 - n))"
proof -
  let ?x = "numeral m :: u32"
  have "push_bit n ?x AND drop_bit (32 - n) ?x = 0"
    using assms by (intro bit_word_eqI) (auto simp: bit_simps dest: bit_imp_le_length)
  then have "rol ?x n = push_bit n ?x + drop_bit (32 - n) ?x"
    by (simp add: rol_def disjunctive_add_eq_or)
  moreover have "(word_of_nat (numeral m * 2 ^ n) :: u32) = word_of_nat (take_bit 32 (numeral m * 2 ^ n))"
    unfolding word_of_nat_eq_iff by simp
  then have "push_bit n ?x = word_of_nat (take_bit 32 (numeral m * 2 ^ n))"
    by (simp add: push_bit_eq_mult)
  moreover have "drop_bit (32 - n) ?x = word_of_nat (take_bit 32 (numeral m) div 2 ^ (32 - n))"
  proof -
    have "unat (drop_bit (32 - n) ?x) = take_bit 32 (numeral m) div 2 ^ (32 - n)"
      unfolding unat_drop_bit_eq drop_bit_eq_div [of _ "unat _"] by (simp only: unsigned_numeral len_bit0 len_num1 mult.right_neutral) simp
    moreover have "w = word_of_nat (unat w)" for w :: u32
      by simp
    ultimately show ?thesis
      by metis
  qed
  ultimately show ?thesis
    by simp
qed

lemma rol_0: "rol 0 n = 0"
  by (simp add: rol_def)

definition abc :: bytes where
  "abc = [0x61, 0x62, 0x63]"

definition abc_block :: bytes where
  "abc_block = [0x61, 0x62, 0x63, 0x80, 0, 0, 0, 0, 0, 0, 0, 0, 0, 0, 0, 0, 0, 0, 0, 0, 0, 0, 0, 0, 0, 0, 0, 0, 0, 0, 0, 0,
     0, 0, 0, 0, 0, 0, 0, 0, 0, 0, 0, 0, 0, 0, 0, 0, 0, 0, 0, 0, 0, 0, 0, 0, 0, 0, 0, 0, 0, 0, 0, 0x18]"

lemma abc_pad: "sha_pad abc = abc_block"
  by code_simp

lemma abc_words: "CHAR64LONG16 False abc_block = [0x61626380, 0, 0, 0, 0, 0, 0, 0, 0, 0, 0, 0, 0, 0, 0, 0x18]"
  by code_simp

lemma upt_0_16: "[0..<16] = [0, 1, 2, 3, 4, 5, 6, 7, 8, 9, 10, 11, 12, 13, 14, 15 :: nat]"
  by (simp add: upt_rec)

lemma abc_rounds:
  "fold (R0 False) [0..<16] ([0x61626380, 0, 0, 0, 0, 0, 0, 0, 0, 0, 0, 0, 0, 0, 0, 0x18],
     0x67452301, 0xEFCDAB89, 0x98BADCFE, 0x10325476, 0xC3D2E1F0)
   = ([0x61626380, 0, 0, 0, 0, 0, 0, 0, 0, 0, 0, 0, 0, 0, 0, 0x18],
     0x20BDD62F, 0x196BEE77, 0x644A3DA5, 0x1181ED99, 0x18C623F9)"
  "fold R1 [16..<20] ([0x61626380, 0, 0, 0, 0, 0, 0, 0, 0, 0, 0, 0, 0, 0, 0, 0x18],
     0x20BDD62F, 0x196BEE77, 0x644A3DA5, 0x1181ED99, 0x18C623F9)
   = ([0xC2C4C700, 0, 0x30, 0x85898E01, 0, 0, 0, 0, 0, 0, 0, 0, 0, 0, 0, 0x18],
     0xFD9E1D7D, 0xDC64901D, 0x20AA99CA, 0xD3A49608, 0xC82F758B)"
  "fold R2 [20..<40] ([0xC2C4C700, 0, 0x30, 0x85898E01, 0, 0, 0, 0, 0, 0, 0, 0, 0, 0, 0, 0x18],
     0xFD9E1D7D, 0xDC64901D, 0x20AA99CA, 0xD3A49608, 0xC82F758B)
   = ([0x8E9A9202, 0x600, 0xB131C0F0, 0x16263BC6, 0x4EBED41E, 0x626380A1, 0x16263806, 0x18C0, 0x85898EC1, 0x16263806, 0, 0x180, 0x2C4C700C, 0xF0, 0x93AFB507, 0x5898E048],
     0x32DE1CBA, 0x4C986405, 0xF718E5CF, 0x3D447F6, 0xF72EEC32)"
  "fold R3 [40..<60] ([0x8E9A9202, 0x600, 0xB131C0F0, 0x16263BC6, 0x4EBED41E, 0x626380A1, 0x16263806, 0x18C0, 0x85898EC1, 0x16263806, 0, 0x180, 0x2C4C700C, 0xF0, 0x93AFB507, 0x5898E048],
     0x32DE1CBA, 0x4C986405, 0xF718E5CF, 0x3D447F6, 0xF72EEC32)
   = ([0xDA9415ED, 0x26380A16, 0x626383A1, 0x4EBF54DE, 0x3835B44B, 0xF600, 0x1E84C7A3, 0x98E04D98, 0x651D16A0, 0x62658CA1, 0x458544D6, 0x44584CB7, 0xE2BA3C2B, 0x60C0, 0x53A37CD, 0x74458547],
     0x3F52DE5A, 0x9D785FD, 0x3498BFD4, 0xF211824F, 0xD79915AB)"
  "fold R4 [60..<80] ([0xDA9415ED, 0x26380A16, 0x626383A1, 0x4EBF54DE, 0x3835B44B, 0xF600, 0x1E84C7A3, 0x98E04D98, 0x651D16A0, 0x62658CA1, 0x458544D6, 0x44584CB7, 0xE2BA3C2B, 0x60C0, 0x53A37CD, 0x74458547],
     0x3F52DE5A, 0x9D785FD, 0x3498BFD4, 0xF211824F, 0xD79915AB)
   = ([0x7CD45C9D, 0xF0000, 0xFB50753A, 0xEC6765E8, 0xBA3C2BE2, 0x60C000, 0x3A37CD05, 0x458546F4, 0xB8599DD6, 0x380A1A26, 0x1E02203, 0xE7CC3456, 0xE6E60B69, 0xF60A00, 0x5795EF4F, 0x822E0879],
     0x42541B35, 0x5738D5E1, 0x21834873, 0x681E6DF6, 0xD8FDF6AD)"
  by (simp_all add: upt_0_16 R0_def R1_def R2_def R3_def R4_def blk0_def blk_def rol_numeral rol_0 Let_def)

lemma abc_transform: "SHA1Transform False sha_H0 abc_block = (0xA9993E36, 0x4706816A, 0xBA3E2571, 0x7850C26C, 0x9CD0D89D)"
  unfolding SHA1Transform_def abc_words Let_def abc_rounds by simp

lemma sha1_abc: "sha1 abc
  = [0xA9, 0x99, 0x3E, 0x36, 0x47, 0x06, 0x81, 0x6A, 0xBA, 0x3E, 0x25, 0x71, 0x78, 0x50, 0xC2, 0x6C, 0x9C, 0xD0, 0xD8, 0x9D]"
proof -
  have len: "length abc_block = 64"
    by (simp add: abc_block_def)
  then have digest: "sha_blocks sha_H0 abc_block = (0xA9993E36, 0x4706816A, 0xBA3E2571, 0x7850C26C, 0x9CD0D89D)"
    using abc_transform SHA1Transform_compress [of abc_block False sha_H0] sha_blocks.simps [of _ "[]"]
    by (simp add: sha_blocks_step)
  show ?thesis
    unfolding sha1_def abc_pad digest by code_simp
qed

text \<open>C3 SHA-1: for a message given to \<open>SHA1Update\<close> in any number of pieces, each below half a gigabyte,
  \<open>SHA1Final\<close> returns, and returns the SHA-1 digest of the concatenation as FIPS 180 defines it, five words with the
  most significant byte first, on machines of either byte order and whatever the context's buffer held before.\<close>

theorem sha1_digest:
  assumes "length buf = 64" and "\<forall>d \<in> set ds. length d < 2 ^ 29"
  shows "rbind (SHA1Updates little (SHA1Init buf) ds) (SHA1Final little) = Inr (sha1 (concat ds))"
  using SHA1Updates_ok [OF SHA1Init_inv [OF assms(1)] assms(2), of little] SHA1Final_ok by auto

theorem sha1_digest_witness:
  "rbind (SHA1Updates True (SHA1Init (replicate 64 0)) [[0x61], [0x62, 0x63]]) (SHA1Final True)
    = Inr [0xA9, 0x99, 0x3E, 0x36, 0x47, 0x06, 0x81, 0x6A, 0xBA, 0x3E, 0x25, 0x71, 0x78, 0x50, 0xC2, 0x6C, 0x9C, 0xD0, 0xD8, 0x9D]"
  using sha1_digest [of "replicate 64 0" "[[0x61], [0x62, 0x63]]" True] sha1_abc by (simp add: abc_def)

text \<open>C31 The bit count of a large piece: \<open>SHA1Update\<close> adds the high bits of the length to the second
  word of the count only when the first one wraps. After one piece of exactly half a gigabyte both
  words are zero, as if nothing had been hashed, so the length in the padding is wrong.\<close>

theorem sha1_count_lost:
  assumes "length buf = 64" and "length d = 2 ^ 29"
  shows "\<exists>ctx. SHA1Update little (SHA1Init buf) d = Inr ctx \<and> sc_count0 ctx = 0 \<and> sc_count1 ctx = 0"
proof -
  have "sha_data (SHA1Init buf) []" "sc_count0 (SHA1Init buf) = of_nat (8 * length ([] :: bytes))"
    using SHA1Init_inv [OF assms(1)] by (simp_all add: sha_inv_def)
  then obtain ctx where u: "SHA1Update little (SHA1Init buf) d = Inr ctx"
    using SHA1Update_data [of "SHA1Init buf" "[]" d little] assms(2) by auto
  have "push_bit 3 (of_nat (length d) :: u32) = 0"
    unfolding assms(2) by (simp add: push_bit_eq_mult)
  then show ?thesis
    using u SHA1Update_counts [OF u] by (simp add: SHA1Init_def)
qed

theorem sha1_count_lost_witness:
  "\<exists>ctx. SHA1Update True (SHA1Init (replicate 64 0)) (replicate (2 ^ 29) 0) = Inr ctx \<and> sc_count0 ctx = 0 \<and> sc_count1 ctx = 0"
  by (rule sha1_count_lost) simp_all

end
