(* ===== verification/Ext4_Info.thy ===== *)
theory Ext4_Info
  imports Prelude
begin

text \<open>
  The parameters of an ext4 image: \<^verbatim>\<open>struct fs_info\<close> (what the caller gives), the defaults that
  \<^verbatim>\<open>make_ext4fs.c\<close> computes, the derived \<^verbatim>\<open>struct fs_aux_info\<close>
  (\<open>ext4_create_fs_aux_info\<close>), and which block groups hold a copy of the superblock.

  The file also fixes how the allocator's code fails. \<^verbatim>\<open>error\<close> prints a message and, unless
  \<^verbatim>\<open>force\<close> is set, jumps to \<^verbatim>\<open>setjmp_env\<close>; \<^verbatim>\<open>critical_error\<close> always jumps (\<open>Longjmp\<close>). The other
  outcomes are undefined behaviour of the C code made explicit: a pointer that is NULL or freed,
  an index outside its array, a division by zero, and a loop that does not end.
\<close>

datatype fault = Longjmp | BadPointer | BadIndex | DivByZero | Diverges

lemma rbind_cong [fundef_cong]:
  assumes "r = r'" and "\<And>x. r' = Inr x \<Longrightarrow> f x = f' x"
  shows "rbind r f = rbind r' f'"
  using assms by (cases r') simp_all

text \<open>\<^verbatim>\<open>error(...)\<close>: the code goes on when \<^verbatim>\<open>force\<close> is set.\<close>

definition error :: "bool \<Rightarrow> 'a \<Rightarrow> fault + 'a" where
  "error force x = (if force then Inr x else Inl Longjmp)"

text \<open>Unsigned division, and the macros \<^verbatim>\<open>DIV_ROUND_UP\<close> and \<^verbatim>\<open>EXT4_ALIGN\<close> at a word type.\<close>

definition u_div :: "'a::len word \<Rightarrow> 'a word \<Rightarrow> fault + 'a word" where
  "u_div x y = (if y = 0 then Inl DivByZero else Inr (x div y))"

definition DIV_ROUND_UP :: "'a::len word \<Rightarrow> 'a word \<Rightarrow> fault + 'a word" where
  "DIV_ROUND_UP x y = u_div (x + y - 1) y"

definition EXT4_ALIGN :: "'a::len word \<Rightarrow> 'a word \<Rightarrow> fault + 'a word" where
  "EXT4_ALIGN x y = rbind (DIV_ROUND_UP x y) (\<lambda>q. Inr (y * q))"

section \<open>The parameters\<close>

text \<open>The length is an \<^verbatim>\<open>int64_t\<close>; it is kept as its 64 bits and read as a signed number.\<close>

record fs_info =
  fi_len :: u64
  fi_block_size :: u32
  fi_blocks_per_group :: u32
  fi_flash_erase_block_size :: u32
  fi_flash_logical_block_size :: u32
  fi_inodes_per_group :: u32
  fi_inode_size :: u32
  fi_inodes :: u32
  fi_journal_blocks :: u32
  fi_feat_ro_compat :: u32
  fi_feat_compat :: u32
  fi_feat_incompat :: u32
  fi_bg_desc_reserve_blocks :: u32
  fi_label :: "string option"
  fi_no_journal :: u8
  fi_block_device :: bool

text \<open>
  Of the derived parameters, the numbers; the pointers to the superblocks, the descriptors and the groups are
  part of the state where they are used.
\<close>

record fs_aux_info =
  ai_first_data_block :: u32
  ai_len_blocks :: u64
  ai_inode_table_blocks :: u32
  ai_groups :: u32
  ai_bg_desc_blocks :: u32
  ai_default_i_flags :: u32
  ai_blocks_per_ind :: u32
  ai_blocks_per_dind :: u32
  ai_blocks_per_tind :: u32

text \<open>\<^verbatim>\<open>info.len / n\<close> and \<^verbatim>\<open>DIV_ROUND_UP(info.len, n)\<close>: an \<^verbatim>\<open>int64_t\<close> divided by an unsigned 32-bit number.\<close>

definition len_div :: "u64 \<Rightarrow> u32 \<Rightarrow> fault + u64" where
  "len_div a n = (if n = 0 then Inl DivByZero
     else Inr (of_int (sgn (sint a) * (\<bar>sint a\<bar> div uint n))))"

definition len_blocks_up :: "fs_info \<Rightarrow> fault + u64" where
  "len_blocks_up i = len_div (fi_len i + ucast (fi_block_size i) - 1) (fi_block_size i)"

section \<open>Defaults\<close>

definition compute_block_size :: u32 where
  "compute_block_size = 4096"

definition compute_journal_blocks :: "fs_info \<Rightarrow> fault + u32" where
  "compute_journal_blocks i =
     rbind (len_blocks_up i) (\<lambda>n.
     rbind (len_div n 64) (\<lambda>n.
     let journal_blocks = ucast n :: u32;
         journal_blocks = (if journal_blocks < 1024 then 1024 else journal_blocks);
         journal_blocks = (if journal_blocks > 32768 then 32768 else journal_blocks)
     in Inr journal_blocks))"

definition compute_blocks_per_group :: "fs_info \<Rightarrow> u32" where
  "compute_blocks_per_group i = fi_block_size i * 8"

definition compute_inodes :: "fs_info \<Rightarrow> fault + u32" where
  "compute_inodes i = rbind (len_blocks_up i) (\<lambda>n. rbind (len_div n 4) (\<lambda>n. Inr (ucast n)))"

definition compute_inodes_per_group :: "fs_info \<Rightarrow> fault + u32 \<times> fs_info" where
  "compute_inodes_per_group i =
     rbind (len_blocks_up i) (\<lambda>n.
     rbind (DIV_ROUND_UP (ucast n) (fi_blocks_per_group i)) (\<lambda>block_groups.
     rbind (DIV_ROUND_UP (fi_inodes i) block_groups) (\<lambda>inodes.
     rbind (u_div (fi_block_size i) (fi_inode_size i)) (\<lambda>per_block.
     rbind (EXT4_ALIGN inodes per_block) (\<lambda>inodes.
     Inr (inodes, i\<lparr>fi_inodes := inodes * block_groups\<rparr>))))))"

text \<open>\<^verbatim>\<open>sizeof(struct ext2_group_desc)\<close> is 32, a 64-bit \<^verbatim>\<open>size_t\<close>.\<close>

definition compute_bg_desc_reserve_blocks :: "fs_info \<Rightarrow> fault + u32" where
  "compute_bg_desc_reserve_blocks i =
     rbind (len_blocks_up i) (\<lambda>n.
     rbind (DIV_ROUND_UP (ucast n) (fi_blocks_per_group i)) (\<lambda>block_groups.
     rbind (DIV_ROUND_UP (ucast block_groups * 32) (ucast (fi_block_size i) :: u64)) (\<lambda>bg_desc_blocks.
     rbind (DIV_ROUND_UP (ucast (block_groups * 1024) * 32) (ucast (fi_block_size i) :: u64)) (\<lambda>n.
     let bg_desc_reserve_blocks = ucast (n - ucast (ucast bg_desc_blocks :: u32)) :: u32 in
     Inr (if bg_desc_reserve_blocks > fi_block_size i div 4 then fi_block_size i div 4
          else bg_desc_reserve_blocks)))))"

text \<open>
  The part of \<open>make_ext4fs_internal\<close> that completes the parameters. The size of the file is an argument; \<open>None\<close> is
  the early return with \<^verbatim>\<open>EXIT_FAILURE\<close>.
\<close>

definition EXT4_FEATURE_COMPAT_HAS_JOURNAL :: u32 where
  "EXT4_FEATURE_COMPAT_HAS_JOURNAL = 0x0004"

definition make_ext4fs_info :: "u64 \<Rightarrow> fs_info \<Rightarrow> fault + fs_info option" where
  "make_ext4fs_info file_size i =
     (let i = (if sint (fi_len i) \<le> 0 then i\<lparr>fi_len := file_size\<rparr> else i);
          i = (if fi_block_size i \<le> 0 then i\<lparr>fi_block_size := compute_block_size\<rparr> else i);
          i = i\<lparr>fi_len := fi_len i AND NOT (ucast (fi_block_size i) - 1)\<rparr>
      in if sint (fi_len i) \<le> 0 then Inr None
      else rbind (if fi_journal_blocks i = 0
             then rbind (compute_journal_blocks i) (\<lambda>n. Inr (i\<lparr>fi_journal_blocks := n\<rparr>)) else Inr i) (\<lambda>i.
      let i = (if fi_no_journal i = 0 then i\<lparr>fi_feat_compat := EXT4_FEATURE_COMPAT_HAS_JOURNAL\<rparr>
            else i\<lparr>fi_journal_blocks := 0\<rparr>);
          i = (if fi_blocks_per_group i \<le> 0 then i\<lparr>fi_blocks_per_group := compute_blocks_per_group i\<rparr> else i)
      in rbind (if fi_inodes i \<le> 0 then rbind (compute_inodes i) (\<lambda>n. Inr (i\<lparr>fi_inodes := n\<rparr>)) else Inr i) (\<lambda>i.
      let i = (if fi_inode_size i \<le> 0 then i\<lparr>fi_inode_size := 256\<rparr> else i);
          i = (if fi_label i = None then i\<lparr>fi_label := Some []\<rparr> else i)
      in rbind (compute_inodes_per_group i) (\<lambda>(n, i).
      let i = i\<lparr>fi_inodes_per_group := n\<rparr>;
          i = i\<lparr>fi_feat_compat := fi_feat_compat i OR (0x0010 OR 0x0008)\<rparr>;
          i = i\<lparr>fi_feat_ro_compat := fi_feat_ro_compat i OR (0x0001 OR 0x0002 OR 0x0010)\<rparr>;
          i = i\<lparr>fi_feat_incompat := fi_feat_incompat i OR (0x0040 OR 0x0002)\<rparr>
      in rbind (compute_bg_desc_reserve_blocks i) (\<lambda>n. Inr (Some (i\<lparr>fi_bg_desc_reserve_blocks := n\<rparr>)))))))"

section \<open>Backup superblocks\<close>

text \<open>
  \<open>is_power_of\<close> divides \<open>a\<close> by \<open>b\<close> while it is larger. The loop ends for \<open>b > 1\<close> only; for other
  values the function below has no value.
\<close>

partial_function (option) is_power_of :: "int \<Rightarrow> int \<Rightarrow> bool option" where
  "is_power_of a b =
     (if a > b then if b = 0 then None else if a mod b \<noteq> 0 then Some False else is_power_of (a div b) b
      else Some (a = b))"

definition power_of :: "int \<Rightarrow> int \<Rightarrow> fault + bool" where
  "power_of a b = (case is_power_of a b of None \<Rightarrow> Inl Diverges | Some r \<Rightarrow> Inr r)"

definition EXT4_FEATURE_RO_COMPAT_SPARSE_SUPER :: u32 where
  "EXT4_FEATURE_RO_COMPAT_SPARSE_SUPER = 0x0001"

definition ext4_bg_has_super_block :: "fs_info \<Rightarrow> u32 \<Rightarrow> fault + bool" where
  "ext4_bg_has_super_block i bg =
     (if fi_feat_ro_compat i AND EXT4_FEATURE_RO_COMPAT_SPARSE_SUPER = 0 then Inr True
      else if bg = 0 \<or> bg = 1 then Inr True
      else rbind (power_of (sint bg) 3) (\<lambda>p3. if p3 then Inr True
      else rbind (power_of (sint bg) 5) (\<lambda>p5. if p5 then Inr True
      else rbind (power_of (sint bg) 7) (\<lambda>p7. Inr p7))))"

section \<open>Derived parameters\<close>

definition EXT4_NOATIME_FL :: u32 where
  "EXT4_NOATIME_FL = 0x80"

text \<open>The buffers the function allocates for the superblock and the descriptors are not part of the model.\<close>

definition ext4_create_fs_aux_info :: "fs_info \<Rightarrow> fault + fs_aux_info" where
  "ext4_create_fs_aux_info i =
     (let first_data_block = (if fi_block_size i > 1024 then 0 else 1) in
      rbind (len_div (fi_len i) (fi_block_size i)) (\<lambda>len_blocks.
      rbind (DIV_ROUND_UP (fi_inodes_per_group i * fi_inode_size i) (fi_block_size i)) (\<lambda>inode_table_blocks.
      rbind (DIV_ROUND_UP (len_blocks - ucast first_data_block) (ucast (fi_blocks_per_group i))) (\<lambda>n.
      let groups = ucast n :: u32;
          blocks_per_ind = fi_block_size i div 4;
          blocks_per_dind = blocks_per_ind * blocks_per_ind;
          blocks_per_tind = blocks_per_dind * blocks_per_dind in
      rbind (DIV_ROUND_UP (ucast groups * 32) (ucast (fi_block_size i) :: u64)) (\<lambda>n.
      let bg_desc_blocks = ucast n :: u32;
          last_group_size = ucast (len_blocks mod ucast (fi_blocks_per_group i)) :: u32;
          last_header_size = 2 + inode_table_blocks in
      rbind (ext4_bg_has_super_block i (groups - 1)) (\<lambda>has.
      let last_header_size = (if has
            then last_header_size + (1 + bg_desc_blocks + fi_bg_desc_reserve_blocks i) else last_header_size) in
      if groups \<le> 1 \<and> last_group_size < last_header_size then Inl Longjmp
      else let (groups, len_blocks) = (if last_group_size > 0 \<and> last_group_size < last_header_size
            then (groups - 1, len_blocks - ucast last_group_size) else (groups, len_blocks)) in
      Inr \<lparr>ai_first_data_block = first_data_block, ai_len_blocks = len_blocks,
           ai_inode_table_blocks = inode_table_blocks, ai_groups = groups,
           ai_bg_desc_blocks = bg_desc_blocks, ai_default_i_flags = EXT4_NOATIME_FL,
           ai_blocks_per_ind = blocks_per_ind, ai_blocks_per_dind = blocks_per_dind,
           ai_blocks_per_tind = blocks_per_tind\<rparr>))))))"

section \<open>Properties\<close>

lemma power_of_step:
  fixes a b :: int
  assumes "b > 1" and "a > b" and "b dvd a"
  shows "(\<exists>k>0. a = b ^ k) \<longleftrightarrow> (\<exists>k>0. a div b = b ^ k)"
proof
  assume "\<exists>k>0. a = b ^ k"
  then obtain k where k: "a = b ^ k" "k > 0"
    by blast
  then have "k \<noteq> 1"
    using assms(2) by auto
  then have "a div b = b ^ (k - 1)" "k - 1 > 0"
    using k assms(1) by (cases k; simp)+
  then show "\<exists>k>0. a div b = b ^ k"
    by blast
next
  assume "\<exists>k>0. a div b = b ^ k"
  then obtain k where "a div b = b ^ k"
    by blast
  then have "a = b ^ Suc k"
    using assms(3) by (metis dvd_mult_div_cancel power_Suc)
  then show "\<exists>k>0. a = b ^ k"
    by blast
qed

lemma is_power_of_eq:
  assumes "b > 1"
  shows "is_power_of a b = Some (\<exists>k>0. a = b ^ k)"
proof (induction "nat a" arbitrary: a rule: less_induct)
  case less
  show ?case
  proof (cases "a > b")
    case False
    then have "(\<exists>k>0. a = b ^ k) \<longleftrightarrow> a = b"
      using assms self_le_power [of b] by (metis order_antisym_conv not_less power_one_right zero_less_one
        less_imp_le)
    then show ?thesis
      using False by (subst is_power_of.simps) simp
  next
    case True
    show ?thesis
    proof (cases "b dvd a")
      case div: True
      have "a div b < a"
        using assms True by (intro int_div_less_self) simp_all
      then have "is_power_of (a div b) b = Some (\<exists>k>0. a div b = b ^ k)"
        using assms True by (intro less) (simp add: zless_nat_eq_int_zless)
      then show ?thesis
        using assms True div power_of_step [OF assms True div] by (subst is_power_of.simps) (simp add: dvd_eq_mod_eq_0)
    next
      case False
      then have "\<not> (\<exists>k>0. a = b ^ k)"
        by (metis dvd_power)
      then show ?thesis
        using assms True False by (subst is_power_of.simps) (simp add: dvd_eq_mod_eq_0)
    qed
  qed
qed

text \<open>The groups with a copy of the superblock.\<close>

definition backup_group :: "fs_info \<Rightarrow> int \<Rightarrow> bool" where
  "backup_group i n \<longleftrightarrow> \<not> bit (fi_feat_ro_compat i) 0 \<or> n = 0 \<or> (\<exists>b \<in> {3, 5, 7}. \<exists>k. n = b ^ k)"

lemma ex_power: "(\<exists>k. n = b ^ k) \<longleftrightarrow> n = 1 \<or> (\<exists>k>0. n = b ^ k)" for n b :: int
  by (metis neq0_conv power_0)

lemma and_1_eq_0: "(w AND 1 = 0) \<longleftrightarrow> \<not> bit w 0" for w :: u32
  by (simp add: and_one_eq bit_0 mod2_eq_if)

lemma ext4_bg_has_super_block_eq:
  "ext4_bg_has_super_block i bg = Inr (backup_group i (sint bg))"
proof -
  define P where "P b \<longleftrightarrow> (\<exists>k>0. sint bg = b ^ k)" for b :: int
  have inj: "sint v = sint w \<Longrightarrow> v = w" for v w :: u32
    by (rule signed_word_eqI)
  have "sint bg = 0 \<longleftrightarrow> bg = 0" "sint bg = 1 \<longleftrightarrow> bg = 1"
    using inj [of bg 0] inj [of bg 1] by auto
  moreover have "power_of (sint bg) b = Inr (P b)" if "b > 1" for b
    using that by (simp add: power_of_def is_power_of_eq P_def)
  moreover have "(\<exists>k. sint bg = b ^ k) \<longleftrightarrow> sint bg = 1 \<or> P b" for b
    unfolding P_def by (rule ex_power)
  ultimately show ?thesis
    unfolding ext4_bg_has_super_block_def backup_group_def EXT4_FEATURE_RO_COMPAT_SPARSE_SUPER_def and_1_eq_0
    by auto
qed

end
