(* ===== verification/Crc16.thy ===== *)
theory Crc16
  imports Ext4_Info
begin

text \<open>
  The checksum of \<^verbatim>\<open>crc16.c\<close>: a loop over the bytes of a buffer with a table of 256 entries. The reference definition
  shifts out one bit at a time with the polynomial 0xA001; the table holds its value for each byte.
\<close>

definition crc16_tab :: "u16 list" where
  "crc16_tab = [
     0x0000, 0xC0C1, 0xC181, 0x0140, 0xC301, 0x03C0, 0x0280, 0xC241,
     0xC601, 0x06C0, 0x0780, 0xC741, 0x0500, 0xC5C1, 0xC481, 0x0440,
     0xCC01, 0x0CC0, 0x0D80, 0xCD41, 0x0F00, 0xCFC1, 0xCE81, 0x0E40,
     0x0A00, 0xCAC1, 0xCB81, 0x0B40, 0xC901, 0x09C0, 0x0880, 0xC841,
     0xD801, 0x18C0, 0x1980, 0xD941, 0x1B00, 0xDBC1, 0xDA81, 0x1A40,
     0x1E00, 0xDEC1, 0xDF81, 0x1F40, 0xDD01, 0x1DC0, 0x1C80, 0xDC41,
     0x1400, 0xD4C1, 0xD581, 0x1540, 0xD701, 0x17C0, 0x1680, 0xD641,
     0xD201, 0x12C0, 0x1380, 0xD341, 0x1100, 0xD1C1, 0xD081, 0x1040,
     0xF001, 0x30C0, 0x3180, 0xF141, 0x3300, 0xF3C1, 0xF281, 0x3240,
     0x3600, 0xF6C1, 0xF781, 0x3740, 0xF501, 0x35C0, 0x3480, 0xF441,
     0x3C00, 0xFCC1, 0xFD81, 0x3D40, 0xFF01, 0x3FC0, 0x3E80, 0xFE41,
     0xFA01, 0x3AC0, 0x3B80, 0xFB41, 0x3900, 0xF9C1, 0xF881, 0x3840,
     0x2800, 0xE8C1, 0xE981, 0x2940, 0xEB01, 0x2BC0, 0x2A80, 0xEA41,
     0xEE01, 0x2EC0, 0x2F80, 0xEF41, 0x2D00, 0xEDC1, 0xEC81, 0x2C40,
     0xE401, 0x24C0, 0x2580, 0xE541, 0x2700, 0xE7C1, 0xE681, 0x2640,
     0x2200, 0xE2C1, 0xE381, 0x2340, 0xE101, 0x21C0, 0x2080, 0xE041,
     0xA001, 0x60C0, 0x6180, 0xA141, 0x6300, 0xA3C1, 0xA281, 0x6240,
     0x6600, 0xA6C1, 0xA781, 0x6740, 0xA501, 0x65C0, 0x6480, 0xA441,
     0x6C00, 0xACC1, 0xAD81, 0x6D40, 0xAF01, 0x6FC0, 0x6E80, 0xAE41,
     0xAA01, 0x6AC0, 0x6B80, 0xAB41, 0x6900, 0xA9C1, 0xA881, 0x6840,
     0x7800, 0xB8C1, 0xB981, 0x7940, 0xBB01, 0x7BC0, 0x7A80, 0xBA41,
     0xBE01, 0x7EC0, 0x7F80, 0xBF41, 0x7D00, 0xBDC1, 0xBC81, 0x7C40,
     0xB401, 0x74C0, 0x7580, 0xB541, 0x7700, 0xB7C1, 0xB681, 0x7640,
     0x7200, 0xB2C1, 0xB381, 0x7340, 0xB101, 0x71C0, 0x7080, 0xB041,
     0x5000, 0x90C1, 0x9181, 0x5140, 0x9301, 0x53C0, 0x5280, 0x9241,
     0x9601, 0x56C0, 0x5780, 0x9741, 0x5500, 0x95C1, 0x9481, 0x5440,
     0x9C01, 0x5CC0, 0x5D80, 0x9D41, 0x5F00, 0x9FC1, 0x9E81, 0x5E40,
     0x5A00, 0x9AC1, 0x9B81, 0x5B40, 0x9901, 0x59C0, 0x5880, 0x9841,
     0x8801, 0x48C0, 0x4980, 0x8941, 0x4B00, 0x8BC1, 0x8A81, 0x4A40,
     0x4E00, 0x8EC1, 0x8F81, 0x4F40, 0x8D01, 0x4DC0, 0x4C80, 0x8C41,
     0x4400, 0x84C1, 0x8581, 0x4540, 0x8701, 0x47C0, 0x4680, 0x8641,
     0x8201, 0x42C0, 0x4380, 0x8341, 0x4100, 0x81C1, 0x8081, 0x4040]"

text \<open>The loop \<^verbatim>\<open>while (size--)\<close> over the pointer \<open>p\<close>; a read behind the buffer is a fault.\<close>

primrec crc16_loop :: "nat \<Rightarrow> bytes \<Rightarrow> u16 \<Rightarrow> fault + u16" where
  "crc16_loop 0 p crc = Inr crc"
| "crc16_loop (Suc n) p crc = (case p of [] \<Rightarrow> Inl BadIndex
     | b # p \<Rightarrow> crc16_loop n p (crc16_tab ! unat ((crc XOR ucast b) AND 0xFF) XOR drop_bit 8 crc))"

definition ext4_crc16 :: "u16 \<Rightarrow> bytes \<Rightarrow> nat \<Rightarrow> fault + u16" where
  "ext4_crc16 crc_in buf sz = crc16_loop sz buf crc_in"

section \<open>One bit at a time\<close>

definition crc_bit :: "u16 \<Rightarrow> u16" where
  "crc_bit c = (if bit c 0 then drop_bit 1 c XOR 0xA001 else drop_bit 1 c)"

definition crc_byte :: "u16 \<Rightarrow> u8 \<Rightarrow> u16" where
  "crc_byte c b = (crc_bit ^^ 8) (c XOR ucast b)"

text \<open>The shift register is linear, and does nothing but shift while the bits that leave it are zero.\<close>

lemma crc_bit_xor: "crc_bit (x XOR y) = crc_bit x XOR crc_bit y"
  by (rule bit_word_eqI) (auto simp: crc_bit_def bit_simps)

lemma crc_bits_xor: "(crc_bit ^^ n) (x XOR y) = (crc_bit ^^ n) x XOR (crc_bit ^^ n) y"
  by (induction n) (simp_all add: crc_bit_xor)

lemma crc_bits_shift: "take_bit n x = 0 \<Longrightarrow> (crc_bit ^^ n) x = drop_bit n x"
proof (induction n arbitrary: x)
  case (Suc n)
  have b: "\<not> bit x k" if "k < Suc n" for k
    using Suc.prems that by (metis bit_0_eq bit_take_bit_iff bot_apply bot_bool_def)
  have s: "crc_bit x = drop_bit 1 x"
    using b [of 0] by (simp add: crc_bit_def)
  have "take_bit n (drop_bit 1 x) = 0"
    using b by (intro bit_word_eqI) (auto simp: bit_simps)
  then have "(crc_bit ^^ n) (crc_bit x) = drop_bit n (drop_bit 1 x)"
    unfolding s by (rule Suc.IH)
  then show ?case
    by (simp add: funpow_swap1 del: funpow.simps) (simp add: funpow_swap1)
qed simp

text \<open>
  The table is the linear span of its entries 1, 2, 4, ..., 128: a table of \<open>2 ^ n\<close> entries is followed by its sums with the
  next basis element.
\<close>

primrec span :: "u16 list \<Rightarrow> u16 list" where
  "span [] = [0]"
| "span (b # bs) = span bs @ map (\<lambda>x. b XOR x) (span bs)"

lemma length_span [simp]: "length (span bs) = 2 ^ length bs"
  by (induction bs) simp_all

lemma add_exp_xor: "k < 2 ^ n \<Longrightarrow> n < 16 \<Longrightarrow> (of_nat (2 ^ n + k) :: u16) = 2 ^ n XOR of_nat k"
proof -
  assume k: "k < 2 ^ n" "n < 16"
  have nb: "\<not> bit k n"
    using k(1) by (simp add: bit_iff_odd)
  have "(2 ^ n :: u16) AND of_nat k = 0"
    using k nb by (intro bit_word_eqI) (auto simp: bit_simps)
  then show ?thesis
    by (simp add: disjunctive_xor_eq_or disjunctive_add_eq_or)
qed

lemma span_nth:
  assumes "length bs \<le> 16" and "\<And>i. i < length bs \<Longrightarrow> bs ! i = (crc_bit ^^ 8) (2 ^ (length bs - Suc i))" and "k < 2 ^ length bs"
  shows "span bs ! k = (crc_bit ^^ 8) (of_nat k)"
  using assms
proof (induction bs arbitrary: k)
  case Nil
  have "(crc_bit ^^ 8) 0 = 0"
    by (simp add: crc_bits_shift)
  then show ?case
    using Nil by simp
next
  case (Cons b bs)
  let ?n = "length bs"
  have b: "b = (crc_bit ^^ 8) (2 ^ ?n)"
    using Cons.prems(2) [of 0] by simp
  have t: "bs ! i = (crc_bit ^^ 8) (2 ^ (?n - Suc i))" if "i < ?n" for i
    using Cons.prems(2) [of "Suc i"] that by simp
  note IH = Cons.IH [OF _ t]
  show ?case
  proof (cases "k < 2 ^ ?n")
    case True
    then show ?thesis
      using IH Cons.prems(1) by (simp add: nth_append)
  next
    case False
    define j where "j = k - 2 ^ ?n"
    have j: "k = 2 ^ ?n + j" "j < 2 ^ ?n"
      using False Cons.prems(3) by (simp_all add: j_def)
    have "of_nat k = (2 ^ ?n :: u16) XOR of_nat j"
      unfolding j(1) using j(2) Cons.prems(1) by (intro add_exp_xor) simp_all
    then show ?thesis
      using IH [of j] j Cons.prems(1) by (simp add: nth_append b crc_bits_xor)
  qed
qed

lemma crc_bit_numeral: "crc_bit (numeral k) = (if bit (numeral k :: u16) 0 then drop_bit 1 (numeral k) XOR 0xA001 else drop_bit 1 (numeral k))"
  "crc_bit 1 = 0xA001" "crc_bit 0 = 0"
  by (simp_all add: crc_bit_def)

definition crc16_basis :: "u16 list" where
  "crc16_basis = [0xA001, 0xF001, 0xD801, 0xCC01, 0xC601, 0xC301, 0xC181, 0xC0C1]"

lemma crc16_tab_span: "crc16_tab = span crc16_basis"
  by (simp add: crc16_tab_def crc16_basis_def)

lemma funpow_8: "(f ^^ 8) x = f (f (f (f (f (f (f (f x)))))))"
  by (simp add: numeral_eq_Suc)

lemma crc_bits_basis:
  "(crc_bit ^^ 8) 1 = 0xC0C1" "(crc_bit ^^ 8) 2 = 0xC181" "(crc_bit ^^ 8) 4 = 0xC301" "(crc_bit ^^ 8) 8 = 0xC601"
  "(crc_bit ^^ 8) 16 = 0xCC01" "(crc_bit ^^ 8) 32 = 0xD801" "(crc_bit ^^ 8) 64 = 0xF001" "(crc_bit ^^ 8) 128 = 0xA001"
  by (simp_all only: funpow_8) (simp_all add: crc_bit_numeral)

lemma crc16_basis_bits:
  assumes "i < 8"
  shows "crc16_basis ! i = (crc_bit ^^ 8) (2 ^ (8 - Suc i))"
proof -
  have "i \<in> {0, 1, 2, 3, 4, 5, 6, 7}"
    using assms by auto
  then show ?thesis
    by (elim insertE) (simp_all add: crc16_basis_def crc_bits_basis)
qed

lemma crc16_tab_bits:
  assumes "k < 256"
  shows "crc16_tab ! k = (crc_bit ^^ 8) (of_nat k)"
proof -
  have len: "length crc16_basis = 8"
    by (simp add: crc16_basis_def)
  show ?thesis
    unfolding crc16_tab_span by (rule span_nth) (simp_all only: len crc16_basis_bits, use assms in simp_all)
qed

lemma and_FF: "x AND 0xFF = take_bit 8 x" for x :: u16
  by (simp add: take_bit_eq_mask mask_eq_exp_minus_1)

lemma crc_step: "crc16_tab ! unat ((c XOR ucast b) AND 0xFF) XOR drop_bit 8 c = crc_byte c b"
proof -
  let ?x = "c XOR ucast b" and ?hi = "push_bit 8 (drop_bit 8 c)"
  have split: "?x = take_bit 8 ?x XOR ?hi"
    by (rule bit_word_eqI) (auto simp: bit_simps dest: bit_imp_le_length)
  have "(crc_bit ^^ 8) ?hi = drop_bit 8 ?hi"
    by (rule crc_bits_shift) (rule bit_word_eqI, simp add: bit_simps)
  moreover have "drop_bit 8 ?hi = drop_bit 8 c"
    by (rule bit_word_eqI) (use bit_imp_le_length [of c] in \<open>fastforce simp: bit_simps\<close>)
  moreover have "unat (take_bit 8 ?x) < 2 ^ 8"
    unfolding unsigned_take_bit_eq by (rule take_bit_nat_less_exp)
  then have "crc16_tab ! unat (take_bit 8 ?x) = (crc_bit ^^ 8) (take_bit 8 ?x)"
    by (simp add: crc16_tab_bits del: take_bit_xor)
  ultimately show ?thesis
    unfolding crc_byte_def and_FF by (subst (2) split) (simp add: crc_bits_xor del: take_bit_xor)
qed

lemma crc16_loop_ok: "n \<le> length p \<Longrightarrow> crc16_loop n p c = Inr (foldl crc_byte c (take n p))"
proof (induction n arbitrary: p c)
  case (Suc n)
  then obtain b q where "p = b # q"
    by (cases p) auto
  then show ?case
    using Suc by (simp add: crc_step)
qed simp

lemma crc16_loop_short: "length p < n \<Longrightarrow> crc16_loop n p c = Inl BadIndex"
  by (induction n arbitrary: p c) (auto split: list.splits)

text \<open>C30 The checksum with the table: for every start value and buffer, \<open>ext4_crc16\<close> over the first \<open>n\<close> bytes gives what the shift
  register with the polynomial 0xA001 gives when it takes these bytes bit by bit, so that the 256 entries of the table are right;
  a size beyond the buffer reads behind it.\<close>

theorem ext4_crc16_bitwise:
  "ext4_crc16 crc buf n = (if n \<le> length buf then Inr (foldl crc_byte crc (take n buf)) else Inl BadIndex)"
  by (simp add: ext4_crc16_def crc16_loop_ok crc16_loop_short)

end
