(* ===== verification/Block_Groups.thy ===== *)
theory Block_Groups
  imports Ext4_Info
begin

text \<open>
  The block groups of \<^verbatim>\<open>allocate.c\<close>: the bitmaps, the counters and the chunks of
  \<^verbatim>\<open>struct block_group_info\<close>, and the operations on one group. A chunk is a \<^verbatim>\<open>struct region\<close> used as an
  array element, whose links are never read. The list \<open>bg_chunks\<close> holds the \<^verbatim>\<open>chunk_count\<close> entries
  written so far, out of \<open>bg_max_chunk_count\<close>.

  The two bitmaps of a group are the halves of one buffer; \<^verbatim>\<open>block_bitmap\<close> points to its start and
  \<^verbatim>\<open>inode_bitmap\<close> one block further.
\<close>

record chunk =
  c_block :: u32
  c_len :: u32
  c_bg :: nat

record block_group_info =
  bg_first_block :: u32
  bg_header_blocks :: u32
  bg_data_blocks_used :: u32
  bg_has_superblock :: bool
  bg_bitmaps :: bytes
  bg_inode_bitmap :: nat
  bg_inode_table :: "bytes option"
  bg_free_blocks :: u32
  bg_free_inodes :: u32
  bg_first_free_inode :: u32
  bg_flags :: u16
  bg_used_dirs :: u16
  bg_max_chunk_count :: nat
  bg_chunks :: "chunk list"

section \<open>Bitmaps\<close>

definition bitmap_get_bit :: "bytes \<Rightarrow> u32 \<Rightarrow> fault + bool" where
  "bitmap_get_bit bm b = (let k = unat (b div 8) in
     if k < length bm then Inr (bm ! k AND push_bit (unat (b mod 8)) 1 \<noteq> 0) else Inl BadIndex)"

definition bitmap_clear_bit :: "bytes \<Rightarrow> u32 \<Rightarrow> fault + bytes" where
  "bitmap_clear_bit bm b = (let k = unat (b div 8) in
     if k < length bm then Inr (bm[k := bm ! k AND NOT (push_bit (unat (b mod 8)) 1)]) else Inl BadIndex)"

definition bitmap_set_bit :: "bytes \<Rightarrow> u32 \<Rightarrow> fault + bool \<times> bytes" where
  "bitmap_set_bit bm b = (let k = unat (b div 8) in
     if k < length bm
     then if bm ! k AND push_bit (unat (b mod 8)) 1 \<noteq> 0 then Inr (True, bm)
          else Inr (False, bm[k := bm ! k OR push_bit (unat (b mod 8)) 1])
     else Inl BadIndex)"

definition bitmap_set_8_bits :: "bytes \<Rightarrow> u32 \<Rightarrow> fault + u8 \<times> bytes" where
  "bitmap_set_8_bits bm b = (let k = unat (b div 8) in
     if k < length bm then Inr (bm ! k, bm[k := 0xFF]) else Inl BadIndex)"

text \<open>
  The three loops of \<open>reserve_blocks\<close>: single bits up to a byte boundary, whole bytes, and the bits
  that are left. Each gives the position where it stopped and whether it met a set bit.
\<close>

type_synonym loop_state = "bool \<times> u32 \<times> u32 \<times> bytes"

lemma unat_plus_1: "i < num \<Longrightarrow> unat (i + 1) = unat i + 1" for i num :: u32
  using unat_add_lem [of i 1] unsigned_less [of num, where ?'a = nat] by (simp add: word_less_nat_alt)

function reserve_head :: "u32 \<Rightarrow> u32 \<Rightarrow> u32 \<Rightarrow> bytes \<Rightarrow> fault + loop_state" where
  "reserve_head num i block bm =
     (if i < num \<and> block mod 8 \<noteq> 0
      then rbind (bitmap_set_bit bm block) (\<lambda>(set, bm).
           if set then Inr (True, i, block, bm) else reserve_head num (i + 1) (block + 1) bm)
      else Inr (False, i, block, bm))"
  by pat_completeness auto
termination
  by (relation "measure (\<lambda>(num, i, block, bm). unat num - unat i)")
    (auto simp: unat_plus_1 word_less_nat_alt diff_less_mono2)

text \<open>Every round of the loop over bytes turns a byte that was zero into \<open>0xFF\<close>.\<close>

lemma zero_bytes_decrease:
  assumes "bitmap_set_8_bits bm b = Inr (0, bm')"
  shows "count_list bm' 0 < count_list bm 0"
proof -
  have k: "unat (b div 8) < length bm" "bm ! unat (b div 8) = 0" "bm' = bm[unat (b div 8) := 0xFF]"
    using assms by (auto simp: bitmap_set_8_bits_def Let_def split: if_splits)
  have "count_list (xs[k := 0xFF]) 0 < count_list xs 0" if "k < length xs" "xs ! k = (0 :: u8)" for xs k
    using that
  proof (induction xs arbitrary: k)
    case (Cons x xs)
    then show ?case by (cases k) auto
  qed simp
  then show ?thesis
    using k by blast
qed

function reserve_bytes :: "u32 \<Rightarrow> u32 \<Rightarrow> u32 \<Rightarrow> bytes \<Rightarrow> fault + loop_state" where
  "reserve_bytes num i block bm =
     (if i + 8 \<le> num AND NOT 7
      then rbind (bitmap_set_8_bits bm block) (\<lambda>(ret, bm).
           if ret \<noteq> 0 then Inr (True, i, block, bm) else reserve_bytes num (i + 8) (block + 8) bm)
      else Inr (False, i, block, bm))"
  by pat_completeness auto
termination
  by (relation "measure (\<lambda>(num, i, block, bm). count_list bm 0)") (auto simp: zero_bytes_decrease)

function reserve_tail :: "u32 \<Rightarrow> u32 \<Rightarrow> u32 \<Rightarrow> bytes \<Rightarrow> fault + loop_state" where
  "reserve_tail num i block bm =
     (if i < num
      then rbind (bitmap_set_bit bm block) (\<lambda>(set, bm).
           if set then Inr (True, i, block, bm) else reserve_tail num (i + 1) (block + 1) bm)
      else Inr (False, i, block, bm))"
  by pat_completeness auto
termination
  by (relation "measure (\<lambda>(num, i, block, bm). unat num - unat i)")
    (auto simp: unat_plus_1 word_less_nat_alt diff_less_mono2)

declare reserve_head.simps [simp del] reserve_bytes.simps [simp del] reserve_tail.simps [simp del]

text \<open>\<open>reserve_blocks\<close> returns \<open>-1\<close> after the error message when a block was reserved before.\<close>

definition reserve_blocks :: "bool \<Rightarrow> block_group_info \<Rightarrow> u32 \<Rightarrow> u32 \<Rightarrow> fault + int \<times> block_group_info" where
  "reserve_blocks force bg start num =
     rbind (reserve_head num 0 start (bg_bitmaps bg)) (\<lambda>(failed, i, block, bm).
     if failed then error force (-1, bg\<lparr>bg_bitmaps := bm\<rparr>)
     else rbind (reserve_bytes num i block bm) (\<lambda>(failed, i, block, bm).
     if failed then error force (-1, bg\<lparr>bg_bitmaps := bm\<rparr>)
     else rbind (reserve_tail num i block bm) (\<lambda>(failed, i, block, bm).
     if failed then error force (-1, bg\<lparr>bg_bitmaps := bm\<rparr>)
     else Inr (0, bg\<lparr>bg_bitmaps := bm, bg_free_blocks := bg_free_blocks bg - num\<rparr>))))"

text \<open>The loop of \<open>free_blocks\<close> clears \<open>n\<close> bits from \<open>block\<close> down; then the chunk that holds them shrinks.\<close>

primrec clear_bits :: "nat \<Rightarrow> u32 \<Rightarrow> bytes \<Rightarrow> fault + u32 \<times> bytes" where
  "clear_bits 0 block bm = Inr (block, bm)"
| "clear_bits (Suc n) block bm = rbind (bitmap_clear_bit bm block) (\<lambda>bm. clear_bits n (block - 1) bm)"

primrec shrink_chunk :: "nat \<Rightarrow> u32 \<Rightarrow> u32 \<Rightarrow> chunk list \<Rightarrow> chunk list" where
  "shrink_chunk 0 block num cs = cs"
| "shrink_chunk (Suc i) block num cs =
     (let c = cs ! i in
      if c_len c \<ge> num \<and> c_block c \<le> block
      then if c_block c = block then cs[i := c\<lparr>c_block := c_block c + num, c_len := c_len c - num\<rparr>]
           else if c_block c + c_len c = block + num then cs[i := c\<lparr>c_len := c_len c - num\<rparr>]
           else cs
      else shrink_chunk i block num cs)"

definition free_blocks :: "block_group_info \<Rightarrow> u32 \<Rightarrow> u32 \<Rightarrow> fault + block_group_info" where
  "free_blocks bg block num =
     (if num = 0 then Inr bg
      else rbind (clear_bits (unat num) block (bg_bitmaps bg)) (\<lambda>(block, bm).
      let block = block + 1 in
      Inr (bg\<lparr>bg_bitmaps := bm, bg_free_blocks := bg_free_blocks bg + num,
        bg_chunks := shrink_chunk (length (bg_chunks bg)) block num (bg_chunks bg)\<rparr>)))"

section \<open>Chunks\<close>

text \<open>\<open>reserve_bg_chunk\<close> doubles the array when it is full.\<close>

definition reserve_bg_chunk :: "nat \<Rightarrow> block_group_info \<Rightarrow> u32 \<Rightarrow> u32 \<Rightarrow> fault + block_group_info" where
  "reserve_bg_chunk n bg start_block sz =
     (let max = bg_max_chunk_count bg;
          max = (if length (bg_chunks bg) = max then 2 * max else max)
      in if length (bg_chunks bg) < max
         then Inr (bg\<lparr>bg_max_chunk_count := max,
           bg_chunks := bg_chunks bg @ [\<lparr>c_block = start_block, c_len = sz, c_bg = n\<rparr>]\<rparr>)
         else Inl BadIndex)"

section \<open>Creating a block group\<close>

definition EXT4_BG_INODE_UNINIT :: u16 where
  "EXT4_BG_INODE_UNINIT = 0x0001"

text \<open>
  \<open>init_bg\<close> gives the group and the block at which it queues the bitmaps with
  \<^verbatim>\<open>sparse_file_add_data\<close>. The value of \<open>used_dirs\<close> and \<open>inode_table\<close> is that of the zeroed array.
\<close>

definition init_bg :: "bool \<Rightarrow> fs_info \<Rightarrow> fs_aux_info \<Rightarrow> u32 \<Rightarrow> fault + block_group_info \<times> u32" where
  "init_bg force i a n =
     rbind (ext4_bg_has_super_block i n) (\<lambda>has.
     let header_blocks = 2 + ai_inode_table_blocks a;
         header_blocks = (if has then header_blocks + (1 + ai_bg_desc_blocks a + fi_bg_desc_reserve_blocks i)
           else header_blocks);
         first_block = ai_first_data_block a + n * fi_blocks_per_group i;
         block = (if has then first_block + (1 + ai_bg_desc_blocks a + fi_bg_desc_reserve_blocks i) else first_block);
         bg = \<lparr>bg_first_block = first_block, bg_header_blocks = header_blocks, bg_data_blocks_used = 0,
               bg_has_superblock = has, bg_bitmaps = replicate (2 * unat (fi_block_size i)) 0,
               bg_inode_bitmap = unat (fi_block_size i), bg_inode_table = None,
               bg_free_blocks = fi_blocks_per_group i, bg_free_inodes = fi_inodes_per_group i,
               bg_first_free_inode = 1, bg_flags = EXT4_BG_INODE_UNINIT, bg_used_dirs = 0,
               bg_max_chunk_count = 1, bg_chunks = []\<rparr>
     in rbind (reserve_blocks force bg 0 header_blocks) (\<lambda>(ret, bg).
     rbind (if ret < 0 then error force bg else Inr bg) (\<lambda>bg.
     rbind (reserve_bg_chunk (unat n) bg header_blocks 0) (\<lambda>bg.
     if ucast (first_block + fi_blocks_per_group i) > ai_len_blocks a
     then let overrun = ucast (ucast (first_block + fi_blocks_per_group i) - ai_len_blocks a) :: u32 in
          rbind (reserve_blocks force bg (fi_blocks_per_group i - overrun) overrun) (\<lambda>(ret, bg).
          rbind (reserve_bg_chunk (unat n) bg (fi_blocks_per_group i - overrun) 0) (\<lambda>bg. Inr (bg, block)))
     else rbind (reserve_bg_chunk (unat n) bg (fi_blocks_per_group i - 1) 0) (\<lambda>bg. Inr (bg, block))))))"

section \<open>Reserving blocks\<close>

text \<open>The numbers of the set bits of a bitmap.\<close>

definition bits_of :: "bytes \<Rightarrow> nat set" where
  "bits_of bm = {k. k < 8 * length bm \<and> bit (bm ! (k div 8)) (k mod 8)}"

lemma bits_of_update:
  assumes "k < length bm"
  shows "j \<in> bits_of (bm[k := w]) \<longleftrightarrow> (if j div 8 = k then bit w (j mod 8) else j \<in> bits_of bm)"
proof (cases "j div 8 = k")
  case True
  then have "j < 8 * length bm"
    using assms by linarith
  then show ?thesis
    using True by (simp add: bits_of_def)
next
  case False
  then show ?thesis
    by (simp add: bits_of_def)
qed

lemma and_exp_8: "(w AND 2 ^ n = 0) \<longleftrightarrow> \<not> bit w n" for w :: u8
  by (rule and_exp_eq_0_iff_not_bit)

lemma bit_exp_8: "bit (2 ^ n :: u8) i \<longleftrightarrow> n = i \<and> i < 8"
  by (auto simp: bit_exp_iff)

lemma unat_div_mod_8 [simp]: "unat (b div 8 :: u32) = unat b div 8" "unat (b mod 8 :: u32) = unat b mod 8"
  by (simp_all add: unat_div unat_mod)

lemma div_mod_8_eq: "j div 8 = k div 8 \<and> j mod 8 = k mod 8 \<longleftrightarrow> j = k" for j k :: nat
  by (metis div_mult_mod_eq)

lemma bitmap_set_bit_ok:
  assumes "unat b < 8 * length bm"
  obtains bm' where "bitmap_set_bit bm b = Inr (unat b \<in> bits_of bm, bm')"
    and "length bm' = length bm" and "bits_of bm' = insert (unat b) (bits_of bm)"
proof -
  have k: "unat b div 8 < length bm"
    using assms by linarith
  have m: "unat b \<in> bits_of bm \<longleftrightarrow> bit (bm ! (unat b div 8)) (unat b mod 8)"
    using assms by (simp add: bits_of_def)
  show thesis
  proof (cases "unat b \<in> bits_of bm")
    case True
    then show thesis
      using k m by (intro that [of bm]) (auto simp: bitmap_set_bit_def Let_def and_exp_8)
  next
    case False
    let ?bm = "bm[unat b div 8 := bm ! (unat b div 8) OR push_bit (unat b mod 8) 1]"
    have "j \<in> bits_of ?bm \<longleftrightarrow> j \<in> insert (unat b) (bits_of bm)" for j
    proof (cases "j div 8 = unat b div 8")
      case True
      then have "j \<in> bits_of bm \<longleftrightarrow> bit (bm ! (unat b div 8)) (j mod 8)"
        using assms k by (auto simp: bits_of_def)
      moreover have "j = unat b \<longleftrightarrow> j mod 8 = unat b mod 8"
        using True div_mod_8_eq by metis
      ultimately show ?thesis
        using True k by (auto simp: bits_of_update bit_or_iff bit_exp_8)
    next
      case False
      then show ?thesis
        using k by (auto simp: bits_of_update)
    qed
    then show thesis
      using k m False by (intro that [of ?bm]) (auto simp: bitmap_set_bit_def Let_def and_exp_8)
  qed
qed

lemma bitmap_clear_bit_ok:
  assumes "unat b < 8 * length bm"
  obtains bm' where "bitmap_clear_bit bm b = Inr bm'"
    and "length bm' = length bm" and "bits_of bm' = bits_of bm - {unat b}"
proof -
  have k: "unat b div 8 < length bm"
    using assms by linarith
  let ?bm = "bm[unat b div 8 := bm ! (unat b div 8) AND NOT (push_bit (unat b mod 8) 1)]"
  have "j \<in> bits_of ?bm \<longleftrightarrow> j \<in> bits_of bm - {unat b}" for j
  proof (cases "j div 8 = unat b div 8")
    case True
    then have "j \<in> bits_of bm \<longleftrightarrow> bit (bm ! (unat b div 8)) (j mod 8)"
      using assms k by (auto simp: bits_of_def)
    moreover have "j = unat b \<longleftrightarrow> j mod 8 = unat b mod 8"
      using True div_mod_8_eq by metis
    ultimately show ?thesis
      using True k by (auto simp: bits_of_update bit_and_iff bit_not_iff bit_exp_8)
  next
    case False
    then show ?thesis
      using k by (auto simp: bits_of_update)
  qed
  then show thesis
    using k by (intro that [of ?bm]) (auto simp: bitmap_clear_bit_def Let_def)
qed

lemma byte_eq_0_iff: "(w :: u8) = 0 \<longleftrightarrow> (\<forall>i<8. \<not> bit w i)"
  by (auto simp: bit_eq_iff dest: bit_imp_le_length)

lemma bit_FF: "bit (0xFF :: u8) i \<longleftrightarrow> i < 8"
proof -
  have "(0xFF :: u8) = mask 8"
    by (simp add: mask_eq_exp_minus_1)
  then show ?thesis
    by (simp only: bit_mask_iff) simp
qed

lemma byte_range: "j div 8 = k \<longleftrightarrow> j \<in> {8 * k..<8 * k + 8}" for j k :: nat
  by auto

lemma bitmap_set_8_bits_ok:
  assumes "unat b mod 8 = 0" and "unat b < 8 * length bm"
  obtains ret bm' where "bitmap_set_8_bits bm b = Inr (ret, bm')"
    and "ret = 0 \<longleftrightarrow> bits_of bm \<inter> {unat b..<unat b + 8} = {}"
    and "length bm' = length bm" and "bits_of bm' = bits_of bm \<union> {unat b..<unat b + 8}"
proof -
  have k: "unat b div 8 < length bm" and b: "8 * (unat b div 8) = unat b"
    using assms by auto
  have ran: "j div 8 = unat b div 8 \<longleftrightarrow> j \<in> {unat b..<unat b + 8}" for j
    unfolding byte_range b ..
  have mem: "j \<in> bits_of bm \<longleftrightarrow> bit (bm ! (unat b div 8)) (j mod 8)" if "j div 8 = unat b div 8" for j
    using assms k that by (auto simp: bits_of_def)
  have "bm ! (unat b div 8) = 0 \<longleftrightarrow> bits_of bm \<inter> {unat b..<unat b + 8} = {}"
  proof
    assume z: "bm ! (unat b div 8) = 0"
    have "j \<notin> bits_of bm" if "j \<in> {unat b..<unat b + 8}" for j
      using mem [of j] that z unfolding ran by simp
    then show "bits_of bm \<inter> {unat b..<unat b + 8} = {}"
      by blast
  next
    assume e: "bits_of bm \<inter> {unat b..<unat b + 8} = {}"
    have "\<not> bit (bm ! (unat b div 8)) i" if "i < 8" for i
    proof -
      have "(8 * (unat b div 8) + i) div 8 = unat b div 8" "(8 * (unat b div 8) + i) mod 8 = i"
        using that by simp_all
      then have "(unat b + i) div 8 = unat b div 8" "(unat b + i) mod 8 = i"
        unfolding b .
      then show ?thesis
        using mem [of "unat b + i"] e that by auto
    qed
    then show "bm ! (unat b div 8) = 0"
      by (simp add: byte_eq_0_iff)
  qed
  moreover have "bits_of (bm[unat b div 8 := 0xFF]) = bits_of bm \<union> {unat b..<unat b + 8}"
    unfolding set_eq_iff Un_iff ran [symmetric] bits_of_update [OF k] bit_FF using mem by simp
  ultimately show thesis
    using k by (intro that) (auto simp: bitmap_set_8_bits_def Let_def)
qed

text \<open>
  What the loops of \<open>reserve_blocks\<close> do with the bits from \<open>lo\<close> to \<open>hi\<close>: a loop that fails has met a
  set bit, and a loop that stops at a block has set the bits before it, which were clear.
\<close>

fun loop_ok :: "u32 \<Rightarrow> bytes \<Rightarrow> nat \<Rightarrow> nat \<Rightarrow> fault + loop_state \<Rightarrow> bool" where
  "loop_ok num bm lo hi (Inr (failed, i, block, bm')) \<longleftrightarrow>
     length bm' = length bm \<and> bits_of bm \<subseteq> bits_of bm' \<and> bits_of bm' \<subseteq> bits_of bm \<union> {lo..<hi}
     \<and> (if failed then bits_of bm \<inter> {lo..<hi} \<noteq> {}
        else lo \<le> unat block \<and> unat block \<le> hi \<and> unat block + unat num = hi + unat i \<and> unat i \<le> unat block
          \<and> bits_of bm \<inter> {lo..<unat block} = {} \<and> bits_of bm' = bits_of bm \<union> {lo..<unat block})"
| "loop_ok num bm lo hi (Inl e) \<longleftrightarrow> False"

lemma loop_ok_stop:
  assumes "unat block \<le> hi" and "unat block + unat num = hi + unat i" and "unat i \<le> unat block"
  shows "loop_ok num bm (unat block) hi (Inr (False, i, block, bm))"
  using assms by simp

lemma loop_ok_fail:
  assumes "length bm' = length bm" and "bits_of bm \<subseteq> bits_of bm'" and "bits_of bm' \<subseteq> bits_of bm \<union> {lo..<hi}"
    and "bits_of bm \<inter> {lo..<hi} \<noteq> {}"
  shows "loop_ok num bm lo hi (Inr (True, i, block, bm'))"
  using assms by simp

lemma loop_ok_trans:
  assumes "lo \<le> lo1" "lo1 \<le> hi" "length bm1 = length bm" "bits_of bm \<inter> {lo..<lo1} = {}"
    and "bits_of bm1 = bits_of bm \<union> {lo..<lo1}" and "loop_ok num bm1 lo1 hi r"
  shows "loop_ok num bm lo hi r"
proof -
  obtain failed i block bm' where r: "r = Inr (failed, i, block, bm')"
    using assms(6) by (metis loop_ok.simps(2) obj_sumE prod_cases4)
  then have l: "length bm' = length bm" "bits_of bm1 \<subseteq> bits_of bm'" "bits_of bm' \<subseteq> bits_of bm1 \<union> {lo1..<hi}"
    and f: "failed \<Longrightarrow> bits_of bm1 \<inter> {lo1..<hi} \<noteq> {}"
    and s: "\<not> failed \<Longrightarrow> lo1 \<le> unat block \<and> unat block \<le> hi \<and> unat block + unat num = hi + unat i
      \<and> unat i \<le> unat block \<and> bits_of bm1 \<inter> {lo1..<unat block} = {} \<and> bits_of bm' = bits_of bm1 \<union> {lo1..<unat block}"
    using assms(3,6) by simp_all
  have join: "{lo..<lo1} \<union> {lo1..<k} = {lo..<k}" if "lo1 \<le> k" for k
    using assms(1) that by auto
  have "bits_of bm' \<subseteq> bits_of bm \<union> {lo..<hi}"
    using l(3) join [OF assms(2)] unfolding assms(5) by blast
  moreover have "bits_of bm \<inter> {lo..<hi} \<noteq> {}" if failed
  proof -
    have "{lo..<lo1} \<inter> {lo1..<hi} = {}"
      by auto
    then show ?thesis
      using f [OF that] join [OF assms(2)] unfolding assms(5) by blast
  qed
  moreover have "bits_of bm \<inter> {lo..<unat block} = {}" "bits_of bm' = bits_of bm \<union> {lo..<unat block}"
    if "\<not> failed"
    using s [OF that] assms(4) join [of "unat block"] unfolding assms(5) by blast+
  ultimately show ?thesis
    using l s assms(1,5) by (cases failed) (auto simp: r)
qed

lemma loop_ok_bit:
  assumes "unat block < hi" "hi \<le> 8 * length bm"
    and step: "\<And>bm'. \<lbrakk>bitmap_set_bit bm block = Inr (False, bm'); length bm' = length bm\<rbrakk>
      \<Longrightarrow> loop_ok num bm' (unat block + 1) hi (f bm')"
  shows "loop_ok num bm (unat block) hi (rbind (bitmap_set_bit bm block) (\<lambda>(set, bm).
    if set then Inr (True, i, block, bm) else f bm))"
proof -
  obtain bm' where b: "bitmap_set_bit bm block = Inr (unat block \<in> bits_of bm, bm')"
    "length bm' = length bm" "bits_of bm' = insert (unat block) (bits_of bm)"
    using assms by (auto intro: bitmap_set_bit_ok [of block bm])
  show ?thesis
  proof (cases "unat block \<in> bits_of bm")
    case True
    moreover have "bits_of bm' = bits_of bm"
      unfolding b(3) using True by (rule insert_absorb)
    moreover have "bits_of bm \<inter> {unat block..<hi} \<noteq> {}"
      using True assms(1) by auto
    ultimately show ?thesis
      using b(1,2) by (auto intro!: loop_ok_fail)
  next
    case False
    have "{unat block..<unat block + 1} = {unat block}"
      by auto
    then have "loop_ok num bm (unat block) hi (f bm')"
      using False b assms(1) by (intro loop_ok_trans [OF _ _ _ _ _ step [OF _ b(2)]]) auto
    then show ?thesis
      using b(1) False by simp
  qed
qed

lemma loop_position:
  fixes block i num :: u32
  assumes "unat block + unat num = hi + unat i" and "unat i \<le> unat block" and "i < num" and "hi < 2 ^ 31"
  shows "unat block < hi" "unat (block + 1) = unat block + 1" "unat (block + 1) \<le> hi"
    "unat (block + 1) + unat num = hi + unat (i + 1)" "unat (i + 1) \<le> unat (block + 1)"
proof -
  show l: "unat block < hi"
    using assms(1,3) by (simp add: word_less_nat_alt)
  then show b: "unat (block + 1) = unat block + 1"
    using assms(4) unat_add_lem [of block 1] by simp
  show "unat (block + 1) \<le> hi" "unat (block + 1) + unat num = hi + unat (i + 1)" "unat (i + 1) \<le> unat (block + 1)"
    using l assms(1,2) unfolding b unat_plus_1 [OF assms(3)] by simp_all
qed

lemma reserve_head_ok:
  assumes "hi \<le> 8 * length bm" "hi < 2 ^ 31"
    and "unat block \<le> hi" "unat block + unat num = hi + unat i" "unat i \<le> unat block"
  shows "loop_ok num bm (unat block) hi (reserve_head num i block bm)"
  using assms
proof (induction num i block bm rule: reserve_head.induct)
  case (1 num i block bm)
  show ?case
  proof (cases "i < num \<and> block mod 8 \<noteq> 0")
    case True
    have pos: "unat block < hi" "unat (block + 1) = unat block + 1" "unat (block + 1) \<le> hi"
      "unat (block + 1) + unat num = hi + unat (i + 1)" "unat (i + 1) \<le> unat (block + 1)"
      using loop_position [OF 1(5,6) _ 1(3)] True by simp_all
    have "loop_ok num bm' (unat block + 1) hi (reserve_head num (i + 1) (block + 1) bm')"
      if "bitmap_set_bit bm block = Inr (False, bm')" "length bm' = length bm" for bm'
      using 1(1) [OF True that(1) refl] 1(2,3) pos that(2) by simp
    then show ?thesis
      using True pos(1) 1(2) by (subst reserve_head.simps) (simp add: loop_ok_bit)
  next
    case False
    then show ?thesis
      using 1 by (subst reserve_head.simps) (simp only: if_not_P if_False loop_ok_stop)
  qed
qed

lemma reserve_tail_ok:
  assumes "hi \<le> 8 * length bm" "hi < 2 ^ 31"
    and "unat block \<le> hi" "unat block + unat num = hi + unat i" "unat i \<le> unat block"
  shows "loop_ok num bm (unat block) hi (reserve_tail num i block bm)"
  using assms
proof (induction num i block bm rule: reserve_tail.induct)
  case (1 num i block bm)
  show ?case
  proof (cases "i < num")
    case True
    have pos: "unat block < hi" "unat (block + 1) = unat block + 1" "unat (block + 1) \<le> hi"
      "unat (block + 1) + unat num = hi + unat (i + 1)" "unat (i + 1) \<le> unat (block + 1)"
      using loop_position [OF 1(5,6) _ 1(3)] True by simp_all
    have "loop_ok num bm' (unat block + 1) hi (reserve_tail num (i + 1) (block + 1) bm')"
      if "bitmap_set_bit bm block = Inr (False, bm')" "length bm' = length bm" for bm'
      using 1(1) [OF True that(1) refl] 1(2,3) pos that(2) by simp
    then show ?thesis
      using True pos(1) 1(2) by (subst reserve_tail.simps) (simp add: loop_ok_bit)
  next
    case False
    then show ?thesis
      using 1 by (subst reserve_tail.simps) (simp only: if_not_P if_False loop_ok_stop)
  qed
qed

lemma reserve_head_stop:
  "reserve_head num i block bm = Inr (False, i', block', bm') \<Longrightarrow> i' < num \<Longrightarrow> block' mod 8 = 0"
proof (induction num i block bm rule: reserve_head.induct)
  case (1 num i block bm)
  then show ?case
    by (subst (asm) (2) reserve_head.simps) (auto split: if_splits)
qed

lemma reserve_tail_stop: "reserve_tail num i block bm = Inr (False, i', block', bm') \<Longrightarrow> \<not> i' < num"
proof (induction num i block bm rule: reserve_tail.induct)
  case (1 num i block bm)
  then show ?case
    by (subst (asm) (2) reserve_tail.simps) (auto split: if_splits)
qed

lemma byte_position:
  fixes block i num :: u32
  assumes "unat block + unat num = hi + unat i" "unat i \<le> unat block" "unat block \<le> hi" "hi < 2 ^ 31"
    and "i + 8 \<le> num AND NOT 7"
  shows "unat block + 8 \<le> hi" "unat (block + 8) = unat block + 8" "unat (i + 8) = unat i + 8"
proof -
  show b: "unat (block + 8) = unat block + 8" and i: "unat (i + 8) = unat i + 8"
    using assms(2,3,4) unat_add_lem [of block 8] unat_add_lem [of i 8] by simp_all
  have "uint (num AND NOT 7) \<le> uint num"
    unfolding unsigned_and_eq by (rule AND_upper1) simp
  then have "unat (num AND NOT 7) \<le> unat num"
    by (simp add: word_le_def [symmetric] word_le_nat_alt)
  then show "unat block + 8 \<le> hi"
    using assms(1,5) i by (simp add: word_le_nat_alt)
qed

lemma reserve_bytes_ok:
  assumes "hi \<le> 8 * length bm" "hi < 2 ^ 31"
    and "unat block \<le> hi" "unat block + unat num = hi + unat i" "unat i \<le> unat block" "i < num \<Longrightarrow> block mod 8 = 0"
  shows "loop_ok num bm (unat block) hi (reserve_bytes num i block bm)"
  using assms
proof (induction num i block bm rule: reserve_bytes.induct)
  case (1 num i block bm)
  show ?case
  proof (cases "i + 8 \<le> num AND NOT 7")
    case True
    note pos = byte_position [OF 1(5,6,4,3) True]
    have "i < num"
      using pos(1) 1(5) by (simp add: word_less_nat_alt)
    then have m: "unat block mod 8 = 0"
      using 1(7) by (metis unat_div_mod_8(2) unsigned_0)
    have "unat ((block + 8) mod 8) = 0"
      unfolding unat_div_mod_8 pos(2) using m by simp
    then have nxt: "(block + 8) mod 8 = 0"
      by (simp only: unat_eq_0)
    obtain ret bm' where b: "bitmap_set_8_bits bm block = Inr (ret, bm')"
      "ret = 0 \<longleftrightarrow> bits_of bm \<inter> {unat block..<unat block + 8} = {}"
      "length bm' = length bm" "bits_of bm' = bits_of bm \<union> {unat block..<unat block + 8}"
      using bitmap_set_8_bits_ok [OF m, of bm] pos(1) 1(2) by auto
    show ?thesis
    proof (cases "ret = 0")
      case z: True
      have "loop_ok num bm' (unat block + 8) hi (reserve_bytes num (i + 8) (block + 8) bm')"
        using 1(1) [OF True b(1) refl] z 1(2,3,5,6) pos b(3) nxt by simp
      then have "loop_ok num bm (unat block) hi (reserve_bytes num (i + 8) (block + 8) bm')"
        using b(2) z by (intro loop_ok_trans [OF _ pos(1) b(3) _ b(4)]) simp_all
      then show ?thesis
        using True b(1) z by (subst reserve_bytes.simps) simp
    next
      case False
      moreover have "{unat block..<unat block + 8} \<subseteq> {unat block..<hi}"
        using pos(1) by auto
      then have "loop_ok num bm (unat block) hi (Inr (True, i, block, bm'))"
        using b False by (intro loop_ok_fail) blast+
      ultimately show ?thesis
        using True b(1) by (subst reserve_bytes.simps) simp
    qed
  next
    case False
    then show ?thesis
      using 1 by (subst reserve_bytes.simps) (simp only: if_not_P if_False loop_ok_stop)
  qed
qed

lemma loop_okE:
  assumes "loop_ok num bm lo hi r"
  obtains failed i block bm' where "r = Inr (failed, i, block, bm')"
    and "loop_ok num bm lo hi (Inr (failed, i, block, bm'))"
  using assms by (cases r) auto

text \<open>
  \<open>reserve_blocks\<close> fails exactly when one of the blocks was reserved before. Otherwise it marks the
  blocks and no others, and takes them off the counter.
\<close>

lemma reserve_blocks_cases:
  assumes "unat start + unat num = hi" "hi \<le> 8 * length (bg_bitmaps bg)" "8 * length (bg_bitmaps bg) < 2 ^ 31"
  obtains failed bm where "reserve_blocks force bg start num =
      (if failed then error force (-1, bg\<lparr>bg_bitmaps := bm\<rparr>)
       else Inr (0, bg\<lparr>bg_bitmaps := bm, bg_free_blocks := bg_free_blocks bg - num\<rparr>))"
    and "length bm = length (bg_bitmaps bg)"
    and "bits_of (bg_bitmaps bg) \<subseteq> bits_of bm" "bits_of bm \<subseteq> bits_of (bg_bitmaps bg) \<union> {unat start..<hi}"
    and "if failed then bits_of (bg_bitmaps bg) \<inter> {unat start..<hi} \<noteq> {}
      else bits_of (bg_bitmaps bg) \<inter> {unat start..<hi} = {}
        \<and> bits_of bm = bits_of (bg_bitmaps bg) \<union> {unat start..<hi}"
proof -
  have hi: "hi < 2 ^ 31"
    using assms by simp
  have "loop_ok num (bg_bitmaps bg) (unat start) hi (reserve_head num 0 start (bg_bitmaps bg))"
    using assms hi by (intro reserve_head_ok) simp_all
  then obtain f1 i1 b1 m1 where 1: "reserve_head num 0 start (bg_bitmaps bg) = Inr (f1, i1, b1, m1)"
    and l1: "loop_ok num (bg_bitmaps bg) (unat start) hi (Inr (f1, i1, b1, m1))"
    by (rule loop_okE)
  show thesis
  proof (cases f1)
    case True
    then show thesis
      using 1 l1 by (intro that [of True m1]) (simp_all add: reserve_blocks_def)
  next
    case n1: False
    have "loop_ok num m1 (unat b1) hi (reserve_bytes num i1 b1 m1)"
      using assms hi l1 n1 reserve_head_stop [of num 0 start _ i1 b1 m1] 1 by (intro reserve_bytes_ok) simp_all
    then obtain f2 i2 b2 m2 where 2: "reserve_bytes num i1 b1 m1 = Inr (f2, i2, b2, m2)"
      and l2: "loop_ok num m1 (unat b1) hi (Inr (f2, i2, b2, m2))"
      by (rule loop_okE)
    have l12: "loop_ok num (bg_bitmaps bg) (unat start) hi (Inr (f2, i2, b2, m2))"
      using l1 n1 by (intro loop_ok_trans [OF _ _ _ _ _ l2]) simp_all
    show thesis
    proof (cases f2)
      case True
      then show thesis
        using 1 2 n1 l12 by (intro that [of True m2]) (simp_all add: reserve_blocks_def)
    next
      case n2: False
      have "loop_ok num m2 (unat b2) hi (reserve_tail num i2 b2 m2)"
        using assms hi l12 n2 by (intro reserve_tail_ok) simp_all
      then obtain f3 i3 b3 m3 where 3: "reserve_tail num i2 b2 m2 = Inr (f3, i3, b3, m3)"
        and l3: "loop_ok num m2 (unat b2) hi (Inr (f3, i3, b3, m3))"
        by (rule loop_okE)
      have l: "loop_ok num (bg_bitmaps bg) (unat start) hi (Inr (f3, i3, b3, m3))"
        using l12 n2 by (intro loop_ok_trans [OF _ _ _ _ _ l3]) simp_all
      have "unat b3 = hi" if "\<not> f3"
        using reserve_tail_stop [of num i2 b2 m2 i3 b3 m3] that 3 l by (auto simp: word_less_nat_alt)
      then show thesis
        using 1 2 3 n1 n2 l by (intro that [of f3 m3]) (cases f3; simp add: reserve_blocks_def)+
    qed
  qed
qed

section \<open>The invariant of a group\<close>

definition c_end :: "chunk \<Rightarrow> nat" where
  "c_end c = unat (c_block c) + unat (c_len c)"

text \<open>The holes between consecutive chunks.\<close>

fun holes :: "chunk list \<Rightarrow> (nat \<times> nat) list" where
  "holes (p # c # cs) = (c_end p, unat (c_block c)) # holes (c # cs)"
| "holes _ = []"

text \<open>
  The chunks are in order, the blocks of the holes are free, and the counter of free blocks is the
  number of clear bits.
\<close>

definition bg_wf :: "fs_info \<Rightarrow> block_group_info \<Rightarrow> bool" where
  "bg_wf i bg \<longleftrightarrow> length (bg_bitmaps bg) = 2 * unat (fi_block_size i) \<and> bg_inode_bitmap bg = unat (fi_block_size i)
     \<and> (\<forall>(lo, hi) \<in> set (holes (bg_chunks bg)). lo \<le> hi \<and> bits_of (bg_bitmaps bg) \<inter> {lo..<hi} = {})
     \<and> (\<forall>c \<in> set (bg_chunks bg). c_end c \<le> unat (fi_blocks_per_group i))
     \<and> length (bg_chunks bg) \<le> bg_max_chunk_count bg \<and> 0 < bg_max_chunk_count bg
     \<and> unat (bg_free_blocks bg) + card (bits_of (bg_bitmaps bg) \<inter> {..<unat (fi_blocks_per_group i)})
       = unat (fi_blocks_per_group i)"

definition info_wf :: "fs_info \<Rightarrow> bool" where
  "info_wf i \<longleftrightarrow> unat (fi_block_size i) < 2 ^ 27 \<and> 0 < unat (fi_block_size i)
     \<and> 0 < unat (fi_blocks_per_group i) \<and> unat (fi_blocks_per_group i) \<le> 8 * unat (fi_block_size i)"

lemma finite_bits [simp]: "finite (bits_of bm)"
  by (simp add: bits_of_def)

lemma bits_of_replicate [simp]: "bits_of (replicate n 0) = {}"
  by (auto simp: bits_of_def)

text \<open>Reserving free blocks of the group keeps the count.\<close>

lemma free_count_reserve:
  fixes n :: u32
  assumes "unat free + card (B \<inter> {..<bpg}) = bpg" and "B \<inter> {lo..<hi} = {}" and "hi \<le> bpg" and "hi - lo = unat n"
    and "lo \<le> hi" and "finite B"
  shows "unat (free - n) + card ((B \<union> {lo..<hi}) \<inter> {..<bpg}) = bpg"
proof -
  have e: "(B \<union> {lo..<hi}) \<inter> {..<bpg} = (B \<inter> {..<bpg}) \<union> {lo..<hi}"
    using assms(3) by auto
  have c: "card ((B \<union> {lo..<hi}) \<inter> {..<bpg}) = card (B \<inter> {..<bpg}) + unat n"
    unfolding e using assms(2,4,6) by (subst card_Un_disjoint) auto
  have "card ((B \<union> {lo..<hi}) \<inter> {..<bpg}) \<le> card {..<bpg}"
    by (rule card_mono) auto
  then have "unat n \<le> unat free"
    using c assms(1) by simp
  then have "unat (free - n) = unat free - unat n"
    by (simp add: unat_sub word_le_nat_alt)
  then show ?thesis
    using c assms(1) \<open>unat n \<le> unat free\<close> by simp
qed

lemma reserve_bg_chunk_ok:
  assumes "length (bg_chunks bg) \<le> bg_max_chunk_count bg" and "0 < bg_max_chunk_count bg"
  obtains m where "reserve_bg_chunk n bg start sz = Inr (bg\<lparr>bg_max_chunk_count := m,
      bg_chunks := bg_chunks bg @ [\<lparr>c_block = start, c_len = sz, c_bg = n\<rparr>]\<rparr>)"
    and "Suc (length (bg_chunks bg)) \<le> m" and "0 < m"
  using assms by (intro that [of "if length (bg_chunks bg) = bg_max_chunk_count bg
    then 2 * bg_max_chunk_count bg else bg_max_chunk_count bg"]) (auto simp: reserve_bg_chunk_def Let_def)


text \<open>The layout of a group: its header, its first block, and its size, the last group being shorter.\<close>

definition bg_header_size :: "fs_info \<Rightarrow> fs_aux_info \<Rightarrow> u32 \<Rightarrow> nat" where
  "bg_header_size i a n = 2 + unat (ai_inode_table_blocks a)
     + (if backup_group i (sint n) then 1 + unat (ai_bg_desc_blocks a) + unat (fi_bg_desc_reserve_blocks i) else 0)"

definition group_start :: "fs_info \<Rightarrow> fs_aux_info \<Rightarrow> u32 \<Rightarrow> nat" where
  "group_start i a n = unat (ai_first_data_block a) + unat n * unat (fi_blocks_per_group i)"

definition group_size :: "fs_info \<Rightarrow> fs_aux_info \<Rightarrow> u32 \<Rightarrow> nat" where
  "group_size i a n = min (unat (fi_blocks_per_group i)) (unat (ai_len_blocks a) - group_start i a n)"

lemma reserve_free_blocks:
  assumes "info_wf i" and "length (bg_bitmaps bg) = 2 * unat (fi_block_size i)"
    and "unat start + unat num \<le> unat (fi_blocks_per_group i)"
    and "bits_of (bg_bitmaps bg) \<inter> {unat start..<unat start + unat num} = {}"
    and "unat (bg_free_blocks bg) + card (bits_of (bg_bitmaps bg) \<inter> {..<unat (fi_blocks_per_group i)})
       = unat (fi_blocks_per_group i)"
  obtains bm where
    "reserve_blocks force bg start num = Inr (0, bg\<lparr>bg_bitmaps := bm, bg_free_blocks := bg_free_blocks bg - num\<rparr>)"
    and "length bm = length (bg_bitmaps bg)"
    and "bits_of bm = bits_of (bg_bitmaps bg) \<union> {unat start..<unat start + unat num}"
    and "unat (bg_free_blocks bg - num) + card (bits_of bm \<inter> {..<unat (fi_blocks_per_group i)})
       = unat (fi_blocks_per_group i)"
proof -
  have "unat start + unat num \<le> 8 * length (bg_bitmaps bg)" "8 * length (bg_bitmaps bg) < 2 ^ 31"
    using assms(1-3) by (simp_all add: info_wf_def)
  then obtain failed bm where "reserve_blocks force bg start num =
      (if failed then error force (-1, bg\<lparr>bg_bitmaps := bm\<rparr>)
       else Inr (0, bg\<lparr>bg_bitmaps := bm, bg_free_blocks := bg_free_blocks bg - num\<rparr>))"
    and "length bm = length (bg_bitmaps bg)"
    and "if failed then bits_of (bg_bitmaps bg) \<inter> {unat start..<unat start + unat num} \<noteq> {}
      else bits_of (bg_bitmaps bg) \<inter> {unat start..<unat start + unat num} = {}
        \<and> bits_of bm = bits_of (bg_bitmaps bg) \<union> {unat start..<unat start + unat num}"
    by (rule reserve_blocks_cases [OF refl, of start num bg force])
  moreover from this(3) have "\<not> failed"
    using assms(4) by auto
  ultimately show thesis
    using free_count_reserve [OF assms(5,4,3)] by (intro that [of bm]) simp_all
qed

text \<open>A group whose only chunks are the two delimiters.\<close>

lemma bg_wf_delimiters:
  assumes "bg_chunks bg = [c, d]" "c_len c = 0" "c_len d = 0" "unat (c_block c) \<le> unat (c_block d)"
    and "unat (c_block d) \<le> unat (fi_blocks_per_group i)"
    and "bits_of (bg_bitmaps bg) \<inter> {unat (c_block c)..<unat (c_block d)} = {}"
    and "length (bg_bitmaps bg) = 2 * unat (fi_block_size i)" "bg_inode_bitmap bg = unat (fi_block_size i)"
    and "bg_max_chunk_count bg = 2"
    and "unat (bg_free_blocks bg) + card (bits_of (bg_bitmaps bg) \<inter> {..<unat (fi_blocks_per_group i)})
       = unat (fi_blocks_per_group i)"
  shows "bg_wf i bg"
  using assms by (simp add: bg_wf_def c_end_def)

lemma unat_ucast_32_64 [simp]: "unat (ucast (w :: u32) :: u64) = unat w"
  by (simp add: unsigned_ucast_eq take_bit_nat_eq_self_iff order_less_trans [OF unsigned_less])

lemma unat_ucast_64_32: "unat w < 2 ^ 32 \<Longrightarrow> unat (ucast (w :: u64) :: u32) = unat w"
  by (simp add: unsigned_ucast_eq take_bit_nat_eq_self_iff)

lemma init_bg_ok:
  assumes i: "info_wf i" and size: "bg_header_size i a n < group_size i a n"
    and start: "group_start i a n + unat (fi_blocks_per_group i) < 2 ^ 32"
  obtains bg block where "init_bg force i a n = Inr (bg, block)" and "bg_wf i bg"
    and "unat (bg_first_block bg) = group_start i a n"
    and "bits_of (bg_bitmaps bg) = {..<bg_header_size i a n} \<union> {group_size i a n..<unat (fi_blocks_per_group i)}"
    and "holes (bg_chunks bg) = [(bg_header_size i a n, min (group_size i a n) (unat (fi_blocks_per_group i) - 1))]"
proof -
  let ?bpg = "unat (fi_blocks_per_group i)"
  let ?h = "of_nat (bg_header_size i a n) :: u32" and ?f = "of_nat (group_start i a n) :: u32"
  have f1: "unat ?f = group_start i a n"
    using start by (simp add: unat_of_nat_u32)
  have f: "unat ?f = group_start i a n" "ai_first_data_block a + n * fi_blocks_per_group i = ?f"
    using f1 by simp (simp add: group_start_def)
  have fb: "unat (?f + fi_blocks_per_group i) = group_start i a n + ?bpg"
    using start f(1) unat_add_lem [of ?f "fi_blocks_per_group i"] by simp
  have h: "unat ?h = bg_header_size i a n"
    using size start by (simp add: unat_of_nat_u32 group_size_def)
  have hb: "unat ?h \<le> ?bpg" "bg_header_size i a n < ?bpg"
    using size unfolding h by (simp_all add: group_size_def)
  have hw: "(if backup_group i (sint n) then 2 + ai_inode_table_blocks a + (1 + ai_bg_desc_blocks a + fi_bg_desc_reserve_blocks i)
      else 2 + ai_inode_table_blocks a) = ?h"
    by (simp add: bg_header_size_def)
  let ?bg = "\<lparr>bg_first_block = ?f, bg_header_blocks = ?h, bg_data_blocks_used = 0,
    bg_has_superblock = backup_group i (sint n), bg_bitmaps = replicate (2 * unat (fi_block_size i)) 0,
    bg_inode_bitmap = unat (fi_block_size i), bg_inode_table = None,
    bg_free_blocks = fi_blocks_per_group i, bg_free_inodes = fi_inodes_per_group i,
    bg_first_free_inode = 1, bg_flags = EXT4_BG_INODE_UNINIT, bg_used_dirs = 0,
    bg_max_chunk_count = 1, bg_chunks = []\<rparr>"
  obtain bm where bm: "reserve_blocks force ?bg 0 ?h = Inr (0, ?bg\<lparr>bg_bitmaps := bm, bg_free_blocks := fi_blocks_per_group i - ?h\<rparr>)"
    "length bm = 2 * unat (fi_block_size i)" "bits_of bm = {..<bg_header_size i a n}"
    "unat (fi_blocks_per_group i - ?h) + card (bits_of bm \<inter> {..<?bpg}) = ?bpg"
    using reserve_free_blocks [OF i, of ?bg 0 ?h force] hb(1) by (auto simp: h lessThan_atLeast0)
  let ?c1 = "\<lparr>c_block = ?h, c_len = 0, c_bg = unat n\<rparr>"
  let ?blk = "if backup_group i (sint n) then ?f + (1 + ai_bg_desc_blocks a + fi_bg_desc_reserve_blocks i) else ?f"
  define bg1 where "bg1 = ?bg\<lparr>bg_bitmaps := bm, bg_free_blocks := fi_blocks_per_group i - ?h, bg_chunks := [?c1]\<rparr>"
  have init: "init_bg force i a n = (if ucast (?f + fi_blocks_per_group i) > ai_len_blocks a
     then let overrun = ucast (ucast (?f + fi_blocks_per_group i) - ai_len_blocks a) :: u32 in
          rbind (reserve_blocks force bg1 (fi_blocks_per_group i - overrun) overrun) (\<lambda>(ret, bg).
          rbind (reserve_bg_chunk (unat n) bg (fi_blocks_per_group i - overrun) 0) (\<lambda>bg. Inr (bg, ?blk)))
     else rbind (reserve_bg_chunk (unat n) bg1 (fi_blocks_per_group i - 1) 0) (\<lambda>bg. Inr (bg, ?blk)))"
    unfolding init_bg_def ext4_bg_has_super_block_eq rbind_simps f(2) hw Let_def bm(1)
    by (simp add: reserve_bg_chunk_def bg1_def Let_def)
  show thesis
  proof (cases "unat (ai_len_blocks a) < group_start i a n + ?bpg")
    case True
    then have gs: "group_size i a n = unat (ai_len_blocks a) - group_start i a n"
      by (simp add: group_size_def)
    define ov :: u32 where "ov = ucast (ucast (?f + fi_blocks_per_group i) - ai_len_blocks a)"
    have "unat (ucast (?f + fi_blocks_per_group i) - ai_len_blocks a) = group_start i a n + ?bpg - unat (ai_len_blocks a)"
      using True by (simp add: unat_sub word_le_nat_alt fb)
    then have ov: "unat ov = group_start i a n + ?bpg - unat (ai_len_blocks a)"
      using True size gs start by (simp add: ov_def unat_ucast_64_32)
    then have ob: "unat (fi_blocks_per_group i - ov) = group_size i a n" "group_size i a n + unat ov = ?bpg"
      using True size gs by (simp_all add: unat_sub word_le_nat_alt)
    have pos: "0 < unat ov"
      using ov True by simp
    have dj: "{..<bg_header_size i a n} \<inter> {group_size i a n..<?bpg} = {}"
      using size by auto
    have dj2: "({..<bg_header_size i a n} \<union> {group_size i a n..<?bpg}) \<inter> {bg_header_size i a n..<group_size i a n} = {}"
      by auto
    have b1: "bg_bitmaps bg1 = bm" "bg_free_blocks bg1 = fi_blocks_per_group i - ?h"
      by (simp_all add: bg1_def)
    obtain bm2 where bm2: "reserve_blocks force bg1 (fi_blocks_per_group i - ov) ov
        = Inr (0, bg1\<lparr>bg_bitmaps := bm2, bg_free_blocks := fi_blocks_per_group i - ?h - ov\<rparr>)"
      "length bm2 = 2 * unat (fi_block_size i)" "bits_of bm2 = {..<bg_header_size i a n} \<union> {group_size i a n..<?bpg}"
      "unat (fi_blocks_per_group i - ?h - ov) + card (bits_of bm2 \<inter> {..<?bpg}) = ?bpg"
      using reserve_free_blocks [OF i, of bg1 "fi_blocks_per_group i - ov" ov force] bm(4) dj
      unfolding b1 bm(2,3) ob by blast
    let ?c2 = "\<lparr>c_block = fi_blocks_per_group i - ov, c_len = 0, c_bg = unat n\<rparr>"
    define bg2 where "bg2 = bg1\<lparr>bg_bitmaps := bm2, bg_free_blocks := fi_blocks_per_group i - ?h - ov,
      bg_max_chunk_count := 2, bg_chunks := [?c1, ?c2]\<rparr>"
    show thesis
    proof (rule that [of bg2 ?blk])
      show "init_bg force i a n = Inr (bg2, ?blk)"
        unfolding init Let_def ov_def [symmetric] bm2(1)
        using True by (simp add: word_less_nat_alt fb reserve_bg_chunk_def bg1_def bg2_def)
      show "bg_wf i bg2"
        by (rule bg_wf_delimiters [of _ ?c1 ?c2]) (use bm2(2,4) size ob dj2 in \<open>simp_all add: bg2_def bg1_def h bm2(3)\<close>)
      have "min (group_size i a n) (?bpg - 1) = group_size i a n"
        using ob(2) pos by simp
      then show "holes (bg_chunks bg2) = [(bg_header_size i a n, min (group_size i a n) (?bpg - 1))]"
        by (simp add: bg2_def c_end_def h ob(1))
    qed (simp_all add: bg2_def bg1_def f1 bm2(3))
  next
    case False
    then have gs: "group_size i a n = ?bpg"
      by (simp add: group_size_def)
    let ?c2 = "\<lparr>c_block = fi_blocks_per_group i - 1, c_len = 0, c_bg = unat n\<rparr>"
    define bg2 where "bg2 = bg1\<lparr>bg_max_chunk_count := 2, bg_chunks := [?c1, ?c2]\<rparr>"
    have dj: "{..<bg_header_size i a n} \<inter> {bg_header_size i a n..<?bpg - 1} = {}"
      by auto
    have m1: "unat (fi_blocks_per_group i - 1) = ?bpg - 1"
      using i unat_sub [of 1 "fi_blocks_per_group i"] by (simp add: info_wf_def word_le_nat_alt)
    show thesis
    proof (rule that [of bg2 ?blk])
      show "init_bg force i a n = Inr (bg2, ?blk)"
        unfolding init using False by (simp add: word_less_nat_alt fb reserve_bg_chunk_def bg1_def bg2_def)
      show "bg_wf i bg2"
        by (rule bg_wf_delimiters [of _ ?c1 ?c2]) (use bm(2,4) hb dj in \<open>simp_all add: bg2_def bg1_def h m1 bm(3)\<close>)
    qed (simp_all add: bg2_def bg1_def c_end_def f1 bm(3) h m1 gs)
  qed
qed

end
