(* ===== verification/Regions.thy ===== *)
theory Regions
  imports Ext4_Info
begin

text \<open>
  The region lists of \<^verbatim>\<open>allocate.c\<close>: doubly linked lists of \<^verbatim>\<open>struct region\<close> in a heap of cells, the
  lists of an allocation, and the operations that walk, split and move them. A pointer is \<open>None\<close>
  for \<^verbatim>\<open>NULL\<close> or the index of a cell; a cell that was freed is \<open>None\<close>, and an access to it is the
  fault \<open>BadPointer\<close>. A loop over the links is a partial function: it has no value when the links
  form a cycle, and the operation that runs it then \<open>Diverges\<close>.

  \<^verbatim>\<open>malloc\<close> of a region succeeds, as the code assumes without a test.
\<close>

section \<open>The heap\<close>

type_synonym ptr = "nat option"

record region =
  r_block :: u32
  r_len :: u32
  r_bg :: nat
  r_next :: ptr
  r_prev :: ptr

type_synonym heap = "region option list"

definition load :: "heap \<Rightarrow> ptr \<Rightarrow> fault + region" where
  "load h p = (case p of None \<Rightarrow> Inl BadPointer
     | Some a \<Rightarrow> if a < length h then case h ! a of None \<Rightarrow> Inl BadPointer | Some r \<Rightarrow> Inr r else Inl BadPointer)"

text \<open>Assignments to fields of the cell behind a pointer.\<close>

definition modify :: "ptr \<Rightarrow> (region \<Rightarrow> region) \<Rightarrow> heap \<Rightarrow> fault + heap" where
  "modify p f h = rbind (load h p) (\<lambda>r. Inr (h[the p := Some (f r)]))"

definition malloc :: "region \<Rightarrow> heap \<Rightarrow> ptr \<times> heap" where
  "malloc r h = (Some (length h), h @ [Some r])"

definition free :: "ptr \<Rightarrow> heap \<Rightarrow> fault + heap" where
  "free p h = (case p of None \<Rightarrow> Inr h | Some a \<Rightarrow> rbind (load h p) (\<lambda>_. Inr (h[a := None])))"

text \<open>The result of a loop.\<close>

definition loop :: "(fault + 'a) option \<Rightarrow> fault + 'a" where
  "loop r = (case r of None \<Rightarrow> Inl Diverges | Some x \<Rightarrow> x)"

section \<open>Lists\<close>

record region_list =
  rl_first :: ptr
  rl_last :: ptr
  rl_iter :: ptr
  rl_partial_iter :: u32

record block_allocation =
  ba_list :: region_list
  ba_oob_list :: region_list
  ba_filename :: "string option"

definition empty_list :: region_list where
  "empty_list = \<lparr>rl_first = None, rl_last = None, rl_iter = None, rl_partial_iter = 0\<rparr>"

definition create_allocation :: block_allocation where
  "create_allocation = \<lparr>ba_list = empty_list, ba_oob_list = empty_list, ba_filename = None\<rparr>"

definition region_list_remove :: "region_list \<Rightarrow> ptr \<Rightarrow> heap \<Rightarrow> fault + region_list \<times> heap" where
  "region_list_remove l reg h =
     rbind (load h reg) (\<lambda>r.
     rbind (if r_prev r \<noteq> None then modify (r_prev r) (\<lambda>p. p\<lparr>r_next := r_next r\<rparr>) h else Inr h) (\<lambda>h.
     rbind (load h reg) (\<lambda>r.
     rbind (if r_next r \<noteq> None then modify (r_next r) (\<lambda>n. n\<lparr>r_prev := r_prev r\<rparr>) h else Inr h) (\<lambda>h.
     rbind (load h reg) (\<lambda>r.
     let l = (if rl_first l = reg then l\<lparr>rl_first := r_next r\<rparr> else l);
         l = (if rl_last l = reg then l\<lparr>rl_last := r_prev r\<rparr> else l)
     in rbind (modify reg (\<lambda>r. r\<lparr>r_next := None, r_prev := None\<rparr>) h) (\<lambda>h. Inr (l, h)))))))"

definition region_list_append :: "region_list \<Rightarrow> ptr \<Rightarrow> heap \<Rightarrow> fault + region_list \<times> heap" where
  "region_list_append l reg h =
     rbind (if rl_first l = None
            then rbind (modify reg (\<lambda>r. r\<lparr>r_prev := None\<rparr>) h) (\<lambda>h.
              Inr (l\<lparr>rl_first := reg, rl_last := reg, rl_iter := reg, rl_partial_iter := 0\<rparr>, h))
            else rbind (modify (rl_last l) (\<lambda>r. r\<lparr>r_next := reg\<rparr>) h) (\<lambda>h.
              rbind (modify reg (\<lambda>r. r\<lparr>r_prev := rl_last l\<rparr>) h) (\<lambda>h.
              Inr (l\<lparr>rl_last := reg\<rparr>, h)))) (\<lambda>(l, h).
     rbind (modify reg (\<lambda>r. r\<lparr>r_next := None\<rparr>) h) (\<lambda>h. Inr (l, h)))"

definition region_list_merge :: "region_list \<Rightarrow> region_list \<Rightarrow> heap \<Rightarrow> fault + region_list \<times> heap" where
  "region_list_merge l1 l2 h =
     (if rl_first l1 = None
      then let l1 = l1\<lparr>rl_first := rl_first l2, rl_last := rl_last l2, rl_iter := rl_first l2, rl_partial_iter := 0\<rparr>
           in rbind (modify (rl_first l1) (\<lambda>r. r\<lparr>r_prev := None\<rparr>) h) (\<lambda>h. Inr (l1, h))
      else rbind (modify (rl_last l1) (\<lambda>r. r\<lparr>r_next := rl_first l2\<rparr>) h) (\<lambda>h.
           rbind (modify (rl_first l2) (\<lambda>r. r\<lparr>r_prev := rl_last l1\<rparr>) h) (\<lambda>h.
           Inr (l1\<lparr>rl_last := rl_last l2\<rparr>, h))))"

text \<open>The field \<open>prev\<close> of the new region is set by \<open>region_list_append\<close>; \<open>junk\<close> is what it held before.\<close>

definition append_region :: "ptr \<Rightarrow> block_allocation \<Rightarrow> u32 \<Rightarrow> u32 \<Rightarrow> nat \<Rightarrow> heap \<Rightarrow> fault + block_allocation \<times> heap" where
  "append_region junk al block len bg_num h =
     (let (reg, h) = malloc \<lparr>r_block = block, r_len = len, r_bg = bg_num, r_next = None, r_prev = junk\<rparr> h
      in rbind (region_list_append (ba_list al) reg h) (\<lambda>(l, h). Inr (al\<lparr>ba_list := l\<rparr>, h)))"

section \<open>Walking a list\<close>

partial_function (option) num_loop :: "heap \<Rightarrow> ptr \<Rightarrow> u32 \<Rightarrow> (fault + u32) option" where
  "num_loop h reg i =
     (if reg = None then Some (Inr i)
      else case load h reg of Inl e \<Rightarrow> Some (Inl e) | Inr r \<Rightarrow> num_loop h (r_next r) (i + 1))"

definition block_allocation_num_regions :: "heap \<Rightarrow> block_allocation \<Rightarrow> fault + u32" where
  "block_allocation_num_regions h al = loop (num_loop h (rl_first (ba_list al)) 0)"

partial_function (option) len_loop :: "heap \<Rightarrow> ptr \<Rightarrow> u32 \<Rightarrow> (fault + u32) option" where
  "len_loop h reg i =
     (if reg = None then Some (Inr i)
      else case load h reg of Inl e \<Rightarrow> Some (Inl e) | Inr r \<Rightarrow> len_loop h (r_next r) (i + r_len r))"

definition block_allocation_len :: "heap \<Rightarrow> block_allocation \<Rightarrow> fault + u32" where
  "block_allocation_len h al = loop (len_loop h (rl_first (ba_list al)) 0)"

definition EXT4_ALLOCATE_FAILED :: u32 where
  "EXT4_ALLOCATE_FAILED = NOT 0"

partial_function (option) block_loop :: "heap \<Rightarrow> ptr \<Rightarrow> u32 \<Rightarrow> (fault + u32) option" where
  "block_loop h reg block =
     (if reg = None then Some (Inr EXT4_ALLOCATE_FAILED)
      else case load h reg of Inl e \<Rightarrow> Some (Inl e)
        | Inr r \<Rightarrow> if block < r_len r then Some (Inr (r_block r + block))
            else block_loop h (r_next r) (block - r_len r))"

definition get_block :: "heap \<Rightarrow> block_allocation \<Rightarrow> u32 \<Rightarrow> fault + u32" where
  "get_block h al block =
     loop (block_loop h (rl_iter (ba_list al)) (block + rl_partial_iter (ba_list al)))"

definition get_oob_block :: "heap \<Rightarrow> block_allocation \<Rightarrow> u32 \<Rightarrow> fault + u32" where
  "get_oob_block h al block =
     loop (block_loop h (rl_iter (ba_oob_list al)) (block + rl_partial_iter (ba_oob_list al)))"

text \<open>\<open>get_region\<close> returns the block and the length through its pointer arguments.\<close>

definition get_region :: "heap \<Rightarrow> block_allocation \<Rightarrow> fault + u32 \<times> u32" where
  "get_region h al = rbind (load h (rl_iter (ba_list al))) (\<lambda>r.
     Inr (r_block r, r_len r - rl_partial_iter (ba_list al)))"

definition get_next_region :: "heap \<Rightarrow> block_allocation \<Rightarrow> fault + block_allocation" where
  "get_next_region h al = rbind (load h (rl_iter (ba_list al))) (\<lambda>r.
     Inr (al\<lparr>ba_list := (ba_list al)\<lparr>rl_iter := r_next r, rl_partial_iter := 0\<rparr>\<rparr>))"

definition last_region :: "block_allocation \<Rightarrow> bool" where
  "last_region al \<longleftrightarrow> rl_iter (ba_list al) = None"

definition rewind_alloc :: "block_allocation \<Rightarrow> block_allocation" where
  "rewind_alloc al = al\<lparr>ba_list := (ba_list al)\<lparr>rl_iter := rl_first (ba_list al), rl_partial_iter := 0\<rparr>\<rparr>"

section \<open>Splitting a list\<close>

partial_function (option) split_loop :: "heap \<Rightarrow> ptr \<Rightarrow> u32 \<Rightarrow> (fault + ptr \<times> u32) option" where
  "split_loop h reg len =
     (if reg = None then Some (Inr (reg, len))
      else case load h reg of Inl e \<Rightarrow> Some (Inl e)
        | Inr r \<Rightarrow> if len \<ge> r_len r then split_loop h (r_next r) (len - r_len r) else Some (Inr (reg, len)))"

definition do_split_allocation :: "block_allocation \<Rightarrow> u32 \<Rightarrow> heap \<Rightarrow> fault + ptr \<times> block_allocation \<times> heap" where
  "do_split_allocation al len h =
     rbind (loop (split_loop h (rl_iter (ba_list al)) len)) (\<lambda>(reg, len).
     if reg = None \<and> len > 0 then Inr (None, al, h)
     else if len > 0
     then rbind (load h reg) (\<lambda>r.
          let (new, h) = malloc \<lparr>r_block = r_block r + len, r_len = r_len r - len, r_bg = r_bg r,
                r_next = r_next r, r_prev = reg\<rparr> h
          in rbind (modify reg (\<lambda>r. r\<lparr>r_next := new, r_len := len\<rparr>) h) (\<lambda>h.
          let tmp = rl_iter (ba_list al)
          in Inr (tmp, al\<lparr>ba_list := (ba_list al)\<lparr>rl_iter := new\<rparr>\<rparr>, h)))
     else Inr (reg, al, h))"

definition split_allocation :: "block_allocation \<Rightarrow> u32 \<Rightarrow> heap \<Rightarrow> fault + ptr \<times> block_allocation \<times> heap" where
  "split_allocation al len h =
     rbind (do_split_allocation al (rl_partial_iter (ba_list al)) h) (\<lambda>(_, al, h).
     rbind (do_split_allocation al len h) (\<lambda>(middle, al, h).
     Inr (middle, al\<lparr>ba_list := (ba_list al)\<lparr>rl_partial_iter := 0\<rparr>\<rparr>, h)))"

partial_function (option) oob_loop :: "ptr \<Rightarrow> block_allocation \<Rightarrow> heap \<Rightarrow> (fault + block_allocation \<times> heap) option" where
  "oob_loop oob al h =
     (if oob = None \<or> oob = rl_iter (ba_list al) then Some (Inr (al, h))
      else case load h oob of Inl e \<Rightarrow> Some (Inl e) | Inr r \<Rightarrow>
        case region_list_remove (ba_list al) oob h of Inl e \<Rightarrow> Some (Inl e) | Inr (l, h) \<Rightarrow>
        case region_list_append (ba_oob_list al) oob h of Inl e \<Rightarrow> Some (Inl e) | Inr (o_l, h) \<Rightarrow>
        oob_loop (r_next r) (al\<lparr>ba_list := l, ba_oob_list := o_l\<rparr>) h)"

definition reserve_oob_blocks :: "block_allocation \<Rightarrow> u32 \<Rightarrow> heap \<Rightarrow> fault + int \<times> block_allocation \<times> heap" where
  "reserve_oob_blocks al blocks h =
     rbind (split_allocation al blocks h) (\<lambda>(oob, al, h).
     if oob = None then Inr (-1, al, h)
     else rbind (loop (oob_loop oob al h)) (\<lambda>(al, h). Inr (0, al, h)))"

text \<open>The argument \<open>blocks\<close> is an \<^verbatim>\<open>int\<close>; sums with the unsigned fields are unsigned.\<close>

partial_function (option) advance_loop :: "heap \<Rightarrow> ptr \<Rightarrow> u32 \<Rightarrow> u32 \<Rightarrow> (fault + int \<times> u32) option" where
  "advance_loop h reg partial blocks =
     (if reg \<noteq> None \<and> sint blocks > 0
      then case load h reg of Inl e \<Rightarrow> Some (Inl e)
        | Inr r \<Rightarrow> if r_len r > partial + blocks then Some (Inr (0, partial + blocks))
            else advance_loop h (r_next r) 0 (blocks - (r_len r - partial))
      else Some (Inr (if sint blocks > 0 then -1 else 0, partial)))"

definition advance_list_ptr :: "heap \<Rightarrow> region_list \<Rightarrow> u32 \<Rightarrow> fault + int \<times> region_list" where
  "advance_list_ptr h l blocks =
     rbind (loop (advance_loop h (rl_iter l) (rl_partial_iter l) blocks)) (\<lambda>(ret, partial).
     Inr (ret, l\<lparr>rl_partial_iter := partial\<rparr>))"

definition advance_blocks :: "heap \<Rightarrow> block_allocation \<Rightarrow> u32 \<Rightarrow> fault + int \<times> block_allocation" where
  "advance_blocks h al blocks = rbind (advance_list_ptr h (ba_list al) blocks) (\<lambda>(ret, l).
     Inr (ret, al\<lparr>ba_list := l\<rparr>))"

definition advance_oob_blocks :: "heap \<Rightarrow> block_allocation \<Rightarrow> u32 \<Rightarrow> fault + int \<times> block_allocation" where
  "advance_oob_blocks h al blocks = rbind (advance_list_ptr h (ba_oob_list al) blocks) (\<lambda>(ret, l).
     Inr (ret, al\<lparr>ba_oob_list := l\<rparr>))"

partial_function (option) free_loop :: "ptr \<Rightarrow> heap \<Rightarrow> (fault + heap) option" where
  "free_loop reg h =
     (if reg = None then Some (Inr h)
      else case load h reg of Inl e \<Rightarrow> Some (Inl e)
        | Inr r \<Rightarrow> case free reg h of Inl e \<Rightarrow> Some (Inl e) | Inr h \<Rightarrow> free_loop (r_next r) h)"

definition free_alloc :: "block_allocation \<Rightarrow> heap \<Rightarrow> fault + heap" where
  "free_alloc al h =
     rbind (loop (free_loop (rl_first (ba_list al)) h)) (\<lambda>h.
     loop (free_loop (rl_first (ba_oob_list al)) h))"

section \<open>Well-formed lists\<close>

definition live :: "heap \<Rightarrow> nat \<Rightarrow> bool" where
  "live h a \<longleftrightarrow> a < length h \<and> h ! a \<noteq> None"

definition cell :: "heap \<Rightarrow> nat \<Rightarrow> region" where
  "cell h a = the (h ! a)"

lemma load_live [simp]: "live h a \<Longrightarrow> load h (Some a) = Inr (cell h a)"
  by (auto simp: load_def live_def cell_def)

lemma load_None [simp]: "load h None = Inl BadPointer"
  by (simp add: load_def)

lemma modify_live [simp]: "live h a \<Longrightarrow> modify (Some a) f h = Inr (h[a := Some (f (cell h a))])"
  by (simp add: modify_def)

lemma live_update [simp]: "live h a \<Longrightarrow> live (h[a := Some r]) b = live h b"
  by (auto simp: live_def nth_list_update)

lemma cell_update [simp]: "live h a \<Longrightarrow> cell (h[a := Some r]) b = (if a = b then r else cell h b)"
  by (auto simp: live_def cell_def)

lemma live_append [simp]: "live h a \<Longrightarrow> live (h @ g) a" "live h a \<Longrightarrow> cell (h @ g) a = cell h a"
  by (auto simp: live_def cell_def nth_append)

lemma live_new [simp]: "live (h @ [Some r]) (length h)" "cell (h @ [Some r]) (length h) = r"
  by (auto simp: live_def cell_def)

lemma not_live_new: "live h a \<Longrightarrow> a \<noteq> length h"
  by (auto simp: live_def)

text \<open>The links from \<open>p\<close> run through the cells \<open>as\<close> and end in \<open>q\<close>; \<open>dlist\<close> also gives the links back.\<close>

primrec path :: "heap \<Rightarrow> ptr \<Rightarrow> nat list \<Rightarrow> ptr \<Rightarrow> bool" where
  "path h p [] q \<longleftrightarrow> p = q"
| "path h p (a # as) q \<longleftrightarrow> p = Some a \<and> live h a \<and> path h (r_next (cell h a)) as q"

primrec dlist :: "heap \<Rightarrow> ptr \<Rightarrow> ptr \<Rightarrow> nat list \<Rightarrow> ptr \<Rightarrow> bool" where
  "dlist h pv p [] q \<longleftrightarrow> p = q"
| "dlist h pv p (a # as) q \<longleftrightarrow> p = Some a \<and> live h a \<and> r_prev (cell h a) = pv
     \<and> dlist h (Some a) (r_next (cell h a)) as q"

definition last_ptr :: "ptr \<Rightarrow> nat list \<Rightarrow> ptr" where
  "last_ptr pv as = (if as = [] then pv else Some (last as))"

lemma last_ptr_simps [simp]:
  "last_ptr pv [] = pv" "last_ptr pv (a # as) = last_ptr (Some a) as"
  "last_ptr pv (as @ [a]) = Some a" "last_ptr pv (as @ a # bs) = last_ptr (Some a) bs"
  by (auto simp: last_ptr_def)

lemma dlist_path: "dlist h pv p as q \<Longrightarrow> path h p as q"
  by (induction as arbitrary: pv p) auto

lemma dlist_append [simp]:
  "dlist h pv p (as @ bs) q \<longleftrightarrow> (\<exists>m. dlist h pv p as m \<and> dlist h (last_ptr pv as) m bs q)"
  by (induction as arbitrary: pv p) auto

lemma path_append [simp]: "path h p (as @ bs) q \<longleftrightarrow> (\<exists>m. path h p as m \<and> path h m bs q)"
  by (induction as arbitrary: p) auto

lemma path_live: "path h p as q \<Longrightarrow> a \<in> set as \<Longrightarrow> live h a"
  by (induction as arbitrary: p) auto

lemma dlist_live: "dlist h pv p as q \<Longrightarrow> a \<in> set as \<Longrightarrow> live h a"
  using dlist_path path_live by blast

lemma path_frame:
  assumes "path h p as q" and "\<And>a. a \<in> set as \<Longrightarrow> live h' a \<and> r_next (cell h' a) = r_next (cell h a)"
  shows "path h' p as q"
  using assms by (induction as arbitrary: p) auto

lemma dlist_frame:
  assumes "dlist h pv p as q"
    and "\<And>a. a \<in> set as \<Longrightarrow> live h' a \<and> r_next (cell h' a) = r_next (cell h a) \<and> r_prev (cell h' a) = r_prev (cell h a)"
  shows "dlist h' pv p as q"
  using assms by (induction as arbitrary: pv p) auto

lemma path_None: "path h None as q \<longleftrightarrow> as = [] \<and> q = None"
  by (cases as) auto

text \<open>A list that ends in \<^verbatim>\<open>NULL\<close> has no repeated cell.\<close>

lemma path_unique: "path h p as None \<Longrightarrow> path h p bs None \<Longrightarrow> as = bs"
proof (induction as arbitrary: p bs)
  case Nil
  then show ?case by (cases bs) auto
next
  case (Cons a as)
  then show ?case by (cases bs) auto
qed

lemma path_distinct: "path h p as None \<Longrightarrow> distinct as"
proof (induction as arbitrary: p)
  case (Cons a as)
  have False if m: "a \<in> set as"
  proof -
    obtain xs ys where s: "as = xs @ a # ys"
      using split_list [OF m] by blast
    then have "path h (Some a) (a # ys) None" "path h (Some a) (a # as) None"
      using Cons.prems by auto
    then have "a # ys = a # as"
      by (rule path_unique)
    then show False
      using s by simp
  qed
  then show ?case
    using Cons by auto
qed simp

definition list_wf :: "heap \<Rightarrow> region_list \<Rightarrow> nat list \<Rightarrow> bool" where
  "list_wf h l as \<longleftrightarrow> dlist h None (rl_first l) as None \<and> rl_last l = last_ptr None as"

lemma list_wf_path: "list_wf h l as \<Longrightarrow> path h (rl_first l) as None"
  by (auto simp: list_wf_def dlist_path)

lemma list_wf_distinct: "list_wf h l as \<Longrightarrow> distinct as"
  by (blast intro: list_wf_path path_distinct)

lemma list_wf_live: "list_wf h l as \<Longrightarrow> a \<in> set as \<Longrightarrow> live h a"
  by (auto simp: list_wf_def dlist_live)

lemma list_wf_frame:
  assumes "list_wf h l as" and "\<And>a. a \<in> set as \<Longrightarrow> live h' a \<and> cell h' a = cell h a"
    and "rl_first l' = rl_first l" "rl_last l' = rl_last l"
  shows "list_wf h' l' as"
  using assms dlist_frame [of h None "rl_first l" as None h'] by (auto simp: list_wf_def)

lemma list_wf_Nil [simp]: "list_wf h l [] \<longleftrightarrow> rl_first l = None \<and> rl_last l = None"
  by (auto simp: list_wf_def)

lemma list_wf_empty: "list_wf h l as \<Longrightarrow> rl_first l = None \<longleftrightarrow> as = []"
  by (cases as) (auto simp: list_wf_def)

text \<open>The data of the cells: the links change, the regions do not.\<close>

definition data :: "heap \<Rightarrow> nat \<Rightarrow> u32 \<times> u32 \<times> nat" where
  "data h a = (r_block (cell h a), r_len (cell h a), r_bg (cell h a))"

definition same_data :: "heap \<Rightarrow> heap \<Rightarrow> bool" where
  "same_data h h' \<longleftrightarrow> length h \<le> length h' \<and> (\<forall>a. live h a \<longrightarrow> live h' a \<and> data h' a = data h a)"

lemma same_data_refl [simp]: "same_data h h"
  by (simp add: same_data_def)

lemma same_data_trans [trans]: "same_data h h1 \<Longrightarrow> same_data h1 h2 \<Longrightarrow> same_data h h2"
  by (auto simp: same_data_def)

lemma same_data_update:
  "live h a \<Longrightarrow> r_block r = r_block (cell h a) \<Longrightarrow> r_len r = r_len (cell h a) \<Longrightarrow> r_bg r = r_bg (cell h a)
    \<Longrightarrow> same_data h (h[a := Some r])"
  by (auto simp: same_data_def data_def)

text \<open>Appending a cell that is in no list.\<close>

lemma last_cases: "as = [] \<or> (\<exists>bs b. as = bs @ [b])"
  by (cases as rule: rev_cases) auto

lemma region_list_append_ok:
  assumes "list_wf h l as" and "live h a" and "a \<notin> set as"
  obtains l' h' where "region_list_append l (Some a) h = Inr (l', h')" and "list_wf h' l' (as @ [a])"
    and "same_data h h'" and "\<And>b. b \<notin> set as \<Longrightarrow> b \<noteq> a \<Longrightarrow> live h b \<Longrightarrow> live h' b \<and> cell h' b = cell h b"
    and "length h' = length h"
    and "rl_iter l' = (if as = [] then Some a else rl_iter l)"
    and "rl_partial_iter l' = (if as = [] then 0 else rl_partial_iter l)"
  using last_cases [of as]
proof (elim disjE exE)
  assume "as = []"
  then show thesis
    using assms by (intro that [of "l\<lparr>rl_first := Some a, rl_last := Some a, rl_iter := Some a, rl_partial_iter := 0\<rparr>"
        "h[a := Some ((cell h a)\<lparr>r_prev := None, r_next := None\<rparr>)]"])
      (auto simp: region_list_append_def list_wf_def same_data_def data_def)
next
  fix bs b
  assume as: "as = bs @ [b]"
  then have l: "rl_last l = Some b" "live h b" "rl_first l \<noteq> None" "b \<noteq> a" "a \<notin> set bs"
    "dlist h None (rl_first l) bs (Some b)" "r_prev (cell h b) = last_ptr None bs"
    using assms list_wf_empty [OF assms(1)] by (auto simp: list_wf_def)
  have d: "b \<notin> set bs"
    using list_wf_distinct [OF assms(1)] as by simp
  let ?h = "h[b := Some ((cell h b)\<lparr>r_next := Some a\<rparr>)]"
  let ?h = "?h[a := Some ((cell h a)\<lparr>r_prev := Some b, r_next := None\<rparr>)]"
  have "dlist ?h None (rl_first l) bs (Some b)"
    using l d assms(2) by (intro dlist_frame [OF l(6)]) (auto dest: dlist_live)
  then have "list_wf ?h (l\<lparr>rl_last := Some a\<rparr>) (as @ [a])"
    using l assms(2) by (auto simp: list_wf_def as)
  then show thesis
    using l assms(2) by (intro that [of "l\<lparr>rl_last := Some a\<rparr>" ?h])
      (auto simp: region_list_append_def same_data_def data_def as)
qed


text \<open>Merging two lists that share no cell.\<close>

lemma region_list_merge_ok:
  assumes "list_wf h l1 as" and "list_wf h l2 (b # bs)" and "set as \<inter> set (b # bs) = {}"
  obtains l' h' where "region_list_merge l1 l2 h = Inr (l', h')" and "list_wf h' l' (as @ b # bs)"
    and "same_data h h'"
    and "rl_iter l' = (if as = [] then Some b else rl_iter l1)"
    and "rl_partial_iter l' = (if as = [] then 0 else rl_partial_iter l1)"
  using last_cases [of as]
proof (elim disjE exE)
  have 2: "rl_first l2 = Some b" "live h b" "r_prev (cell h b) = None" "dlist h (Some b) (r_next (cell h b)) bs None"
    "rl_last l2 = last_ptr (Some b) bs"
    using assms(2) by (auto simp: list_wf_def)
  have nb: "b \<notin> set bs"
    using list_wf_distinct [OF assms(2)] by simp
  {
    assume "as = []"
    moreover have "dlist (h[b := Some ((cell h b)\<lparr>r_prev := None\<rparr>)]) (Some b) (r_next (cell h b)) bs None"
      using 2 nb by (intro dlist_frame [OF 2(4)]) (auto dest: dlist_live)
    ultimately show thesis
      using assms(1) 2 by (intro that [of "l1\<lparr>rl_first := Some b, rl_last := rl_last l2, rl_iter := Some b,
          rl_partial_iter := 0\<rparr>" "h[b := Some ((cell h b)\<lparr>r_prev := None\<rparr>)]"])
        (auto simp: region_list_merge_def list_wf_def same_data_def data_def)
  }
  fix cs c
  assume as: "as = cs @ [c]"
  then have l: "rl_last l1 = Some c" "live h c" "rl_first l1 \<noteq> None" "dlist h None (rl_first l1) cs (Some c)"
    "r_prev (cell h c) = last_ptr None cs"
    using assms(1) list_wf_empty [OF assms(1)] by (auto simp: list_wf_def)
  have d: "c \<notin> set cs" "b \<notin> set cs" "c \<noteq> b" "c \<notin> set bs"
    using list_wf_distinct [OF assms(1)] assms(3) as by auto
  let ?h = "h[c := Some ((cell h c)\<lparr>r_next := Some b\<rparr>)]"
  let ?h = "?h[b := Some ((cell h b)\<lparr>r_prev := Some c\<rparr>)]"
  have "dlist ?h None (rl_first l1) cs (Some c)"
    using l 2 d by (intro dlist_frame [OF l(4)]) (auto dest: dlist_live)
  moreover have "dlist ?h (Some b) (r_next (cell h b)) bs None"
    using l 2 d nb by (intro dlist_frame [OF 2(4)]) (auto dest: dlist_live)
  ultimately have "list_wf ?h (l1\<lparr>rl_last := rl_last l2\<rparr>) (as @ b # bs)"
    using l 2 d by (auto simp: list_wf_def as)
  then show thesis
    using l 2 d by (intro that [of "l1\<lparr>rl_last := rl_last l2\<rparr>" ?h])
      (auto simp: region_list_merge_def same_data_def data_def as)
qed

text \<open>Removing a cell.\<close>

lemma region_list_remove_ok:
  assumes "list_wf h l (as @ a # bs)"
  obtains l' h' where "region_list_remove l (Some a) h = Inr (l', h')" and "list_wf h' l' (as @ bs)"
    and "same_data h h'" and "\<And>b. b \<notin> set (as @ a # bs) \<Longrightarrow> live h b \<Longrightarrow> live h' b \<and> cell h' b = cell h b"
    and "length h' = length h" and "live h' a" and "rl_iter l' = rl_iter l" "rl_partial_iter l' = rl_partial_iter l"
proof -
  have a: "live h a" "r_prev (cell h a) = last_ptr None as" "dlist h None (rl_first l) as (Some a)"
    "dlist h (Some a) (r_next (cell h a)) bs None" "rl_last l = last_ptr (Some a) bs"
    using assms by (auto simp: list_wf_def)
  have d: "distinct (as @ a # bs)"
    using list_wf_distinct [OF assms] .
  define h1 where "h1 = (case rev as of [] \<Rightarrow> h | x # _ \<Rightarrow> h[x := Some ((cell h x)\<lparr>r_next := r_next (cell h a)\<rparr>)])"
  define h2 where "h2 = (case bs of [] \<Rightarrow> h1 | c # _ \<Rightarrow> h1[c := Some ((cell h c)\<lparr>r_prev := r_prev (cell h a)\<rparr>)])"
  define h3 where "h3 = h2[a := Some ((cell h a)\<lparr>r_next := None, r_prev := None\<rparr>)]"
  define l1 where "l1 = (if rl_first l = Some a then l\<lparr>rl_first := r_next (cell h a)\<rparr> else l)"
  define l2 where "l2 = (if rl_last l1 = Some a then l1\<lparr>rl_last := r_prev (cell h a)\<rparr> else l1)"
  have lv1: "live h1 b = live h b" for b
    using a(3) by (cases as rule: rev_cases) (auto simp: h1_def)
  have lv: "live h2 b = live h b" "live h3 b = live h b" for b
    using a lv1 by (cases bs; auto simp: h2_def h3_def)+
  have c1: "cell h1 b = (if last_ptr None as = Some b then (cell h b)\<lparr>r_next := r_next (cell h a)\<rparr> else cell h b)" for b
    using a(3) by (cases as rule: rev_cases) (auto simp: h1_def)
  have nd: "last_ptr None as \<noteq> Some a" "a \<notin> set as" "a \<notin> set bs" "\<And>c cs. bs = c # cs \<Longrightarrow> last_ptr None as \<noteq> Some c"
    using d by (cases as rule: rev_cases; auto)+
  have c2: "cell h2 b = (if bs \<noteq> [] \<and> b = hd bs then (cell h b)\<lparr>r_prev := r_prev (cell h a)\<rparr> else cell h1 b)" for b
    using a(4) lv1 nd by (cases bs) (auto simp: h2_def c1)
  have c3: "cell h3 b = (if b = a then (cell h a)\<lparr>r_next := None, r_prev := None\<rparr> else cell h2 b)" for b
    using a(1) lv by (auto simp: h3_def)
  have n: "r_next (cell h a) = (if bs = [] then None else Some (hd bs))"
    using a(4) by (cases bs) auto
  have ca: "cell h1 a = cell h a" "cell h2 a = cell h a"
    using nd by (auto simp: c1 c2)
  have ld: "load h (Some a) = Inr (cell h a)" "load h1 (Some a) = Inr (cell h a)" "load h2 (Some a) = Inr (cell h a)"
    using a(1) by (simp_all add: lv1 lv ca)
  have m1: "(if r_prev (cell h a) \<noteq> None then modify (r_prev (cell h a)) (\<lambda>p. p\<lparr>r_next := r_next (cell h a)\<rparr>) h else Inr h) = Inr h1"
    using a(2,3) by (cases as rule: rev_cases) (auto simp: h1_def)
  have m2: "(if r_next (cell h a) \<noteq> None then modify (r_next (cell h a)) (\<lambda>p. p\<lparr>r_prev := r_prev (cell h a)\<rparr>) h1 else Inr h1) = Inr h2"
    using a(4) nd lv1 by (cases bs) (auto simp: h2_def c1)
  have "region_list_remove l (Some a) h = Inr (l2, h3)"
    unfolding region_list_remove_def ld(1) rbind_simps m1 ld(2) m2 ld(3) Let_def l1_def [symmetric] l2_def [symmetric]
    using a(1) by (simp add: lv h3_def ca)
  moreover have "dlist h3 None (rl_first l2) as (r_next (cell h a))"
  proof (cases as rule: rev_cases)
    case Nil
    then show ?thesis
      using a(3) by (simp add: l2_def l1_def)
  next
    case (snoc xs x)
    then have "rl_first l2 = rl_first l"
      using a(3) nd by (cases xs) (auto simp: l2_def l1_def)
    moreover have "dlist h3 None (rl_first l) xs (Some x)"
      by (rule dlist_frame [of h]) (use snoc a(3) d in \<open>auto simp: lv c3 c2 c1 dest: dlist_live\<close>)
    ultimately show ?thesis
      using snoc a(3) d nd by (auto simp: lv c3 c2 c1)
  qed
  moreover have "dlist h3 (last_ptr None as) (r_next (cell h a)) bs None"
  proof (cases bs)
    case (Cons c cs)
    have nl: "last_ptr None as \<noteq> Some b" if "b \<in> set cs" for b
      using d that Cons by (auto simp: last_ptr_def dest: last_in_set)
    have "dlist h3 (Some c) (r_next (cell h c)) cs None"
      by (rule dlist_frame [of h]) (use Cons a(4) d nl in \<open>auto simp: lv c3 c2 c1 dest: dlist_live\<close>)
    then show ?thesis
      using Cons a d nd by (auto simp: lv c3 c2 c1)
  qed (use n in simp)
  moreover have "rl_last l2 = last_ptr None (as @ bs)"
    using a(2,3,5) nd by (cases bs) (auto simp: l2_def l1_def last_ptr_def)
  moreover have it: "rl_iter l2 = rl_iter l" "rl_partial_iter l2 = rl_partial_iter l"
    by (simp_all add: l2_def l1_def)
  moreover have len: "length h3 = length h"
    by (auto simp: h3_def h2_def h1_def split: list.split)
  moreover have "same_data h h3"
    using len by (auto simp: same_data_def data_def lv c3 c2 c1)
  moreover have "cell h3 b = cell h b" if "b \<notin> set (as @ a # bs)" for b
    using that by (auto simp: c3 c2 c1 last_ptr_def)
  ultimately show thesis
    using a(1) it by (intro that [of l2 h3]) (auto simp: lv list_wf_def)
qed

section \<open>The blocks of a list\<close>

definition region_blocks :: "u32 \<Rightarrow> u32 \<Rightarrow> u32 list" where
  "region_blocks b n = map (\<lambda>k. b + of_nat k) [0..<unat n]"

definition blocks :: "heap \<Rightarrow> nat list \<Rightarrow> u32 list" where
  "blocks h as = concat (map (\<lambda>a. region_blocks (r_block (cell h a)) (r_len (cell h a))) as)"

lemma length_region_blocks [simp]: "length (region_blocks b n) = unat n"
  by (simp add: region_blocks_def)

lemma nth_region_blocks [simp]: "k < unat n \<Longrightarrow> region_blocks b n ! k = b + of_nat k"
  by (simp add: region_blocks_def)

lemma region_blocks_split:
  assumes "k \<le> n"
  shows "take (unat k) (region_blocks b n) = region_blocks b k"
    and "drop (unat k) (region_blocks b n) = region_blocks (b + k) (n - k)"
proof -
  have k: "unat k \<le> unat n" "unat (n - k) = unat n - unat k"
    using assms by (simp_all add: word_le_nat_alt unat_sub)
  show "take (unat k) (region_blocks b n) = region_blocks b k"
    using k by (simp add: region_blocks_def take_map)
  show "drop (unat k) (region_blocks b n) = region_blocks (b + k) (n - k)"
    using k by (intro nth_equalityI) (simp_all add: add.assoc)
qed

lemma blocks_simps [simp]:
  "blocks h [] = []"
  "blocks h (a # as) = region_blocks (r_block (cell h a)) (r_len (cell h a)) @ blocks h as"
  "blocks h (as @ bs) = blocks h as @ blocks h bs"
  by (simp_all add: blocks_def)

lemma blocks_frame: "(\<And>a. a \<in> set as \<Longrightarrow> data h' a = data h a) \<Longrightarrow> blocks h' as = blocks h as"
  by (induction as) (auto simp: data_def)

lemma blocks_same_data: "same_data h h' \<Longrightarrow> path h p as q \<Longrightarrow> blocks h' as = blocks h as"
  by (rule blocks_frame) (auto simp: same_data_def dest: path_live)

lemma num_loop_ok: "path h p as None \<Longrightarrow> num_loop h p i = Some (Inr (i + of_nat (length as)))"
proof (induction as arbitrary: p i)
  case Nil
  then show ?case by (subst num_loop.simps) simp
next
  case (Cons a as)
  then show ?case by (subst num_loop.simps) (auto simp: add.assoc)
qed

lemma len_loop_ok: "path h p as None \<Longrightarrow> len_loop h p i = Some (Inr (i + of_nat (length (blocks h as))))"
proof (induction as arbitrary: p i)
  case Nil
  then show ?case by (subst len_loop.simps) simp
next
  case (Cons a as)
  then show ?case by (subst len_loop.simps) (auto simp: add.assoc)
qed

lemma block_loop_ok:
  "path h p as None \<Longrightarrow> block_loop h p k
    = Some (Inr (if unat k < length (blocks h as) then blocks h as ! unat k else EXT4_ALLOCATE_FAILED))"
proof (induction as arbitrary: p k)
  case Nil
  then show ?case by (subst block_loop.simps) simp
next
  case (Cons a as)
  let ?n = "r_len (cell h a)"
  have p: "p = Some a" "live h a" "path h (r_next (cell h a)) as None"
    using Cons.prems by auto
  show ?case
  proof (cases "k < ?n")
    case True
    then show ?thesis
      using p by (subst block_loop.simps) (simp add: word_less_nat_alt nth_append)
  next
    case False
    then have "unat (k - ?n) = unat k - unat ?n" "unat ?n \<le> unat k"
      by (simp_all add: unat_sub word_le_nat_alt not_less)
    then show ?thesis
      using p False Cons.IH [OF p(3), of "k - ?n"]
      by (subst block_loop.simps) (auto simp: nth_append)
  qed
qed

lemma loop_Some [simp]: "loop (Some x) = x"
  by (simp add: loop_def)

lemma block_allocation_num_regions_ok:
  "path h (rl_first (ba_list al)) as None \<Longrightarrow> block_allocation_num_regions h al = Inr (of_nat (length as))"
  by (simp add: block_allocation_num_regions_def num_loop_ok)

lemma block_allocation_len_ok:
  "path h (rl_first (ba_list al)) as None \<Longrightarrow> block_allocation_len h al = Inr (of_nat (length (blocks h as)))"
  by (simp add: block_allocation_len_def len_loop_ok)

lemma get_block_ok:
  assumes "path h (rl_iter (ba_list al)) as None" and "rl_partial_iter (ba_list al) = 0"
  shows "get_block h al k = Inr (if unat k < length (blocks h as) then blocks h as ! unat k else EXT4_ALLOCATE_FAILED)"
  using assms by (simp add: get_block_def block_loop_ok)

lemma get_oob_block_ok:
  assumes "path h (rl_iter (ba_oob_list al)) as None" and "rl_partial_iter (ba_oob_list al) = 0"
  shows "get_oob_block h al k = Inr (if unat k < length (blocks h as) then blocks h as ! unat k else EXT4_ALLOCATE_FAILED)"
  using assms by (simp add: get_oob_block_def block_loop_ok)

section \<open>Reserving out-of-band blocks\<close>

lemma split_loop_stop:
  "live h a \<Longrightarrow> n < r_len (cell h a) \<Longrightarrow> split_loop h (Some a) n = Some (Inr (Some a, n))"
  by (subst split_loop.simps) (auto dest: leD)

lemma split_loop_step:
  "live h a \<Longrightarrow> r_len (cell h a) \<le> n \<Longrightarrow> split_loop h (Some a) n = split_loop h (r_next (cell h a)) (n - r_len (cell h a))"
  by (subst split_loop.simps) simp

lemma split_loop_None: "split_loop h None n = Some (Inr (None, n))"
  by (subst split_loop.simps) simp

lemma oob_loop_stop: "oob = None \<or> oob = rl_iter (ba_list al) \<Longrightarrow> oob_loop oob al h = Some (Inr (al, h))"
  by (subst oob_loop.simps) simp

lemma next_cell: "path h p (a # as) None \<Longrightarrow> r_next (cell h a) = (case as of [] \<Rightarrow> None | b # _ \<Rightarrow> Some b)"
  by (cases as) auto

lemma oob_loop_all:
  assumes "list_wf h (ba_list al) (a # cs)" and "list_wf h (ba_oob_list al) bs" and "set (a # cs) \<inter> set bs = {}"
    and "rl_iter (ba_list al) = Some a"
  shows "\<exists>al' h'. oob_loop (r_next (cell h a)) al h = Some (Inr (al', h')) \<and> list_wf h' (ba_list al') [a]
    \<and> list_wf h' (ba_oob_list al') (bs @ cs) \<and> same_data h h'
    \<and> rl_iter (ba_oob_list al') = (if bs = [] \<and> cs \<noteq> [] then Some (hd cs) else rl_iter (ba_oob_list al))
    \<and> rl_partial_iter (ba_oob_list al') = (if bs = [] \<and> cs \<noteq> [] then 0 else rl_partial_iter (ba_oob_list al))"
  using assms
proof (induction cs arbitrary: al h bs)
  case Nil
  then have "r_next (cell h a) = None"
    by (simp add: list_wf_def)
  then show ?case
    using Nil by (auto simp: oob_loop_stop)
next
  case (Cons c cs)
  have n: "r_next (cell h a) = Some c" "live h c" "c \<noteq> a"
    using Cons.prems(1) list_wf_distinct [OF Cons.prems(1)] by (auto simp: list_wf_def)
  have "list_wf h (ba_list al) ([a] @ c # cs)"
    using Cons.prems(1) by simp
  then obtain l1 h1 where 1: "region_list_remove (ba_list al) (Some c) h = Inr (l1, h1)" "list_wf h1 l1 ([a] @ cs)"
    "same_data h h1" "\<And>b. b \<notin> set ([a] @ c # cs) \<Longrightarrow> live h b \<Longrightarrow> live h1 b \<and> cell h1 b = cell h b"
    "live h1 c" "rl_iter l1 = rl_iter (ba_list al)"
    by (rule region_list_remove_ok) blast
  have o1: "list_wf h1 (ba_oob_list al) bs"
    using Cons.prems(2,3) by (intro list_wf_frame [OF Cons.prems(2)]) (auto intro!: 1(4) dest: list_wf_live)
  obtain l2 h2 where 2: "region_list_append (ba_oob_list al) (Some c) h1 = Inr (l2, h2)" "list_wf h2 l2 (bs @ [c])"
    "same_data h1 h2" "\<And>b. b \<notin> set bs \<Longrightarrow> b \<noteq> c \<Longrightarrow> live h1 b \<Longrightarrow> live h2 b \<and> cell h2 b = cell h1 b"
    "rl_iter l2 = (if bs = [] then Some c else rl_iter (ba_oob_list al))"
    "rl_partial_iter l2 = (if bs = [] then 0 else rl_partial_iter (ba_oob_list al))"
    by (rule region_list_append_ok [OF o1 1(5)]) (use Cons.prems(3) in auto)
  let ?al = "al\<lparr>ba_list := l1, ba_oob_list := l2\<rparr>"
  have d: "distinct (a # c # cs)"
    by (rule list_wf_distinct [OF Cons.prems(1)])
  have "list_wf h2 (ba_list ?al) (a # cs)"
  proof (rule list_wf_frame [of h1 l1])
    show "live h2 x \<and> cell h2 x = cell h1 x" if "x \<in> set (a # cs)" for x
      by (rule 2(4)) (use that Cons.prems(3) d list_wf_live [OF 1(2)] in auto)
  qed (use 1(2) in simp_all)
  then have "\<exists>al' h'. oob_loop (r_next (cell h2 a)) ?al h2 = Some (Inr (al', h')) \<and> list_wf h' (ba_list al') [a]
    \<and> list_wf h' (ba_oob_list al') ((bs @ [c]) @ cs) \<and> same_data h2 h'
    \<and> rl_iter (ba_oob_list al') = rl_iter l2 \<and> rl_partial_iter (ba_oob_list al') = rl_partial_iter l2"
    using Cons.IH [of h2 ?al "bs @ [c]"] 2(2) 1(6) Cons.prems(3,4) d by auto
  moreover have "r_next (cell h2 a) = r_next (cell h c)"
    using next_cell [OF list_wf_path [OF \<open>list_wf h2 (ba_list ?al) (a # cs)\<close>]]
      next_cell [of h "Some c" c cs] list_wf_path [OF Cons.prems(1)] n by simp
  moreover have "same_data h h'" if "same_data h2 h'" for h'
    using 1(3) 2(3) that by (blast intro: same_data_trans)
  ultimately show ?case
    using 1(1) 2(1,5,6) n Cons.prems(4) by (subst oob_loop.simps) (auto simp: n(1))
qed

lemma split_at_start:
  assumes "rl_iter (ba_list al) = Some a" and "live h a" and "0 < r_len (cell h a)"
  shows "do_split_allocation al 0 h = Inr (Some a, al, h)"
  using assms by (simp add: do_split_allocation_def split_loop_stop)

lemma split_within:
  assumes "rl_iter (ba_list al) = Some a" and "live h a" and "0 < n" and "n < r_len (cell h a)"
  shows "do_split_allocation al n h = Inr (Some a, al\<lparr>ba_list := (ba_list al)\<lparr>rl_iter := Some (length h)\<rparr>\<rparr>,
    (h @ [Some \<lparr>r_block = r_block (cell h a) + n, r_len = r_len (cell h a) - n, r_bg = r_bg (cell h a),
      r_next = r_next (cell h a), r_prev = Some a\<rparr>])[a := Some ((cell h a)\<lparr>r_next := Some (length h), r_len := n\<rparr>)])"
  using assms by (simp add: do_split_allocation_def split_loop_stop malloc_def)

lemma reserve_oob_within:
  assumes l: "list_wf h (ba_list al) (a # as)" "list_wf h (ba_oob_list al) bs" "set (a # as) \<inter> set bs = {}"
    and it: "rl_iter (ba_list al) = Some a" "rl_partial_iter (ba_list al) = 0"
    and n: "0 < n" "n < r_len (cell h a)"
  obtains al' h' where "reserve_oob_blocks al n h = Inr (0, al', h')"
    and "path h' (rl_first (ba_list al')) (length h # as) None" and "rl_iter (ba_list al') = rl_first (ba_list al')"
    and "rl_partial_iter (ba_list al') = 0"
    and "list_wf h' (ba_oob_list al') (bs @ [a])"
    and "bs = [] \<Longrightarrow> rl_iter (ba_oob_list al') = Some a \<and> rl_partial_iter (ba_oob_list al') = 0"
    and "blocks h' (length h # as) = drop (unat n) (blocks h (a # as))"
    and "blocks h' (bs @ [a]) = blocks h bs @ take (unat n) (blocks h (a # as))"
proof -
  let ?c = "cell h a" and ?new = "length h"
  have a: "live h a" "r_prev ?c = None" "rl_first (ba_list al) = Some a" "path h (r_next ?c) as None"
    using l(1) by (auto simp: list_wf_def dlist_path)
  have ne: "a \<noteq> ?new" "?new \<notin> set as" "?new \<notin> set bs" "a \<notin> set as" "a \<notin> set bs"
    using a(1) list_wf_live [OF l(1)] list_wf_live [OF l(2)] list_wf_distinct [OF l(1)] l(3) by (auto simp: live_def)
  define h1 where "h1 = (h @ [Some \<lparr>r_block = r_block ?c + n, r_len = r_len ?c - n, r_bg = r_bg ?c,
      r_next = r_next ?c, r_prev = Some a\<rparr>])[a := Some (?c\<lparr>r_next := Some ?new, r_len := n\<rparr>)]"
  define al1 where "al1 = al\<lparr>ba_list := (ba_list al)\<lparr>rl_iter := Some ?new, rl_partial_iter := 0\<rparr>\<rparr>"
  have split: "split_allocation al n h = Inr (Some a, al1, h1)"
    using split_at_start [OF it(1) a(1)] split_within [OF it(1) a(1) n] n it
    by (simp add: split_allocation_def h1_def al1_def word_less_nat_alt)
  have h1: "live h1 b" "b \<noteq> a \<Longrightarrow> cell h1 b = cell h b" if "live h b" for b
    using that a(1) by (auto simp: h1_def)
  have n1: "live h1 ?new" "cell h1 ?new = \<lparr>r_block = r_block ?c + n, r_len = r_len ?c - n, r_bg = r_bg ?c,
      r_next = r_next ?c, r_prev = Some a\<rparr>" "cell h1 a = ?c\<lparr>r_next := Some ?new, r_len := n\<rparr>"
    using a(1) ne by (auto simp: h1_def)
  define l2 where "l2 = (let l = (ba_list al1)\<lparr>rl_first := Some ?new\<rparr> in if rl_last l = Some a then l\<lparr>rl_last := None\<rparr> else l)"
  define h2 where "h2 = h1[?new := Some ((cell h1 ?new)\<lparr>r_prev := None\<rparr>), a := Some ((cell h1 a)\<lparr>r_next := None, r_prev := None\<rparr>)]"
  have rem: "region_list_remove (ba_list al1) (Some a) h1 = Inr (l2, h2)"
    using a ne n1 h1(1) [OF a(1)] by (simp add: region_list_remove_def l2_def h2_def al1_def Let_def)
  have h2: "live h2 b" "b \<noteq> a \<Longrightarrow> cell h2 b = cell h b" if "live h b" for b
    using h1 [OF that] not_live_new [OF that] h1(1) [OF a(1)] n1(1) by (auto simp: h2_def)
  have n2: "live h2 ?new" "cell h2 ?new = \<lparr>r_block = r_block ?c + n, r_len = r_len ?c - n, r_bg = r_bg ?c,
      r_next = r_next ?c, r_prev = None\<rparr>" "cell h2 a = ?c\<lparr>r_next := None, r_prev := None, r_len := n\<rparr>"
    using a(1) ne n1 h1(1) [OF a(1)] by (auto simp: h2_def)
  have o2: "list_wf h2 (ba_oob_list al) bs"
    by (rule list_wf_frame [OF l(2)]) (use ne(5) h2 list_wf_live [OF l(2)] in auto)
  obtain l3 h3 where 3: "region_list_append (ba_oob_list al) (Some a) h2 = Inr (l3, h3)" "list_wf h3 l3 (bs @ [a])"
    "same_data h2 h3" "\<And>b. b \<notin> set bs \<Longrightarrow> b \<noteq> a \<Longrightarrow> live h2 b \<Longrightarrow> live h3 b \<and> cell h3 b = cell h2 b"
    "rl_iter l3 = (if bs = [] then Some a else rl_iter (ba_oob_list al))"
    "rl_partial_iter l3 = (if bs = [] then 0 else rl_partial_iter (ba_oob_list al))"
    by (rule region_list_append_ok [OF o2 h2(1) [OF a(1)] ne(5)]) blast
  define al3 where "al3 = al1\<lparr>ba_list := l2, ba_oob_list := l3\<rparr>"
  have l2: "rl_first l2 = Some ?new" "rl_iter l2 = Some ?new" "rl_partial_iter l2 = 0"
    by (simp_all add: l2_def al1_def Let_def)
  have "oob_loop (Some a) al1 h1 = oob_loop (Some ?new) al3 h3"
    using rem 3(1) ne(1) h1(1) [OF a(1)] n1(3) by (subst oob_loop.simps) (simp add: al1_def al3_def)
  also have "\<dots> = Some (Inr (al3, h3))"
    by (rule oob_loop_stop) (simp add: al3_def l2)
  finally have res: "reserve_oob_blocks al n h = Inr (0, al3, h3)"
    by (simp add: reserve_oob_blocks_def split)
  have rest: "live h3 b \<and> cell h3 b = cell h b" if "b \<in> set as" for b
  proof -
    have "b \<notin> set bs" "b \<noteq> a" "live h b"
      using that l(3) ne(4) list_wf_live [OF l(1)] by auto
    then show ?thesis
      using 3(4) [of b] h2 [of b] by simp
  qed
  have new: "live h3 ?new" "cell h3 ?new = cell h2 ?new"
    using 3(4) [of ?new] ne n2(1) by auto
  have "path h3 (r_next ?c) as None"
    by (rule path_frame [OF a(4)]) (simp add: rest)
  then have "path h3 (rl_first (ba_list al3)) (?new # as) None"
    using new n2 by (simp add: al3_def l2)
  moreover have "blocks h3 as = blocks h as"
    by (rule blocks_frame) (simp add: data_def rest)
  then have "blocks h3 (?new # as) = drop (unat n) (blocks h (a # as))"
    using new n2 n region_blocks_split(2) [of n "r_len ?c" "r_block ?c"] by (simp add: word_less_nat_alt word_le_nat_alt)
  moreover have "blocks h3 bs = blocks h bs"
  proof (rule blocks_frame)
    show "data h3 b = data h b" if "b \<in> set bs" for b
    proof -
      have "cell h2 b = cell h b" "live h2 b"
        using h2 [OF list_wf_live [OF l(2) that]] that ne(5) by auto
      then show ?thesis
        using 3(3) by (simp add: same_data_def data_def)
    qed
  qed
  then have "blocks h3 (bs @ [a]) = blocks h bs @ take (unat n) (blocks h (a # as))"
    using 3(3) h2(1) [OF a(1)] n2 n region_blocks_split(1) [of n "r_len ?c" "r_block ?c"]
    by (simp add: word_less_nat_alt word_le_nat_alt same_data_def data_def)
  ultimately show thesis
    using res 3(2,5,6) by (intro that [of al3 h3]) (simp_all add: al3_def l2)
qed


lemma reserve_oob_boundary:
  assumes l: "list_wf h (ba_list al) (a # b # as)" "list_wf h (ba_oob_list al) bs" "set (a # b # as) \<inter> set bs = {}"
    and it: "rl_iter (ba_list al) = Some a" "rl_partial_iter (ba_list al) = 0"
    and n: "0 < r_len (cell h a)" "0 < r_len (cell h b)"
  obtains al' h' where "reserve_oob_blocks al (r_len (cell h a)) h = Inr (0, al', h')"
    and "list_wf h' (ba_list al') [a]" and "list_wf h' (ba_oob_list al') (bs @ b # as)" and "same_data h h'"
    and "bs = [] \<Longrightarrow> rl_iter (ba_oob_list al') = Some b \<and> rl_partial_iter (ba_oob_list al') = 0"
proof -
  have a: "live h a" "live h b" "r_next (cell h a) = Some b"
    using l(1) by (auto simp: list_wf_def)
  define al1 where "al1 = al\<lparr>ba_list := (ba_list al)\<lparr>rl_partial_iter := 0\<rparr>\<rparr>"
  have al: "al1 = al"
    using it(2) by (simp add: al1_def)
  have "do_split_allocation al (r_len (cell h a)) h = Inr (Some b, al, h)"
    using a it n by (simp add: do_split_allocation_def split_loop_step split_loop_stop)
  then have split: "split_allocation al (r_len (cell h a)) h = Inr (Some b, al, h)"
    using split_at_start [OF it(1) a(1) n(1)] it al by (simp add: split_allocation_def al1_def)
  show thesis
    using oob_loop_all [OF l it(1)] that by (auto simp: reserve_oob_blocks_def split a(3))
qed

text \<open>Releasing an allocation frees the cells of its two lists and no others.\<close>

lemma live_freed: "live h a \<Longrightarrow> live (h[a := None]) b \<longleftrightarrow> live h b \<and> b \<noteq> a"
  "a \<noteq> b \<Longrightarrow> cell (h[a := None]) b = cell h b"
  by (auto simp: live_def cell_def nth_list_update)

lemma free_loop_ok:
  assumes "path h p as None" and "distinct as"
  shows "\<exists>h'. free_loop p h = Some (Inr h') \<and> length h' = length h
    \<and> (\<forall>b. live h' b \<longleftrightarrow> live h b \<and> b \<notin> set as) \<and> (\<forall>b. b \<notin> set as \<longrightarrow> cell h' b = cell h b)"
  using assms
proof (induction as arbitrary: p h)
  case Nil
  then show ?case by (subst free_loop.simps) simp
next
  case (Cons a as)
  let ?h = "h[a := None]"
  have a: "p = Some a" "live h a" "path h (r_next (cell h a)) as None" "a \<notin> set as"
    using Cons.prems by auto
  have "path ?h (r_next (cell h a)) as None"
  proof (rule path_frame [OF a(3)])
    show "live ?h b \<and> r_next (cell ?h b) = r_next (cell h b)" if "b \<in> set as" for b
      using that a path_live [OF a(3) that] by (cases "a = b") (simp_all add: live_freed)
  qed
  then obtain h' where "free_loop (r_next (cell h a)) ?h = Some (Inr h')" "length h' = length h"
    "\<forall>b. live h' b \<longleftrightarrow> live ?h b \<and> b \<notin> set as" "\<forall>b. b \<notin> set as \<longrightarrow> cell h' b = cell ?h b"
    using Cons.IH [of ?h "r_next (cell h a)"] Cons.prems by auto
  then show ?case
    using a by (subst free_loop.simps) (auto simp: free_def live_freed)
qed

lemma free_alloc_ok:
  assumes "path h (rl_first (ba_list al)) as None" and "path h (rl_first (ba_oob_list al)) bs None"
    and "set as \<inter> set bs = {}"
  obtains h' where "free_alloc al h = Inr h'" and "\<And>b. live h' b \<longleftrightarrow> live h b \<and> b \<notin> set as \<union> set bs"
    and "\<And>b. live h' b \<Longrightarrow> cell h' b = cell h b"
proof -
  obtain h1 where 1: "free_loop (rl_first (ba_list al)) h = Some (Inr h1)"
    "\<And>b. live h1 b \<longleftrightarrow> live h b \<and> b \<notin> set as" "\<And>b. b \<notin> set as \<Longrightarrow> cell h1 b = cell h b"
    using free_loop_ok [OF assms(1) path_distinct [OF assms(1)]] by blast
  have "path h1 (rl_first (ba_oob_list al)) bs None"
  proof (rule path_frame [OF assms(2)])
    show "live h1 b \<and> r_next (cell h1 b) = r_next (cell h b)" if "b \<in> set bs" for b
      using that assms(3) path_live [OF assms(2) that] 1(2) [of b] 1(3) [of b] by auto
  qed
  then obtain h2 where "free_loop (rl_first (ba_oob_list al)) h1 = Some (Inr h2)"
    "\<And>b. live h2 b \<longleftrightarrow> live h1 b \<and> b \<notin> set bs" "\<And>b. b \<notin> set bs \<Longrightarrow> cell h2 b = cell h1 b"
    using free_loop_ok [of h1 _ bs] path_distinct by blast
  then show thesis
    using 1 by (intro that [of h2]) (auto simp: free_alloc_def)
qed

end
