(* ===== verification/Block_Allocator.thy ===== *)
theory Block_Allocator
  imports Block_Groups Regions
begin

text \<open>
  The allocator of \<^verbatim>\<open>allocate.c\<close> over the groups of \<open>Block_Groups\<close> and the lists of \<open>Regions\<close>:
  creating the groups, allocating blocks by best fit, giving blocks back, and allocating inodes.

  The state holds the array \<^verbatim>\<open>aux_info.bgs\<close> (of \<^verbatim>\<open>aux_info.groups\<close> elements), the heap of regions, and
  the calls of \<^verbatim>\<open>sparse_file_add_data\<close>, an operation of libsparse that keeps a pointer to a buffer with
  its length and its first block. The buffers of this file are the bitmaps and the inode table of a group.
\<close>

datatype buffer = Bitmaps nat | Inode_table nat | Data nat nat | File string nat

record alloc_state =
  st_bgs :: "block_group_info list"
  st_heap :: heap
  st_sparse :: "(buffer \<times> u32 \<times> u32) list"

definition sparse_file_add :: "buffer \<Rightarrow> u32 \<Rightarrow> u32 \<Rightarrow> alloc_state \<Rightarrow> alloc_state" where
  "sparse_file_add b len block st = st\<lparr>st_sparse := st_sparse st @ [(b, len, block)]\<rparr>"

text \<open>Access to an element of \<^verbatim>\<open>aux_info.bgs\<close>.\<close>

definition get_bg :: "alloc_state \<Rightarrow> nat \<Rightarrow> fault + block_group_info" where
  "get_bg st n = (if n < length (st_bgs st) then Inr (st_bgs st ! n) else Inl BadIndex)"

definition set_bg :: "nat \<Rightarrow> block_group_info \<Rightarrow> alloc_state \<Rightarrow> alloc_state" where
  "set_bg n bg st = st\<lparr>st_bgs := (st_bgs st)[n := bg]\<rparr>"

section \<open>Creating the groups\<close>

primrec init_groups :: "bool \<Rightarrow> fs_info \<Rightarrow> fs_aux_info \<Rightarrow> nat \<Rightarrow> alloc_state \<Rightarrow> fault + alloc_state" where
  "init_groups force i a 0 st = Inr st"
| "init_groups force i a (Suc k) st =
     rbind (init_groups force i a k st) (\<lambda>st.
     rbind (init_bg force i a (of_nat k)) (\<lambda>(bg, block).
     Inr (sparse_file_add (Bitmaps k) (2 * fi_block_size i) block (st\<lparr>st_bgs := st_bgs st @ [bg]\<rparr>))))"

definition block_allocator_init :: "bool \<Rightarrow> fs_info \<Rightarrow> fs_aux_info \<Rightarrow> alloc_state \<Rightarrow> fault + alloc_state" where
  "block_allocator_init force i a st = init_groups force i a (unat (ai_groups a)) (st\<lparr>st_bgs := []\<rparr>)"

definition block_allocator_free :: "alloc_state \<Rightarrow> alloc_state" where
  "block_allocator_free st = st\<lparr>st_bgs := []\<rparr>"

section \<open>Best fit\<close>

record found =
  f_bg :: nat
  f_prev_chunk :: nat
  f_block :: u32
  f_allocate_len :: u32
  f_minimize :: bool

text \<open>
  The search of \<open>ext4_allocate_best_fit_partial\<close> over the holes between the chunks of group \<open>n\<close>, then over the
  groups; it stops at a hole of exactly \<open>len\<close> blocks (\<^verbatim>\<open>goto done\<close>).
\<close>

fun scan_chunks :: "u32 \<Rightarrow> nat \<Rightarrow> nat \<Rightarrow> chunk list \<Rightarrow> found \<Rightarrow> bool \<times> found" where
  "scan_chunks len n j (p # c # cs) f =
     (let hole_start = c_block p + c_len p;
          hole_size = c_block c - hole_start;
          here = f\<lparr>f_bg := n, f_prev_chunk := j, f_block := hole_start, f_allocate_len := hole_size\<rparr>
      in if hole_size = len then (True, here)
         else if hole_size > len \<and> (f_allocate_len f = 0 \<or> f_allocate_len f > hole_size)
         then scan_chunks len n (Suc j) (c # cs) (here\<lparr>f_minimize := True\<rparr>)
         else if \<not> f_minimize f \<and> f_allocate_len f < hole_size
         then scan_chunks len n (Suc j) (c # cs) here
         else scan_chunks len n (Suc j) (c # cs) f)"
| "scan_chunks len n j _ f = (False, f)"

primrec scan_groups :: "u32 \<Rightarrow> nat \<Rightarrow> block_group_info list \<Rightarrow> found \<Rightarrow> bool \<times> found" where
  "scan_groups len n [] f = (False, f)"
| "scan_groups len n (bg # bgs) f =
     (case scan_chunks len n 0 (bg_chunks bg) f of
        (True, f) \<Rightarrow> (True, f)
      | (False, f) \<Rightarrow> scan_groups len (Suc n) bgs f)"

definition nothing_found :: found where
  "nothing_found = \<lparr>f_bg = 0, f_prev_chunk = 0, f_block = 0, f_allocate_len = 0, f_minimize = False\<rparr>"

text \<open>The part after the label \<^verbatim>\<open>done\<close>: the blocks are added to the chunk before the hole and reserved.\<close>

definition take_hole :: "bool \<Rightarrow> found \<Rightarrow> alloc_state \<Rightarrow> fault + ptr \<times> alloc_state" where
  "take_hole force f st =
     rbind (get_bg st (f_bg f)) (\<lambda>bg.
     if f_prev_chunk f < length (bg_chunks bg)
     then let c = bg_chunks bg ! f_prev_chunk f;
              bg = bg\<lparr>bg_chunks := (bg_chunks bg)[f_prev_chunk f := c\<lparr>c_len := c_len c + f_allocate_len f\<rparr>]\<rparr>
          in rbind (reserve_blocks force bg (f_block f) (f_allocate_len f)) (\<lambda>(ret, bg).
          if ret < 0 then error force (None, set_bg (f_bg f) bg st)
          else let bg = bg\<lparr>bg_data_blocks_used := bg_data_blocks_used bg + f_allocate_len f\<rparr>;
                   (reg, h) = malloc \<lparr>r_block = f_block f + bg_first_block bg, r_len = f_allocate_len f,
                     r_bg = f_bg f, r_next = None, r_prev = None\<rparr> (st_heap st)
               in Inr (reg, (set_bg (f_bg f) bg st)\<lparr>st_heap := h\<rparr>))
     else Inl BadIndex)"

definition ext4_allocate_best_fit_partial :: "bool \<Rightarrow> u32 \<Rightarrow> alloc_state \<Rightarrow> fault + ptr \<times> alloc_state" where
  "ext4_allocate_best_fit_partial force len st =
     (let (perfect, f) = scan_groups len 0 (st_bgs st) nothing_found
      in if perfect then take_hole force f st
         else if f_allocate_len f = 0 then error force (None, st)
         else take_hole force (if f_allocate_len f > len then f\<lparr>f_allocate_len := len\<rparr> else f) st)"

definition link :: "ptr \<Rightarrow> ptr \<Rightarrow> heap \<Rightarrow> fault + heap" where
  "link prev reg h = (if prev \<noteq> None
     then rbind (modify prev (\<lambda>r. r\<lparr>r_next := reg\<rparr>) h) (\<lambda>h. modify reg (\<lambda>r. r\<lparr>r_prev := prev\<rparr>) h)
     else Inr h)"

partial_function (option) best_fit_loop ::
    "bool \<Rightarrow> u32 \<Rightarrow> ptr \<Rightarrow> ptr \<Rightarrow> alloc_state \<Rightarrow> (fault + ptr \<times> alloc_state) option" where
  "best_fit_loop force len first prev st =
     (if len > 0
      then case ext4_allocate_best_fit_partial force len st of Inl e \<Rightarrow> Some (Inl e)
        | Inr (reg, st) \<Rightarrow> if reg = None then Some (Inr (None, st))
            else case link prev reg (st_heap st) of Inl e \<Rightarrow> Some (Inl e)
              | Inr h \<Rightarrow> case load h reg of Inl e \<Rightarrow> Some (Inl e)
                | Inr r \<Rightarrow> best_fit_loop force (len - r_len r) (if first = None then reg else first) reg (st\<lparr>st_heap := h\<rparr>)
      else Some (Inr (first, st)))"

definition ext4_allocate_best_fit :: "bool \<Rightarrow> u32 \<Rightarrow> alloc_state \<Rightarrow> fault + ptr \<times> alloc_state" where
  "ext4_allocate_best_fit force len st = loop (best_fit_loop force len None None st)"

partial_function (option) last_loop :: "heap \<Rightarrow> ptr \<Rightarrow> (fault + ptr) option" where
  "last_loop h reg = (case load h reg of Inl e \<Rightarrow> Some (Inl e)
     | Inr r \<Rightarrow> if r_next r \<noteq> None then last_loop h (r_next r) else Some (Inr reg))"

definition allocate_blocks :: "bool \<Rightarrow> u32 \<Rightarrow> alloc_state \<Rightarrow> fault + block_allocation option \<times> alloc_state" where
  "allocate_blocks force len st =
     rbind (ext4_allocate_best_fit force len st) (\<lambda>(reg, st).
     if reg = None then Inr (None, st)
     else rbind (loop (last_loop (st_heap st) reg)) (\<lambda>lst.
     Inr (Some (create_allocation\<lparr>ba_list := \<lparr>rl_first = reg, rl_last = lst, rl_iter = reg, rl_partial_iter = 0\<rparr>\<rparr>), st)))"

definition allocate_block :: "bool \<Rightarrow> alloc_state \<Rightarrow> fault + u32 \<times> alloc_state" where
  "allocate_block force st =
     rbind (allocate_blocks force 1 st) (\<lambda>(al, st). case al of
       None \<Rightarrow> Inr (EXT4_ALLOCATE_FAILED, st)
     | Some al \<Rightarrow> rbind (load (st_heap st) (rl_first (ba_list al))) (\<lambda>r.
         rbind (free_alloc al (st_heap st)) (\<lambda>h. Inr (r_block r, st\<lparr>st_heap := h\<rparr>))))"

section \<open>Changing an allocation\<close>

partial_function (option) reduce_allocation_loop ::
    "block_allocation \<Rightarrow> u32 \<Rightarrow> alloc_state \<Rightarrow> (fault + block_allocation \<times> alloc_state) option" where
  "reduce_allocation_loop al len st =
     (if len = 0 then Some (Inr (al, st))
      else let last_reg = rl_last (ba_list al); h = st_heap st in
      case load h last_reg of Inl e \<Rightarrow> Some (Inl e) | Inr r \<Rightarrow>
      case get_bg st (r_bg r) of Inl e \<Rightarrow> Some (Inl e) | Inr bg \<Rightarrow>
      if r_len r > len
      then case free_blocks bg (r_block r + r_len r - bg_first_block bg - 1) len of Inl e \<Rightarrow> Some (Inl e) | Inr bg \<Rightarrow>
           case modify last_reg (\<lambda>r. r\<lparr>r_len := r_len r - len\<rparr>) h of Inl e \<Rightarrow> Some (Inl e) | Inr h \<Rightarrow>
           Some (Inr (al, (set_bg (r_bg r) bg st)\<lparr>st_heap := h\<rparr>))
      else case free_blocks bg (r_block r + r_len r - bg_first_block bg - 1) (r_len r) of Inl e \<Rightarrow> Some (Inl e) | Inr bg \<Rightarrow>
           case (if r_prev r \<noteq> None then modify (r_prev r) (\<lambda>r. r\<lparr>r_next := None\<rparr>) h else Inr h) of
             Inl e \<Rightarrow> Some (Inl e) | Inr h \<Rightarrow>
           case free last_reg h of Inl e \<Rightarrow> Some (Inl e) | Inr h \<Rightarrow>
           reduce_allocation_loop
             (if r_prev r \<noteq> None then al\<lparr>ba_list := (ba_list al)\<lparr>rl_last := r_prev r\<rparr>\<rparr>
              else al\<lparr>ba_list := empty_list\<rparr>)
             (len - r_len r) ((set_bg (r_bg r) bg st)\<lparr>st_heap := h\<rparr>))"

definition reduce_allocation :: "block_allocation \<Rightarrow> u32 \<Rightarrow> alloc_state \<Rightarrow> fault + block_allocation \<times> alloc_state" where
  "reduce_allocation al len st = loop (reduce_allocation_loop al len st)"

partial_function (option) append_oob_loop :: "ptr \<Rightarrow> region_list \<Rightarrow> heap \<Rightarrow> (fault + region_list \<times> heap) option" where
  "append_oob_loop reg l h =
     (if reg = None then Some (Inr (l, h))
      else case region_list_append l reg h of Inl e \<Rightarrow> Some (Inl e) | Inr (l, h) \<Rightarrow>
        case load h reg of Inl e \<Rightarrow> Some (Inl e) | Inr r \<Rightarrow> append_oob_loop (r_next r) l h)"

definition append_oob_allocation ::
    "bool \<Rightarrow> block_allocation \<Rightarrow> u32 \<Rightarrow> alloc_state \<Rightarrow> fault + int \<times> block_allocation \<times> alloc_state" where
  "append_oob_allocation force al len st =
     rbind (ext4_allocate_best_fit force len st) (\<lambda>(reg, st).
     if reg = None then error force (-1, al, st)
     else rbind (loop (append_oob_loop reg (ba_oob_list al) (st_heap st))) (\<lambda>(l, h).
     Inr (0, al\<lparr>ba_oob_list := l\<rparr>, st\<lparr>st_heap := h\<rparr>)))"

partial_function (option) reserve_regions_loop :: "bool \<Rightarrow> ptr \<Rightarrow> alloc_state \<Rightarrow> (fault + int \<times> alloc_state) option" where
  "reserve_regions_loop force reg st =
     (if reg = None then Some (Inr (0, st))
      else case load (st_heap st) reg of Inl e \<Rightarrow> Some (Inl e) | Inr r \<Rightarrow>
      case get_bg st (r_bg r) of Inl e \<Rightarrow> Some (Inl e) | Inr bg \<Rightarrow>
      case reserve_blocks force bg (r_block r - bg_first_block bg) (r_len r) of Inl e \<Rightarrow> Some (Inl e) | Inr (ret, bg) \<Rightarrow>
      if ret < 0 then Some (Inr (-1, set_bg (r_bg r) bg st))
      else reserve_regions_loop force (r_next r) (set_bg (r_bg r) bg st))"

definition reserve_blocks_for_allocation :: "bool \<Rightarrow> block_allocation option \<Rightarrow> alloc_state \<Rightarrow> fault + int \<times> alloc_state" where
  "reserve_blocks_for_allocation force al st =
     (case al of None \<Rightarrow> Inr (0, st) | Some al \<Rightarrow> loop (reserve_regions_loop force (rl_first (ba_list al)) st))"

section \<open>Inodes and counters\<close>

text \<open>The inode table is created with the first inode of its group; \<open>get_inode\<close> gives the group and the offset in its table.\<close>

definition allocate_bg_inode_table :: "fs_info \<Rightarrow> fs_aux_info \<Rightarrow> nat \<Rightarrow> alloc_state \<Rightarrow> fault + alloc_state" where
  "allocate_bg_inode_table i a n st =
     rbind (get_bg st n) (\<lambda>bg.
     if bg_inode_table bg \<noteq> None then Inr st
     else let block = bg_first_block bg + 2;
              block = (if bg_has_superblock bg
                then block + (ai_bg_desc_blocks a + fi_bg_desc_reserve_blocks i + 1) else block);
              table = replicate (unat (ai_inode_table_blocks a) * unat (fi_block_size i)) 0;
              st = sparse_file_add (Inode_table n) (ai_inode_table_blocks a * fi_block_size i) block st
          in Inr (set_bg n (bg\<lparr>bg_inode_table := Some table,
            bg_flags := bg_flags bg AND NOT EXT4_BG_INODE_UNINIT\<rparr>) st))"

definition get_inode :: "fs_info \<Rightarrow> fs_aux_info \<Rightarrow> u32 \<Rightarrow> alloc_state \<Rightarrow> fault + (nat \<times> nat) \<times> alloc_state" where
  "get_inode i a inode st =
     (let inode = inode - 1 in
      if fi_inodes_per_group i = 0 then Inl DivByZero
      else let bg = unat (inode div fi_inodes_per_group i);
               inode = inode mod fi_inodes_per_group i
           in rbind (allocate_bg_inode_table i a bg st) (\<lambda>st.
           Inr ((bg, unat (inode * fi_inode_size i)), st)))"

definition get_free_blocks :: "alloc_state \<Rightarrow> nat \<Rightarrow> fault + u32" where
  "get_free_blocks st bg = rbind (get_bg st bg) (\<lambda>b. Inr (bg_free_blocks b))"

definition get_free_inodes :: "alloc_state \<Rightarrow> nat \<Rightarrow> fault + u32" where
  "get_free_inodes st bg = rbind (get_bg st bg) (\<lambda>b. Inr (bg_free_inodes b))"

definition get_directories :: "alloc_state \<Rightarrow> nat \<Rightarrow> fault + u16" where
  "get_directories st bg = rbind (get_bg st bg) (\<lambda>b. Inr (bg_used_dirs b))"

definition get_bg_flags :: "alloc_state \<Rightarrow> nat \<Rightarrow> fault + u16" where
  "get_bg_flags st bg = rbind (get_bg st bg) (\<lambda>b. Inr (bg_flags b))"

definition add_directory :: "fs_info \<Rightarrow> u32 \<Rightarrow> alloc_state \<Rightarrow> fault + alloc_state" where
  "add_directory i inode st =
     (if fi_inodes_per_group i = 0 then Inl DivByZero
      else let n = unat ((inode - 1) div fi_inodes_per_group i)
           in rbind (get_bg st n) (\<lambda>bg. Inr (set_bg n (bg\<lparr>bg_used_dirs := bg_used_dirs bg + 1\<rparr>) st)))"

text \<open>The loop of \<open>reserve_inodes\<close> sets the bits of \<open>k\<close> inodes from \<open>inode\<close> in the bitmap at offset \<open>base\<close>.\<close>

primrec set_inode_bits :: "nat \<Rightarrow> nat \<Rightarrow> u32 \<Rightarrow> bytes \<Rightarrow> fault + bytes" where
  "set_inode_bits base 0 inode bm = Inr bm"
| "set_inode_bits base (Suc k) inode bm =
     (let j = base + unat (inode div 8) in
      if j < length bm then set_inode_bits base k (inode + 1) (bm[j := bm ! j OR push_bit (unat (inode mod 8)) 1])
      else Inl BadIndex)"

definition reserve_inodes :: "nat \<Rightarrow> u32 \<Rightarrow> alloc_state \<Rightarrow> fault + u32 \<times> alloc_state" where
  "reserve_inodes n num st =
     rbind (get_free_inodes st n) (\<lambda>avail.
     if avail < num then Inr (EXT4_ALLOCATE_FAILED, st)
     else rbind (get_bg st n) (\<lambda>bg.
     rbind (set_inode_bits (bg_inode_bitmap bg) (unat num) (bg_first_free_inode bg - 1) (bg_bitmaps bg)) (\<lambda>bm.
     Inr (bg_first_free_inode bg, set_bg n (bg\<lparr>bg_bitmaps := bm,
       bg_first_free_inode := bg_first_free_inode bg + num, bg_free_inodes := bg_free_inodes bg - num\<rparr>) st))))"

primrec allocate_inode_from :: "fs_info \<Rightarrow> nat \<Rightarrow> nat \<Rightarrow> alloc_state \<Rightarrow> fault + u32 \<times> alloc_state" where
  "allocate_inode_from i 0 bg st = Inr (EXT4_ALLOCATE_FAILED, st)"
| "allocate_inode_from i (Suc k) bg st =
     rbind (reserve_inodes bg 1 st) (\<lambda>(inode, st).
     if inode \<noteq> EXT4_ALLOCATE_FAILED then Inr (of_nat bg * fi_inodes_per_group i + inode, st)
     else allocate_inode_from i k (Suc bg) st)"

definition allocate_inode :: "fs_info \<Rightarrow> alloc_state \<Rightarrow> fault + u32 \<times> alloc_state" where
  "allocate_inode i st = allocate_inode_from i (length (st_bgs st)) 0 st"

end
