(* ===== verification/Best_Fit.thy ===== *)
theory Best_Fit
  imports Block_Allocator
begin

text \<open>
  What the search of \<open>ext4_allocate_best_fit_partial\<close> finds, and what taking a hole does to the groups.
\<close>

section \<open>The search\<close>

text \<open>A hole: its group, the chunk before it, and its bounds in the group.\<close>

type_synonym hole = "nat \<times> nat \<times> nat \<times> nat"

definition hole_size :: "hole \<Rightarrow> nat" where
  "hole_size = (\<lambda>(n, j, lo, hi). hi - lo)"

fun chunk_holes :: "nat \<Rightarrow> nat \<Rightarrow> chunk list \<Rightarrow> hole list" where
  "chunk_holes n j (p # c # cs) = (n, j, c_end p, unat (c_block c)) # chunk_holes n (Suc j) (c # cs)"
| "chunk_holes n j _ = []"

primrec group_holes :: "nat \<Rightarrow> block_group_info list \<Rightarrow> hole list" where
  "group_holes n [] = []"
| "group_holes n (bg # bgs) = chunk_holes n 0 (bg_chunks bg) @ group_holes (Suc n) bgs"

text \<open>The same search over a list of holes with natural numbers.\<close>

definition here :: "hole \<Rightarrow> found \<Rightarrow> found" where
  "here = (\<lambda>(n, j, lo, hi) f. f\<lparr>f_bg := n, f_prev_chunk := j, f_block := of_nat lo, f_allocate_len := of_nat (hi - lo)\<rparr>)"

fun pick :: "nat \<Rightarrow> hole list \<Rightarrow> found \<Rightarrow> bool \<times> found" where
  "pick len [] f = (False, f)"
| "pick len (x # xs) f =
     (if hole_size x = len then (True, here x f)
      else if hole_size x > len \<and> (f_allocate_len f = 0 \<or> unat (f_allocate_len f) > hole_size x)
      then pick len xs ((here x f)\<lparr>f_minimize := True\<rparr>)
      else if \<not> f_minimize f \<and> unat (f_allocate_len f) < hole_size x then pick len xs (here x f)
      else pick len xs f)"

lemma pick_append:
  "pick len (xs @ ys) f = (case pick len xs f of (True, f) \<Rightarrow> (True, f) | (False, f) \<Rightarrow> pick len ys f)"
  by (induction xs arbitrary: f) auto

text \<open>Chunks in order, so that the sizes of the holes do not wrap around.\<close>

definition ordered :: "chunk list \<Rightarrow> bool" where
  "ordered cs \<longleftrightarrow> (\<forall>(lo, hi) \<in> set (holes cs). lo \<le> hi) \<and> (\<forall>c \<in> set cs. c_end c < 2 ^ 31)"

lemma ordered_Cons: "ordered (p # c # cs) \<longleftrightarrow> c_end p \<le> unat (c_block c) \<and> c_end p < 2 ^ 31 \<and> ordered (c # cs)"
  by (auto simp: ordered_def)

lemma bg_wf_ordered: "info_wf i \<Longrightarrow> bg_wf i bg \<Longrightarrow> ordered (bg_chunks bg)"
  by (force simp: ordered_def bg_wf_def info_wf_def)

lemma hole_words:
  assumes "c_end p \<le> unat (c_block c)" and "c_end p < 2 ^ 31"
  shows "c_block p + c_len p = of_nat (c_end p)"
    and "unat (c_block c - (c_block p + c_len p)) = unat (c_block c) - c_end p"
proof -
  show s: "c_block p + c_len p = of_nat (c_end p)"
    by (simp add: c_end_def)
  have "unat (of_nat (c_end p) :: u32) = c_end p"
    using assms(2) by (simp add: unat_of_nat_u32)
  then show "unat (c_block c - (c_block p + c_len p)) = unat (c_block c) - c_end p"
    unfolding s using assms(1) by (simp add: unat_sub word_le_nat_alt)
qed

lemma scan_chunks_pick:
  "ordered cs \<Longrightarrow> scan_chunks len n j cs f = pick (unat len) (chunk_holes n j cs) f"
proof (induction n j cs arbitrary: f rule: chunk_holes.induct)
  case (1 n j p c cs)
  then have o: "c_end p \<le> unat (c_block c)" "c_end p < 2 ^ 31" "ordered (c # cs)"
    by (simp_all add: ordered_Cons)
  have w: "c_block p + c_len p = of_nat (c_end p)" "unat (c_block c - of_nat (c_end p)) = unat (c_block c) - c_end p"
    using hole_words [OF o(1,2)] by simp_all
  have n: "(of_nat (unat (c_block c) - c_end p) :: u32) = c_block c - of_nat (c_end p)"
    unfolding w(2) [symmetric] by simp
  have e: "c_block c - of_nat (c_end p) = len \<longleftrightarrow> unat (c_block c) - c_end p = unat len"
    unfolding w(2) [symmetric] by (rule word_unat_eq_iff)
  show ?case
    using 1(1) [OF o(3)] by (auto simp: Let_def w e word_less_nat_alt hole_size_def here_def n)
qed simp_all

lemma scan_groups_pick:
  "(\<And>bg. bg \<in> set bgs \<Longrightarrow> ordered (bg_chunks bg)) \<Longrightarrow>
   scan_groups len n bgs f = pick (unat len) (group_holes n bgs) f"
  by (induction bgs arbitrary: n f) (auto simp: scan_chunks_pick pick_append split: prod.splits bool.splits)


text \<open>The state of the search after some holes.\<close>

definition at_hole :: "found \<Rightarrow> hole \<Rightarrow> bool" where
  "at_hole f = (\<lambda>(n, j, lo, hi). f_bg f = n \<and> f_prev_chunk f = j \<and> f_block f = of_nat lo
     \<and> unat (f_allocate_len f) = hi - lo)"

definition search_inv :: "nat \<Rightarrow> hole set \<Rightarrow> found \<Rightarrow> bool" where
  "search_inv len xs f \<longleftrightarrow> (f_allocate_len f \<noteq> 0 \<longrightarrow> (\<exists>x \<in> xs. at_hole f x))
     \<and> (if f_minimize f then len < unat (f_allocate_len f) else \<forall>x \<in> xs. hole_size x \<le> unat (f_allocate_len f))"

lemma at_here: "hole_size x < 2 ^ 32 \<Longrightarrow> at_hole (here x f) x \<and> unat (f_allocate_len (here x f)) = hole_size x"
  by (auto simp: at_hole_def here_def hole_size_def unat_of_nat_u32 split: prod.split)

lemma at_hole_minimize [simp]: "at_hole (f\<lparr>f_minimize := b\<rparr>) x = at_hole f x"
  by (simp add: at_hole_def split: prod.split)

lemma f_minimize_here [simp]: "f_minimize (here x f) = f_minimize f"
  by (simp add: here_def split: prod.split)

lemma pick_inv:
  assumes "pick len xs f = (perfect, g)" and "search_inv len S f" and "\<And>x. x \<in> set xs \<Longrightarrow> hole_size x < 2 ^ 32"
  shows "if perfect then \<exists>x \<in> set xs. at_hole g x \<and> hole_size x = len else search_inv len (S \<union> set xs) g"
  using assms
proof (induction xs arbitrary: f S)
  case (Cons x xs)
  have x: "at_hole (here x f) x" "unat (f_allocate_len (here x f)) = hole_size x"
    using at_here [of x f] Cons.prems(3) by auto
  let ?thesis = "if perfect then \<exists>x \<in> set (x # xs). at_hole g x \<and> hole_size x = len
    else search_inv len (S \<union> set (x # xs)) g"
  have step: ?thesis if "pick len xs f' = (perfect, g)" "search_inv len (insert x S) f'" for f'
    using Cons.IH [OF that] Cons.prems(3) by (auto split: if_splits)
  consider "hole_size x = len"
    | "hole_size x > len" "f_allocate_len f = 0 \<or> unat (f_allocate_len f) > hole_size x"
    | "\<not> f_minimize f" "hole_size x \<noteq> len" "unat (f_allocate_len f) < hole_size x"
        "\<not> (hole_size x > len \<and> (f_allocate_len f = 0 \<or> unat (f_allocate_len f) > hole_size x))"
    | "hole_size x \<noteq> len" "\<not> (\<not> f_minimize f \<and> unat (f_allocate_len f) < hole_size x)"
        "\<not> (hole_size x > len \<and> (f_allocate_len f = 0 \<or> unat (f_allocate_len f) > hole_size x))"
    by blast
  then show ?case
  proof cases
    case 1
    then show ?thesis
      using Cons.prems(1) x by auto
  next
    case 2
    then show ?thesis
      using Cons.prems(1) x by (intro step [of "(here x f)\<lparr>f_minimize := True\<rparr>"]) (auto simp: search_inv_def)
  next
    case 3
    then show ?thesis
      using Cons.prems(1,2) x by (intro step [of "here x f"]) (auto simp: search_inv_def)
  next
    case 4
    then show ?thesis
      using Cons.prems(1,2) by (intro step [of f]) (auto simp: search_inv_def split: if_splits)
  qed
qed simp

lemma search_inv_start: "search_inv len {} nothing_found"
  by (simp add: search_inv_def nothing_found_def)

text \<open>
  The result: no hole has a block, or the hole found holds as many of the \<open>len\<close> blocks as any other.
\<close>

lemma best_fit_search:
  assumes "scan_groups len 0 bgs nothing_found = (perfect, f)" and "\<And>bg. bg \<in> set bgs \<Longrightarrow> ordered (bg_chunks bg)"
    and "\<And>x. x \<in> set (group_holes 0 bgs) \<Longrightarrow> hole_size x < 2 ^ 32" and "0 < len"
  shows "if f_allocate_len f = 0 then \<not> perfect \<and> (\<forall>x \<in> set (group_holes 0 bgs). hole_size x = 0)
    else \<exists>x \<in> set (group_holes 0 bgs). at_hole f x \<and> (perfect \<longrightarrow> unat (f_allocate_len f) = unat len)
      \<and> (\<forall>y \<in> set (group_holes 0 bgs). min (unat len) (hole_size y) \<le> min (unat len) (hole_size x))"
proof -
  have p: "pick (unat len) (group_holes 0 bgs) nothing_found = (perfect, f)"
    using assms(1,2) by (simp add: scan_groups_pick)
  note inv = pick_inv [OF p search_inv_start assms(3)]
  have sz: "unat (f_allocate_len f) = hole_size x" if "at_hole f x" for x
    using that by (auto simp: at_hole_def hole_size_def)
  show ?thesis
  proof (cases perfect)
    case True
    then obtain x where x: "x \<in> set (group_holes 0 bgs)" "at_hole f x" "hole_size x = unat len"
      using inv by auto
    then have "f_allocate_len f \<noteq> 0"
      using sz [OF x(2)] assms(4) by (auto simp: word_less_nat_alt)
    then show ?thesis
      using x sz [OF x(2)] by auto
  next
    case False
    then have "search_inv (unat len) (set (group_holes 0 bgs)) f"
      using inv by simp
    then show ?thesis
      using False sz by (fastforce simp: search_inv_def min_def split: if_splits)
  qed
qed

section \<open>Taking a hole\<close>

lemma length_holes [simp]: "length (holes cs) = length cs - 1"
  by (induction cs rule: holes.induct) auto

lemma nth_holes: "Suc j < length cs \<Longrightarrow> holes cs ! j = (c_end (cs ! j), unat (c_block (cs ! Suc j)))"
proof (induction cs arbitrary: j rule: holes.induct)
  case (1 p c cs)
  then show ?case by (cases j) auto
qed simp_all

lemma holes_update:
  assumes "Suc j < length cs"
  shows "holes (cs[j := (cs ! j)\<lparr>c_len := l\<rparr>]) = (holes cs)[j := (c_end ((cs ! j)\<lparr>c_len := l\<rparr>), snd (holes cs ! j))]"
  using assms by (intro nth_equalityI) (auto simp: nth_holes nth_list_update)

lemma holes_in_order:
  assumes "ordered cs" and "j < k" and "Suc k < length cs"
  shows "snd (holes cs ! j) \<le> fst (holes cs ! k)"
  using assms(2,3)
proof (induction k)
  case (Suc k)
  have o: "c_end (cs ! k) \<le> unat (c_block (cs ! Suc k))"
    using assms(1) nth_mem [of k "holes cs"] Suc.prems by (fastforce simp: ordered_def nth_holes)
  show ?case
  proof (cases "j = k")
    case True
    then show ?thesis
      using Suc.prems by (simp add: nth_holes c_end_def)
  next
    case False
    then have "snd (holes cs ! j) \<le> fst (holes cs ! k)"
      using Suc by simp
    then show ?thesis
      using Suc.prems o by (simp add: nth_holes c_end_def)
  qed
qed simp

lemma chunk_holes_from:
  "(m, k, lo, hi) \<in> set (chunk_holes n j cs) \<longleftrightarrow> m = n \<and> j \<le> k \<and> Suc (k - j) < length cs \<and> holes cs ! (k - j) = (lo, hi)"
proof (induction n j cs rule: chunk_holes.induct)
  case (1 n j p c cs)
  show ?case
  proof (cases "k - j")
    case 0
    then show ?thesis
      using 1 by auto
  next
    case (Suc d)
    then have "k - Suc j = d" "Suc j \<le> k"
      by simp_all
    then show ?thesis
      using 1 Suc by auto
  qed
qed simp_all

lemma chunk_holes_iff:
  "(m, k, lo, hi) \<in> set (chunk_holes n 0 cs) \<longleftrightarrow> m = n \<and> Suc k < length cs \<and> holes cs ! k = (lo, hi)"
  by (simp add: chunk_holes_from)

lemma group_holes_iff:
  "(m, k, lo, hi) \<in> set (group_holes n bgs) \<longleftrightarrow> n \<le> m \<and> m - n < length bgs
     \<and> Suc k < length (bg_chunks (bgs ! (m - n))) \<and> holes (bg_chunks (bgs ! (m - n))) ! k = (lo, hi)"
proof (induction bgs arbitrary: n)
  case (Cons bg bgs)
  show ?case
  proof (cases "m = n")
    case True
    then show ?thesis
      using Cons [of "Suc n"] by (auto simp: chunk_holes_iff)
  next
    case False
    show ?thesis
    proof (cases "n \<le> m")
      case True
      then have "m - n = Suc (m - Suc n)"
        using False by simp
      then show ?thesis
        using Cons [of "Suc n"] False True by (auto simp: chunk_holes_iff)
    qed (use False Cons [of "Suc n"] in \<open>auto simp: chunk_holes_iff\<close>)
  qed
qed simp

text \<open>The blocks marked in the bitmap of a group, without the bits of the inode bitmap.\<close>

definition bg_used :: "fs_info \<Rightarrow> block_group_info \<Rightarrow> nat set" where
  "bg_used i bg = bits_of (bg_bitmaps bg) \<inter> {..<unat (fi_blocks_per_group i)}"

lemma bg_wf_hole:
  assumes "bg_wf i bg" and "Suc k < length (bg_chunks bg)" and "holes (bg_chunks bg) ! k = (lo, hi)"
  shows "lo \<le> hi" and "bits_of (bg_bitmaps bg) \<inter> {lo..<hi} = {}" and "hi \<le> unat (fi_blocks_per_group i)"
proof -
  have "(lo, hi) \<in> set (holes (bg_chunks bg))"
    using assms(2,3) nth_mem [of k "holes (bg_chunks bg)"] by auto
  then show "lo \<le> hi" "bits_of (bg_bitmaps bg) \<inter> {lo..<hi} = {}"
    using assms(1) by (auto simp: bg_wf_def)
  have "c_end (bg_chunks bg ! Suc k) \<le> unat (fi_blocks_per_group i)"
    using assms(1,2) by (simp add: bg_wf_def)
  then show "hi \<le> unat (fi_blocks_per_group i)"
    using assms(2,3) by (simp add: nth_holes c_end_def)
qed

lemma take_hole_group:
  assumes i: "info_wf i" and bg: "bg_wf i bg" and j: "Suc j < length (bg_chunks bg)" "holes (bg_chunks bg) ! j = (lo, hi)"
    and n: "unat n \<le> hi - lo"
  obtains bg' where "reserve_blocks force (bg\<lparr>bg_chunks := (bg_chunks bg)[j := (bg_chunks bg ! j)\<lparr>c_len := c_len (bg_chunks bg ! j) + n\<rparr>]\<rparr>)
      (of_nat lo) n = Inr (0, bg')"
    and "\<And>m. bg_wf i (bg'\<lparr>bg_data_blocks_used := m\<rparr>)" and "bg_first_block bg' = bg_first_block bg"
    and "bg_used i bg \<inter> {lo..<lo + unat n} = {}" and "bg_used i bg' = bg_used i bg \<union> {lo..<lo + unat n}"
    and "holes (bg_chunks bg') = (holes (bg_chunks bg))[j := (lo + unat n, hi)]"
    and "lo + unat n \<le> unat (fi_blocks_per_group i)"
proof -
  let ?cs = "bg_chunks bg" and ?bpg = "unat (fi_blocks_per_group i)"
  let ?c = "(?cs ! j)\<lparr>c_len := c_len (?cs ! j) + n\<rparr>"
  have h: "lo = c_end (?cs ! j)" "hi = unat (c_block (?cs ! Suc j))"
    using nth_holes [OF j(1)] j(2) by auto
  have w: "length (bg_bitmaps bg) = 2 * unat (fi_block_size i)"
    "unat (bg_free_blocks bg) + card (bits_of (bg_bitmaps bg) \<inter> {..<?bpg}) = ?bpg"
    "lo \<le> hi" "bits_of (bg_bitmaps bg) \<inter> {lo..<hi} = {}"
    "\<And>c. c \<in> set ?cs \<Longrightarrow> c_end c \<le> ?bpg"
    using bg bg_wf_hole [OF bg j] by (auto simp: bg_wf_def)
  have b: "hi \<le> ?bpg" "?bpg < 2 ^ 31"
    using bg_wf_hole [OF bg j] i by (auto simp: info_wf_def)
  have c: "c_end ?c = lo + unat n"
  proof -
    have "unat (c_len (?cs ! j)) + unat n < 2 ^ 32"
      using n b h w(3) by (simp add: c_end_def)
    then have "unat (c_len (?cs ! j) + n) = unat (c_len (?cs ! j)) + unat n"
      by (intro unat_add_lem [THEN iffD1]) simp
    then show ?thesis
      using h by (simp add: c_end_def)
  qed
  have hs: "holes (?cs[j := ?c]) = (holes ?cs)[j := (lo + unat n, hi)]"
    using holes_update [OF j(1)] j(2) c by simp
  have lo: "unat (of_nat lo :: u32) = lo"
    using w(3) b by (simp add: unat_of_nat_u32)
  let ?bg = "bg\<lparr>bg_chunks := ?cs[j := ?c]\<rparr>"
  have free: "bits_of (bg_bitmaps bg) \<inter> {lo..<lo + unat n} = {}"
    using w(4) n w(3) by (auto simp: disjoint_iff)
  have fit: "lo + unat n \<le> ?bpg"
    using w(3) n b by simp
  obtain bm where bm: "reserve_blocks force ?bg (of_nat lo) n
      = Inr (0, ?bg\<lparr>bg_bitmaps := bm, bg_free_blocks := bg_free_blocks bg - n\<rparr>)"
    "length bm = length (bg_bitmaps bg)" "bits_of bm = bits_of (bg_bitmaps bg) \<union> {lo..<lo + unat n}"
    "unat (bg_free_blocks bg - n) + card (bits_of bm \<inter> {..<?bpg}) = ?bpg"
    using reserve_free_blocks [OF i, of ?bg "of_nat lo" n force] w(1,2) fit free unfolding lo by auto
  define bg' where "bg' = ?bg\<lparr>bg_bitmaps := bm, bg_free_blocks := bg_free_blocks bg - n\<rparr>"
  have holes': "lo' \<le> hi' \<and> bits_of bm \<inter> {lo'..<hi'} = {}" if m: "(lo', hi') \<in> set (holes (?cs[j := ?c]))" for lo' hi'
  proof -
    obtain k where k: "Suc k < length ?cs" "(holes ?cs)[j := (lo + unat n, hi)] ! k = (lo', hi')"
      using m unfolding hs in_set_conv_nth length_list_update length_holes by (metis less_diff_conv Suc_eq_plus1)
    show ?thesis
    proof (cases "k = j")
      case True
      then have "lo' = lo + unat n" "hi' = hi"
        using k j(1) by auto
      then show ?thesis
        using w(3,4) n unfolding bm(3) by (auto simp: disjoint_iff)
    next
      case False
      then have k2: "holes ?cs ! k = (lo', hi')"
        using k by simp
      then have o: "lo' \<le> hi'" "bits_of (bg_bitmaps bg) \<inter> {lo'..<hi'} = {}"
        using bg_wf_hole [OF bg k(1)] by simp_all
      have "hi \<le> lo' \<or> hi' \<le> lo"
        using holes_in_order [OF bg_wf_ordered [OF i bg], of j k] holes_in_order [OF bg_wf_ordered [OF i bg], of k j]
          False k(1) k2 j by (cases "j < k") auto
      then have "{lo..<lo + unat n} \<inter> {lo'..<hi'} = {}"
        using n w(3) by auto
      then show ?thesis
        using o unfolding bm(3) by blast
    qed
  qed
  show thesis
  proof (rule that [of bg'])
    have "c_end c \<le> ?bpg" if "c \<in> set (?cs[j := ?c])" for c
      using set_update_subset_insert [of ?cs j ?c] that w(3,5) c n b by auto
    then show "bg_wf i (bg'\<lparr>bg_data_blocks_used := m\<rparr>)" for m
      using bg holes' bm(2,4) by (auto simp: bg_wf_def bg'_def)
  qed (use bm free n w(3) b hs in \<open>auto simp: bg'_def bg_used_def\<close>)
qed

end
