(* ===== verification/Allocation.thy ===== *)
theory Allocation
  imports Best_Fit
begin

text \<open>
  The allocator as a whole: the invariant of its state, the blocks that are in use, and what taking a hole, the loop of
  \<open>ext4_allocate_best_fit\<close> and \<open>allocate_blocks\<close> do to them.
\<close>

section \<open>The state\<close>

definition st_wf :: "fs_info \<Rightarrow> fs_aux_info \<Rightarrow> alloc_state \<Rightarrow> bool" where
  "st_wf i a st \<longleftrightarrow> info_wf i
     \<and> unat (ai_first_data_block a) + length (st_bgs st) * unat (fi_blocks_per_group i) < 2 ^ 32
     \<and> (\<forall>n < length (st_bgs st). bg_wf i (st_bgs st ! n)
         \<and> unat (bg_first_block (st_bgs st ! n)) = unat (ai_first_data_block a) + n * unat (fi_blocks_per_group i))"

text \<open>The numbers of the blocks that are marked as used.\<close>

definition used :: "fs_info \<Rightarrow> alloc_state \<Rightarrow> nat set" where
  "used i st = (\<Union>n < length (st_bgs st). (\<lambda>k. unat (bg_first_block (st_bgs st ! n)) + k) ` bg_used i (st_bgs st ! n))"

text \<open>The number of blocks in holes.\<close>

definition group_room :: "block_group_info \<Rightarrow> nat" where
  "group_room bg = (\<Sum>(lo, hi)\<leftarrow>holes (bg_chunks bg). hi - lo)"

definition room :: "alloc_state \<Rightarrow> nat" where
  "room st = (\<Sum>bg\<leftarrow>st_bgs st. group_room bg)"

lemma hole_le_room:
  assumes "x \<in> set (group_holes 0 (st_bgs st))"
  shows "hole_size x \<le> room st"
proof -
  obtain n k lo hi where x: "x = (n, k, lo, hi)"
    by (metis prod_cases4)
  then have n: "n < length (st_bgs st)" "(lo, hi) \<in> set (holes (bg_chunks (st_bgs st ! n)))"
    using assms nth_mem [of k "holes (bg_chunks (st_bgs st ! n))"] by (auto simp: group_holes_iff)
  then have "hi - lo \<le> group_room (st_bgs st ! n)"
    unfolding group_room_def by (intro member_le_sum_list) (force, simp)
  also have "\<dots> \<le> room st"
    unfolding room_def using n by (intro member_le_sum_list) simp_all
  finally show ?thesis
    by (simp add: x hole_size_def)
qed

lemma sum_list_pos: "0 < (\<Sum>x\<leftarrow>xs. f x :: nat) \<Longrightarrow> \<exists>x \<in> set xs. 0 < f x"
  by (induction xs) auto

lemma room_pos:
  assumes "0 < room st"
  obtains x where "x \<in> set (group_holes 0 (st_bgs st))" and "0 < hole_size x"
proof -
  obtain bg where bg: "bg \<in> set (st_bgs st)" "0 < group_room bg"
    using assms unfolding room_def by (metis sum_list_pos)
  obtain n where n: "n < length (st_bgs st)" "bg = st_bgs st ! n"
    using bg(1) by (auto simp: in_set_conv_nth)
  obtain y where y: "y \<in> set (holes (bg_chunks bg))" "0 < (case y of (lo, hi) \<Rightarrow> hi - lo)"
    using bg(2) unfolding group_room_def by (metis sum_list_pos)
  then obtain k lo hi where "k < length (holes (bg_chunks bg))" "holes (bg_chunks bg) ! k = (lo, hi)" "0 < hi - lo"
    by (metis in_set_conv_nth case_prod_conv prod.exhaust)
  then show thesis
    using n that [of "(n, k, lo, hi)"] by (simp add: group_holes_iff hole_size_def less_diff_conv)
qed

lemma st_wf_ordered: "st_wf i a st \<Longrightarrow> bg \<in> set (st_bgs st) \<Longrightarrow> ordered (bg_chunks bg)"
  by (auto simp: st_wf_def in_set_conv_nth bg_wf_ordered)

lemma st_wf_hole_size:
  assumes "st_wf i a st" and "x \<in> set (group_holes 0 (st_bgs st))"
  shows "hole_size x < 2 ^ 32"
proof -
  obtain n k lo hi where x: "x = (n, k, lo, hi)"
    by (metis prod_cases4)
  then have n: "n < length (st_bgs st)" "Suc k < length (bg_chunks (st_bgs st ! n))" "holes (bg_chunks (st_bgs st ! n)) ! k = (lo, hi)"
    using assms(2) by (auto simp: group_holes_iff)
  then have "hi \<le> unat (fi_blocks_per_group i)"
    using bg_wf_hole(3) [OF _ n(2,3)] assms(1) by (auto simp: st_wf_def)
  moreover have "unat (fi_blocks_per_group i) < 2 ^ 31"
    using assms(1) by (auto simp: st_wf_def info_wf_def)
  ultimately show ?thesis
    by (simp add: x hole_size_def)
qed


lemma digits_unique: "m * q + k = n * q + l \<Longrightarrow> k < q \<Longrightarrow> l < q \<Longrightarrow> m = n \<and> k = l" for m n k l q :: nat
  by (metis add_left_cancel div_mult_self3 div_less add.commute gr_implies_not0 add_cancel_left_right)

lemma used_update:
  assumes "n < length (st_bgs st)" and "bg_first_block bg = bg_first_block (st_bgs st ! n)"
    and "bg_used i bg = bg_used i (st_bgs st ! n) \<union> S"
  shows "used i (set_bg n bg st) = used i st \<union> (\<lambda>k. unat (bg_first_block bg) + k) ` S"
proof -
  let ?f = "\<lambda>bg. (\<lambda>k. unat (bg_first_block bg) + k) ` bg_used i bg"
  have "?f ((st_bgs st)[n := bg] ! m) = (if m = n then ?f (st_bgs st ! n) \<union> (\<lambda>k. unat (bg_first_block bg) + k) ` S else ?f (st_bgs st ! m))"
    if "m < length (st_bgs st)" for m
    using assms that by (auto simp: image_Un)
  then show ?thesis
    using assms(1) unfolding used_def set_bg_def by (auto split: if_splits)
qed

lemma used_disjoint:
  assumes "st_wf i a st" and "n < length (st_bgs st)" and "S \<subseteq> {..<unat (fi_blocks_per_group i)}" and "bg_used i (st_bgs st ! n) \<inter> S = {}"
  shows "used i st \<inter> (\<lambda>k. unat (bg_first_block (st_bgs st ! n)) + k) ` S = {}"
proof -
  let ?q = "unat (fi_blocks_per_group i)" and ?d = "unat (ai_first_data_block a)"
  have f: "unat (bg_first_block (st_bgs st ! m)) = ?d + m * ?q" if "m < length (st_bgs st)" for m
    using assms(1) that by (simp add: st_wf_def)
  have False if "m < length (st_bgs st)" "k \<in> bg_used i (st_bgs st ! m)" "l \<in> S" "?d + n * ?q + l = ?d + m * ?q + k" for m k l
  proof -
    have "k < ?q" "l < ?q"
      using that assms(3) by (auto simp: bg_used_def)
    then have "m = n" "k = l"
      using digits_unique [of m ?q k n l] that(4) by auto
    then show False
      using that assms(4) by auto
  qed
  then show ?thesis
    using assms(2) f unfolding used_def by auto
qed

lemma room_update:
  assumes "n < length (st_bgs st)" and "Suc j < length (bg_chunks (st_bgs st ! n))"
    and "holes (bg_chunks bg) = (holes (bg_chunks (st_bgs st ! n)))[j := (lo + m, hi)]"
    and "holes (bg_chunks (st_bgs st ! n)) ! j = (lo, hi)" and "lo + m \<le> hi"
  shows "room (set_bg n bg st) + m = room st"
proof -
  let ?hs = "holes (bg_chunks (st_bgs st ! n))" and ?s = "\<lambda>(lo, hi). hi - lo :: nat"
  have j: "j < length ?hs"
    using assms(2) by auto
  have "group_room bg + m = group_room (st_bgs st ! n)"
  proof -
    have "?s (lo, hi) \<le> sum_list (map ?s ?hs)"
      using j assms(4) by (metis elem_le_sum_list length_map nth_map)
    then show ?thesis
      using j assms(3,4,5) by (simp add: group_room_def map_update sum_list_update)
  qed
  moreover have "group_room (st_bgs st ! n) \<le> sum_list (map group_room (st_bgs st))"
    using assms(1) by (metis elem_le_sum_list length_map nth_map)
  ultimately show ?thesis
    using assms(1) by (simp add: room_def set_bg_def map_update sum_list_update)
qed

text \<open>A region of at least one block lies inside its group.\<close>

definition region_ok :: "fs_info \<Rightarrow> fs_aux_info \<Rightarrow> alloc_state \<Rightarrow> region \<Rightarrow> bool" where
  "region_ok i a st r \<longleftrightarrow> r_bg r < length (st_bgs st) \<and> 0 < unat (r_len r)
     \<and> unat (ai_first_data_block a) + r_bg r * unat (fi_blocks_per_group i) \<le> unat (r_block r)
     \<and> unat (r_block r) + unat (r_len r) \<le> unat (ai_first_data_block a) + Suc (r_bg r) * unat (fi_blocks_per_group i)"

lemma take_hole_ok:
  assumes st: "st_wf i a st" and f: "f_bg f < length (st_bgs st)" "Suc (f_prev_chunk f) < length (bg_chunks (st_bgs st ! f_bg f))"
    "holes (bg_chunks (st_bgs st ! f_bg f)) ! f_prev_chunk f = (lo, hi)" "f_block f = of_nat lo"
    "unat (f_allocate_len f) \<le> hi - lo" "0 < unat (f_allocate_len f)"
  obtains st' b where "take_hole force f st = Inr (Some (length (st_heap st)), st')"
    and "st_heap st' = st_heap st @ [Some \<lparr>r_block = b, r_len = f_allocate_len f, r_bg = f_bg f, r_next = None, r_prev = None\<rparr>]"
    and "st_wf i a st'" and "unat b + unat (f_allocate_len f) < 2 ^ 32"
    and "used i st \<inter> {unat b..<unat b + unat (f_allocate_len f)} = {}"
    and "used i st' = used i st \<union> {unat b..<unat b + unat (f_allocate_len f)}"
    and "room st' + unat (f_allocate_len f) = room st" and "length (st_bgs st') = length (st_bgs st)"
    and "region_ok i a st' \<lparr>r_block = b, r_len = f_allocate_len f, r_bg = f_bg f, r_next = None, r_prev = None\<rparr>"
proof -
  let ?n = "f_bg f" and ?m = "f_allocate_len f"
  let ?bg = "st_bgs st ! ?n" and ?q = "unat (fi_blocks_per_group i)"
  have w: "info_wf i" "bg_wf i ?bg" "unat (bg_first_block ?bg) = unat (ai_first_data_block a) + ?n * ?q"
    "unat (ai_first_data_block a) + length (st_bgs st) * ?q < 2 ^ 32"
    using st f(1) by (simp_all add: st_wf_def)
  obtain bg' where bg': "reserve_blocks force (?bg\<lparr>bg_chunks := (bg_chunks ?bg)[f_prev_chunk f := (bg_chunks ?bg ! f_prev_chunk f)
      \<lparr>c_len := c_len (bg_chunks ?bg ! f_prev_chunk f) + ?m\<rparr>]\<rparr>) (of_nat lo) ?m = Inr (0, bg')"
    "\<And>m. bg_wf i (bg'\<lparr>bg_data_blocks_used := m\<rparr>)" "bg_first_block bg' = bg_first_block ?bg"
    "bg_used i ?bg \<inter> {lo..<lo + unat ?m} = {}" "bg_used i bg' = bg_used i ?bg \<union> {lo..<lo + unat ?m}"
    "holes (bg_chunks bg') = (holes (bg_chunks ?bg))[f_prev_chunk f := (lo + unat ?m, hi)]" "lo + unat ?m \<le> ?q"
    by (rule take_hole_group [OF w(1,2) f(2,3,5), of force]) blast
  let ?bg2 = "bg'\<lparr>bg_data_blocks_used := bg_data_blocks_used bg' + ?m\<rparr>"
  define b where "b = f_block f + bg_first_block ?bg"
  define st2 where "st2 = (set_bg ?n ?bg2 st)\<lparr>st_heap := st_heap st @ [Some \<lparr>r_block = b, r_len = ?m, r_bg = ?n, r_next = None, r_prev = None\<rparr>]\<rparr>"
  have "(Suc ?n) * ?q \<le> length (st_bgs st) * ?q"
    using f(1) by (intro mult_le_mono1) simp
  then have fit: "unat (bg_first_block ?bg) + ?q < 2 ^ 32"
    using w(3,4) by simp
  then have b: "unat b = unat (bg_first_block ?bg) + lo"
    unfolding b_def f(4) using bg'(7) by (subst unat_add_lem [THEN iffD1]) (simp_all add: unat_of_nat_u32)
  have sub: "{lo..<lo + unat ?m} \<subseteq> {..<?q}"
    using bg'(7) by auto
  have img: "(\<lambda>k. unat (bg_first_block ?bg) + k) ` {lo..<lo + unat ?m} = {unat b..<unat b + unat ?m}"
    by (simp add: b ac_simps)
  show thesis
  proof (rule that [of st2 b])
    show "take_hole force f st = Inr (Some (length (st_heap st)), st2)"
      using f(1,2,4) bg'(1,3) by (simp add: take_hole_def get_bg_def Let_def malloc_def st2_def b_def)
    show "st_wf i a st2"
      using st bg'(2,3) f(1) by (auto simp: st_wf_def st2_def set_bg_def nth_list_update)
    have u: "used i (set_bg ?n ?bg2 st) = used i st \<union> {unat b..<unat b + unat ?m}"
      using used_update [OF f(1), of ?bg2 i "{lo..<lo + unat ?m}"] bg'(3,5) img by (simp add: bg_used_def)
    then show "used i st2 = used i st \<union> {unat b..<unat b + unat ?m}"
      by (simp add: used_def st2_def)
    show "used i st \<inter> {unat b..<unat b + unat ?m} = {}"
      using used_disjoint [OF st f(1) sub bg'(4)] unfolding img .
    show "unat b + unat ?m < 2 ^ 32"
      using b fit bg'(7) by simp
    show "region_ok i a st2 \<lparr>r_block = b, r_len = ?m, r_bg = ?n, r_next = None, r_prev = None\<rparr>"
      using f(1,6) b w(3) bg'(7) by (simp add: region_ok_def st2_def set_bg_def)
    have "lo \<le> hi"
      by (rule bg_wf_hole [OF w(2) f(2,3)])
    then show "room st2 + unat ?m = room st"
      using room_update [OF f(1,2), of ?bg2 lo "unat ?m" hi] bg'(6) f(3,5) by (simp add: room_def st2_def)
  qed (simp_all add: st2_def set_bg_def)
qed


text \<open>One step of the allocation: a region from a hole that offers as many of the \<open>len\<close> blocks as any other.\<close>

lemma best_fit_partial_ok:
  assumes st: "st_wf i a st" and len: "0 < len" and room: "0 < room st"
  obtains st' b m n where "ext4_allocate_best_fit_partial force len st = Inr (Some (length (st_heap st)), st')"
    and "st_heap st' = st_heap st @ [Some \<lparr>r_block = b, r_len = m, r_bg = n, r_next = None, r_prev = None\<rparr>]"
    and "st_wf i a st'" and "unat b + unat m < 2 ^ 32" and "0 < m" and "m \<le> len"
    and "\<And>x. x \<in> set (group_holes 0 (st_bgs st)) \<Longrightarrow> min (unat len) (hole_size x) \<le> unat m"
    and "used i st \<inter> {unat b..<unat b + unat m} = {}" and "used i st' = used i st \<union> {unat b..<unat b + unat m}"
    and "room st' + unat m = room st" and "length (st_bgs st') = length (st_bgs st)"
    and "region_ok i a st' \<lparr>r_block = b, r_len = m, r_bg = n, r_next = None, r_prev = None\<rparr>"
proof -
  obtain perfect f where scan: "scan_groups len 0 (st_bgs st) nothing_found = (perfect, f)"
    by fastforce
  note search = best_fit_search [OF scan st_wf_ordered [OF st] st_wf_hole_size [OF st] len]
  have f0: "f_allocate_len f \<noteq> 0"
    using search room_pos [OF room] by (metis less_not_refl)
  then obtain x where x: "x \<in> set (group_holes 0 (st_bgs st))" "at_hole f x" "perfect \<Longrightarrow> unat (f_allocate_len f) = unat len"
    "\<And>y. y \<in> set (group_holes 0 (st_bgs st)) \<Longrightarrow> min (unat len) (hole_size y) \<le> min (unat len) (hole_size x)"
    using search by auto
  obtain n k lo hi where xe: "x = (n, k, lo, hi)"
    by (metis prod_cases4)
  define g where "g = (if \<not> perfect \<and> f_allocate_len f > len then f\<lparr>f_allocate_len := len\<rparr> else f)"
  have run: "ext4_allocate_best_fit_partial force len st = take_hole force g st"
    using f0 by (auto simp: ext4_allocate_best_fit_partial_def scan g_def)
  have h: "f_bg f = n" "f_prev_chunk f = k" "f_block f = of_nat lo" "unat (f_allocate_len f) = hi - lo"
    using x(2) by (simp_all add: xe at_hole_def)
  have m: "unat (f_allocate_len g) = min (unat len) (hi - lo)"
    using x(3) h(4) by (cases perfect) (auto simp: g_def word_less_nat_alt)
  have g: "f_bg g < length (st_bgs st)" "Suc (f_prev_chunk g) < length (bg_chunks (st_bgs st ! f_bg g))"
    "holes (bg_chunks (st_bgs st ! f_bg g)) ! f_prev_chunk g = (lo, hi)" "f_block g = of_nat lo" "unat (f_allocate_len g) \<le> hi - lo"
    using x(1) h m by (simp_all add: g_def xe group_holes_iff)
  have pos: "0 < f_allocate_len g" "f_allocate_len g \<le> len"
    using f0 len m by (auto simp: g_def word_le_nat_alt word_neq_0_conv)
  then have posn: "0 < unat (f_allocate_len g)"
    by (simp add: unat_gt_0 word_neq_0_conv)
  have best: "min (unat len) (hole_size y) \<le> unat (f_allocate_len g)" if "y \<in> set (group_holes 0 (st_bgs st))" for y
    using x(4) [OF that] m by (simp add: xe hole_size_def)
  obtain st' b where t: "take_hole force g st = Inr (Some (length (st_heap st)), st')"
    "st_heap st' = st_heap st @ [Some \<lparr>r_block = b, r_len = f_allocate_len g, r_bg = f_bg g, r_next = None, r_prev = None\<rparr>]"
    "st_wf i a st'" "unat b + unat (f_allocate_len g) < 2 ^ 32"
    "used i st \<inter> {unat b..<unat b + unat (f_allocate_len g)} = {}"
    "used i st' = used i st \<union> {unat b..<unat b + unat (f_allocate_len g)}" "room st' + unat (f_allocate_len g) = room st"
    "length (st_bgs st') = length (st_bgs st)"
    "region_ok i a st' \<lparr>r_block = b, r_len = f_allocate_len g, r_bg = f_bg g, r_next = None, r_prev = None\<rparr>"
    by (rule take_hole_ok [OF st g posn, of force])
  show thesis
    by (rule that [OF t(1) [folded run] t(2,3,4) pos best t(5-9)])
qed

lemma best_fit_partial_full:
  assumes st: "st_wf i a st" and len: "0 < len" and room: "room st = 0"
  shows "ext4_allocate_best_fit_partial force len st = error force (None, st)"
proof -
  obtain perfect f where scan: "scan_groups len 0 (st_bgs st) nothing_found = (perfect, f)"
    by fastforce
  note search = best_fit_search [OF scan st_wf_ordered [OF st] st_wf_hole_size [OF st] len]
  have "f_allocate_len f = 0"
  proof (rule ccontr)
    assume f0: "f_allocate_len f \<noteq> 0"
    then obtain x where "x \<in> set (group_holes 0 (st_bgs st))" "at_hole f x"
      using search by auto
    moreover from this have "hole_size x = unat (f_allocate_len f)"
      by (auto simp: at_hole_def hole_size_def)
    ultimately show False
      using hole_le_room [of x st] room f0 by (simp add: unat_eq_0)
  qed
  then show ?thesis
    using search by (simp add: ext4_allocate_best_fit_partial_def scan)
qed


section \<open>Allocating blocks\<close>

lemma region_blocks_unat:
  assumes "unat b + unat n < 2 ^ 32"
  shows "map unat (region_blocks b n) = [unat b..<unat b + unat n]"
proof (rule nth_equalityI)
  fix k
  assume "k < length (map unat (region_blocks b n))"
  then have "k < unat n"
    by simp
  moreover from this have "unat (b + of_nat k) = unat b + k"
    using assms by (subst unat_add_lem [THEN iffD1]) (simp_all add: unat_of_nat_u32)
  ultimately show "map unat (region_blocks b n) ! k = [unat b..<unat b + unat n] ! k"
    by simp
qed simp

text \<open>What a step of the loop does to the list built so far.\<close>

lemma link_ok:
  assumes "dlist h None p as None" and "r_next r = None" and "r_prev r = None"
  obtains h' where "link (last_ptr None as) (Some (length h)) (h @ [Some r]) = Inr h'"
    and "dlist h' None (if p = None then Some (length h) else p) (as @ [length h]) None" and "same_data (h @ [Some r]) h'"
    and "\<And>b. live h b \<Longrightarrow> b \<notin> set as \<Longrightarrow> cell h' b = cell h b" and "length h' = Suc (length h)"
  using last_cases [of as]
proof (elim disjE exE)
  assume "as = []"
  then show thesis
    using assms by (intro that [of "h @ [Some r]"]) (auto simp: link_def)
next
  fix bs b
  assume as: "as = bs @ [b]"
  let ?g = "h @ [Some r]" and ?a = "length h"
  have b: "live h b" "dlist h None p bs (Some b)" "r_prev (cell h b) = last_ptr None bs" "b \<noteq> ?a" "b \<notin> set bs"
    using assms(1) as path_distinct [OF dlist_path [OF assms(1)]] not_live_new by auto
  have p: "p \<noteq> None"
    using assms(1) as by (cases bs) auto
  define h' where "h' = ?g[b := Some ((cell h b)\<lparr>r_next := Some ?a\<rparr>), ?a := Some (r\<lparr>r_prev := Some b\<rparr>)]"
  have lv: "live ?g b" "live ?g ?a"
    using b(1) by auto
  have "dlist h' None p bs (Some b)"
  proof (rule dlist_frame [OF b(2)])
    fix c
    assume "c \<in> set bs"
    then have "live h c" "c \<noteq> b" "c \<noteq> ?a"
      using dlist_live [OF b(2)] b(5) not_live_new by auto
    then show "live h' c \<and> r_next (cell h' c) = r_next (cell h c) \<and> r_prev (cell h' c) = r_prev (cell h c)"
      using lv by (simp add: h'_def)
  qed
  then have "dlist h' None p (as @ [?a]) None"
    using b lv assms(2) by (auto simp: as h'_def)
  moreover have "link (Some b) (Some ?a) ?g = Inr h'"
    using b lv by (simp add: link_def h'_def)
  moreover have "same_data ?g h'"
    using b lv by (auto simp: same_data_def data_def h'_def)
  moreover have "cell h' c = cell h c" if "live h c" "c \<notin> set as" for c
    using that lv not_live_new [OF that(1)] by (auto simp: h'_def as)
  ultimately show thesis
    using p as by (intro that [of h']) (auto simp: h'_def)
qed


text \<open>The blocks of the cells \<open>as\<close> are \<open>n\<close> blocks that were free, each once, and are now used.\<close>

definition fresh_blocks :: "fs_info \<Rightarrow> alloc_state \<Rightarrow> alloc_state \<Rightarrow> nat list \<Rightarrow> nat \<Rightarrow> bool" where
  "fresh_blocks i st st' as n \<longleftrightarrow> (let bs = map unat (blocks (st_heap st') as) in
     length bs = n \<and> distinct bs \<and> used i st \<inter> set bs = {} \<and> used i st' = used i st \<union> set bs)"

text \<open>The old cells of the heap that are not in \<open>as\<close> are unchanged, and the regions of all old cells.\<close>

definition heap_kept :: "heap \<Rightarrow> heap \<Rightarrow> nat list \<Rightarrow> bool" where
  "heap_kept h h' as \<longleftrightarrow> same_data h h' \<and> (\<forall>b. live h b \<longrightarrow> b \<notin> set as \<longrightarrow> cell h' b = cell h b)"

lemma fresh_blocks_Cons:
  assumes "fresh_blocks i st1 st' as n" and "used i st1 = used i st \<union> {unat b..<unat b + unat m}"
    and "used i st \<inter> {unat b..<unat b + unat m} = {}" and "unat b + unat m < 2 ^ 32"
    and "r_block (cell (st_heap st') a) = b" and "r_len (cell (st_heap st') a) = m"
  shows "fresh_blocks i st st' (a # as) (unat m + n)"
proof -
  have "map unat (blocks (st_heap st') (a # as)) = [unat b..<unat b + unat m] @ map unat (blocks (st_heap st') as)"
    using region_blocks_unat [OF assms(4)] assms(5,6) by (simp add: blocks_def)
  then show ?thesis
    using assms(1-3) by (auto simp: fresh_blocks_def Let_def simp del: length_map)
qed

lemma used_heap [simp]: "used i (st\<lparr>st_heap := h\<rparr>) = used i st"
  by (simp add: used_def)

lemma room_heap [simp]: "room (st\<lparr>st_heap := h\<rparr>) = room st"
  by (simp add: room_def)

lemma st_wf_heap [simp]: "st_wf i a (st\<lparr>st_heap := h\<rparr>) = st_wf i a st"
  by (simp add: st_wf_def)

lemma fresh_blocks_heap [simp]: "fresh_blocks i (st\<lparr>st_heap := h\<rparr>) st' as n = fresh_blocks i st st' as n"
  by (simp add: fresh_blocks_def)

definition regions_ok :: "fs_info \<Rightarrow> fs_aux_info \<Rightarrow> alloc_state \<Rightarrow> nat list \<Rightarrow> bool" where
  "regions_ok i a st as \<longleftrightarrow> (\<forall>c \<in> set as. region_ok i a st (cell (st_heap st) c))"

lemma region_ok_data: "data h c = data h' c' \<Longrightarrow> region_ok i a st (cell h c) = region_ok i a st (cell h' c')"
  by (simp add: region_ok_def data_def)

lemma region_ok_length: "length (st_bgs st) = length (st_bgs st') \<Longrightarrow> region_ok i a st r = region_ok i a st' r"
  by (simp add: region_ok_def)

lemma best_fit_loop_ok:
  assumes "st_wf i a st" and "unat len \<le> room st" and "dlist (st_heap st) None p as None"
  shows "\<exists>q st' as'. best_fit_loop force len p (last_ptr None as) st = Some (Inr (q, st'))
    \<and> dlist (st_heap st') None q (as @ as') None \<and> st_wf i a st' \<and> fresh_blocks i st st' as' (unat len)
    \<and> room st' + unat len = room st \<and> heap_kept (st_heap st) (st_heap st') as \<and> (\<forall>b \<in> set as'. length (st_heap st) \<le> b)
    \<and> length (st_bgs st') = length (st_bgs st) \<and> regions_ok i a st' as'"
  using assms
proof (induction "unat len" arbitrary: len p as st rule: less_induct)
  case less
  show ?case
  proof (cases "len = 0")
    case True
    then show ?thesis
      using less.prems by (subst best_fit_loop.simps) (auto simp: fresh_blocks_def heap_kept_def blocks_def regions_ok_def intro!: exI [of _ "[]"])
  next
    case False
    let ?h = "st_heap st" and ?a = "length (st_heap st)"
    have pos: "0 < len" "0 < room st"
      using False less.prems(2) by (auto simp: word_neq_0_conv unat_gt_0 intro: less_le_trans [of 0 "unat len"])
    obtain st1 b m n where 1: "ext4_allocate_best_fit_partial force len st = Inr (Some ?a, st1)"
      "st_heap st1 = ?h @ [Some \<lparr>r_block = b, r_len = m, r_bg = n, r_next = None, r_prev = None\<rparr>]"
      "st_wf i a st1" "unat b + unat m < 2 ^ 32" "0 < m" "m \<le> len"
      "used i st \<inter> {unat b..<unat b + unat m} = {}" "used i st1 = used i st \<union> {unat b..<unat b + unat m}"
      "room st1 + unat m = room st" "length (st_bgs st1) = length (st_bgs st)"
      "region_ok i a st1 \<lparr>r_block = b, r_len = m, r_bg = n, r_next = None, r_prev = None\<rparr>"
      by (rule best_fit_partial_ok [OF less.prems(1) pos, of force])
    let ?r = "\<lparr>r_block = b, r_len = m, r_bg = n, r_next = None, r_prev = None\<rparr>"
    obtain h2 where 2: "link (last_ptr None as) (Some ?a) (?h @ [Some ?r]) = Inr h2"
      "dlist h2 None (if p = None then Some ?a else p) (as @ [?a]) None" "same_data (?h @ [Some ?r]) h2"
      "\<And>b. live ?h b \<Longrightarrow> b \<notin> set as \<Longrightarrow> cell h2 b = cell ?h b" "length h2 = Suc ?a"
      by (rule link_ok [OF less.prems(3), of ?r]) simp_all
    let ?st2 = "st1\<lparr>st_heap := h2\<rparr>"
    have len: "unat (len - m) = unat len - unat m" "0 < unat m" "unat m \<le> unat len"
      using 1(5,6) by (simp_all add: unat_sub word_le_nat_alt unat_gt_0 word_neq_0_conv)
    have new: "live h2 ?a" "r_block (cell h2 ?a) = b" "r_len (cell h2 ?a) = m" "r_bg (cell h2 ?a) = n"
      using 2(3) by (auto simp: same_data_def data_def live_def cell_def nth_append)
    have "unat (len - m) < unat len" "unat (len - m) \<le> room ?st2" "dlist (st_heap ?st2) None (if p = None then Some ?a else p) (as @ [?a]) None"
      using len 1(9) less.prems(2) 2(2) by simp_all
    from less.hyps [OF this(1) _ this(2,3)] 1(3) obtain q st' as' where 3:
      "best_fit_loop force (len - m) (if p = None then Some ?a else p) (Some ?a) ?st2 = Some (Inr (q, st'))"
      "dlist (st_heap st') None q (as @ ?a # as') None" "st_wf i a st'" "fresh_blocks i st1 st' as' (unat (len - m))"
      "room st' + unat (len - m) = room st1" "heap_kept h2 (st_heap st') (as @ [?a])" "\<forall>b \<in> set as'. Suc ?a \<le> b"
      "length (st_bgs st') = length (st_bgs st1)" "regions_ok i a st' as'"
      using 2(5) by auto
    have "best_fit_loop force len p (last_ptr None as) st = Some (Inr (q, st'))"
      using pos(1) 1(1,2) 2(1) new 3(1) by (subst best_fit_loop.simps) simp
    moreover have "fresh_blocks i st st' (?a # as') (unat len)"
    proof -
      have "r_block (cell (st_heap st') ?a) = b" "r_len (cell (st_heap st') ?a) = m"
        using 3(6) new by (auto simp: heap_kept_def same_data_def data_def)
      from fresh_blocks_Cons [OF 3(4) 1(8) 1(7) 1(4) this] show ?thesis
        using len by simp
    qed
    moreover have "heap_kept ?h (st_heap st') as"
    proof -
      have "same_data ?h (?h @ [Some ?r])"
        by (auto simp: same_data_def data_def live_def cell_def nth_append)
      then have "same_data ?h (st_heap st')" "same_data ?h h2"
        using 2(3) 3(6) same_data_trans unfolding heap_kept_def by blast+
      moreover have "cell (st_heap st') c = cell ?h c" if "live ?h c" "c \<notin> set as" for c
      proof -
        have "live h2 c" "c \<noteq> ?a"
          using that(1) \<open>same_data ?h h2\<close> by (auto simp: same_data_def live_def)
        then show ?thesis
          using 3(6) 2(4) [OF that] that(2) by (simp add: heap_kept_def)
      qed
      ultimately show ?thesis
        by (simp add: heap_kept_def)
    qed
    moreover have "room st' + unat len = room st" "\<forall>b \<in> set (?a # as'). ?a \<le> b"
      using 1(9) 3(5,7) len by auto
    moreover have "regions_ok i a st' (?a # as')"
    proof -
      have "data (st_heap st') ?a = (b, m, n)"
        using 3(6) new by (simp add: heap_kept_def same_data_def data_def)
      then have "region_ok i a st' (cell (st_heap st') ?a)"
        using 1(11) 3(8) by (simp add: region_ok_def data_def)
      then show ?thesis
        using 3(9) by (simp add: regions_ok_def)
    qed
    moreover have "length (st_bgs st') = length (st_bgs st)"
      using 3(8) 1(10) by simp
    ultimately show ?thesis
      using 3(2,3) by blast
  qed
qed

lemma best_fit_loop_full:
  assumes "st_wf i a st" and "room st < unat len" and "dlist (st_heap st) None p as None"
  shows "best_fit_loop False len p (last_ptr None as) st = Some (Inl Longjmp)"
  using assms
proof (induction "unat len" arbitrary: len p as st rule: less_induct)
  case less
  have "len \<noteq> 0"
    using less.prems(2) by auto
  then have pos: "0 < len"
    by (rule word_neq_0_conv [THEN iffD1])
  show ?case
  proof (cases "room st = 0")
    case True
    then show ?thesis
      using best_fit_partial_full [OF less.prems(1) pos, of False] pos
      by (subst best_fit_loop.simps) (simp add: error_def)
  next
    case False
    let ?h = "st_heap st" and ?a = "length (st_heap st)"
    obtain st1 b m n where 1: "ext4_allocate_best_fit_partial False len st = Inr (Some ?a, st1)"
      "st_heap st1 = ?h @ [Some \<lparr>r_block = b, r_len = m, r_bg = n, r_next = None, r_prev = None\<rparr>]"
      "st_wf i a st1" "0 < m" "m \<le> len" "room st1 + unat m = room st"
      by (rule best_fit_partial_ok [OF less.prems(1) pos, of False]) (use False in simp_all)
    let ?r = "\<lparr>r_block = b, r_len = m, r_bg = n, r_next = None, r_prev = None\<rparr>"
    obtain h2 where 2: "link (last_ptr None as) (Some ?a) (?h @ [Some ?r]) = Inr h2"
      "dlist h2 None (if p = None then Some ?a else p) (as @ [?a]) None" "same_data (?h @ [Some ?r]) h2"
      by (rule link_ok [OF less.prems(3), of ?r]) simp_all
    have new: "live h2 ?a" "r_len (cell h2 ?a) = m"
      using 2(3) by (auto simp: same_data_def data_def live_def cell_def nth_append)
    have len: "unat (len - m) = unat len - unat m" "0 < unat m" "unat m \<le> unat len"
      using 1(4,5) by (simp_all add: unat_sub word_le_nat_alt unat_gt_0 word_neq_0_conv)
    have "best_fit_loop False (len - m) (if p = None then Some ?a else p) (last_ptr None (as @ [?a])) (st1\<lparr>st_heap := h2\<rparr>)
      = Some (Inl Longjmp)"
      by (rule less.hyps) (use len 1(3,6) less.prems(2) 2(2) in simp_all)
    then show ?thesis
      using pos 1(1,2) 2(1) new by (subst best_fit_loop.simps) simp
  qed
qed

lemma last_loop_ok: "path h (Some a) (a # as) None \<Longrightarrow> last_loop h (Some a) = Some (Inr (last_ptr (Some a) as))"
proof (induction as arbitrary: a)
  case Nil
  then show ?case
    by (subst last_loop.simps) simp
next
  case (Cons b bs)
  then have "last_loop h (Some b) = Some (Inr (last_ptr (Some b) bs))"
    by simp
  then show ?case
    using Cons.prems by (subst last_loop.simps) simp
qed

lemma allocate_blocks_gives:
  assumes "st_wf i a st" and "0 < len" and "unat len \<le> room st"
  obtains al st' as where "allocate_blocks force len st = Inr (Some al, st')"
    and "list_wf (st_heap st') (ba_list al) as" and "rl_iter (ba_list al) = rl_first (ba_list al)" and "rl_partial_iter (ba_list al) = 0"
    and "ba_oob_list al = ba_oob_list create_allocation"
    and "st_wf i a st'" and "fresh_blocks i st st' as (unat len)" and "room st' + unat len = room st"
    and "heap_kept (st_heap st) (st_heap st') []" and "\<forall>b \<in> set as. length (st_heap st) \<le> b"
    and "length (st_bgs st') = length (st_bgs st)" and "regions_ok i a st' as"
proof -
  obtain q st' as where 1: "best_fit_loop force len None None st = Some (Inr (q, st'))"
    "dlist (st_heap st') None q as None" "st_wf i a st'" "fresh_blocks i st st' as (unat len)"
    "room st' + unat len = room st" "heap_kept (st_heap st) (st_heap st') []" "\<forall>b \<in> set as. length (st_heap st) \<le> b"
    "length (st_bgs st') = length (st_bgs st)" "regions_ok i a st' as"
    using best_fit_loop_ok [OF assms(1,3), of None "[]" force] by auto
  have "as \<noteq> []"
    using 1(4) assms(2) by (auto simp: fresh_blocks_def blocks_def unat_eq_zero)
  then obtain b bs where as: "as = b # bs"
    by (cases as) auto
  have q: "q = Some b"
    using 1(2) as by simp
  have "last_loop (st_heap st') q = Some (Inr (last_ptr None as))"
    using last_loop_ok [of "st_heap st'" b bs] dlist_path [OF 1(2)] by (simp add: q as)
  then have "allocate_blocks force len st = Inr (Some (create_allocation\<lparr>ba_list :=
      \<lparr>rl_first = q, rl_last = last_ptr None as, rl_iter = q, rl_partial_iter = 0\<rparr>\<rparr>), st')"
    using 1(1) q by (simp add: allocate_blocks_def ext4_allocate_best_fit_def)
  from that [OF this _ _ _ _ 1(3-9)] show thesis
    using 1(2) by (simp add: list_wf_def)
qed

end
