(* ===== verification/Inode_Allocation.thy ===== *)
theory Inode_Allocation
  imports Allocation
begin

text \<open>
  The inode bitmaps of the groups: their invariant, which inodes are in use, what \<open>reserve_inodes\<close> and \<open>allocate_inode\<close>
  do to them, and that the groups created by \<open>block_allocator_init\<close> satisfy the invariants of blocks and of inodes.
\<close>

section \<open>The inode bitmap\<close>

lemma set_bit_bits_of:
  assumes "k div 8 < length bm"
  shows "bits_of (bm[k div 8 := bm ! (k div 8) OR push_bit (k mod 8) 1]) = insert k (bits_of bm)"
proof -
  have "j \<in> bits_of (bm[k div 8 := bm ! (k div 8) OR push_bit (k mod 8) 1]) \<longleftrightarrow> j \<in> insert k (bits_of bm)" for j
  proof (cases "j div 8 = k div 8")
    case True
    then have "j = k \<longleftrightarrow> j mod 8 = k mod 8"
      by (metis div_mod_8_eq)
    moreover have "j < 8 * length bm"
      using True assms by linarith
    ultimately show ?thesis
      using True assms by (auto simp: bits_of_update bit_or_iff bit_exp_8 bits_of_def)
  next
    case False
    then show ?thesis
      using assms by (auto simp: bits_of_update)
  qed
  then show ?thesis
    by blast
qed

lemma set_inode_bits_ok:
  assumes "8 * base + unat inode + k \<le> 8 * length bm" and "unat inode + k < 2 ^ 32"
  shows "\<exists>bm'. set_inode_bits base k inode bm = Inr bm' \<and> length bm' = length bm
    \<and> bits_of bm' = bits_of bm \<union> {8 * base + unat inode..<8 * base + unat inode + k}"
  using assms
proof (induction k arbitrary: inode bm)
  case (Suc k)
  let ?p = "8 * base + unat inode"
  have p: "base + unat (inode div 8) = ?p div 8" "unat (inode mod 8) = ?p mod 8"
    by simp_all
  have lt: "?p div 8 < length bm"
    using Suc.prems(1) by linarith
  have n: "unat (inode + 1) = unat inode + 1"
    using Suc.prems(2) unat_add_lem [of inode 1] by simp
  let ?bm = "bm[?p div 8 := bm ! (?p div 8) OR push_bit (?p mod 8) 1]"
  obtain bm' where 1: "set_inode_bits base k (inode + 1) ?bm = Inr bm'" "length bm' = length bm"
    "bits_of bm' = bits_of ?bm \<union> {?p + 1..<?p + 1 + k}"
    using Suc.IH [of "inode + 1" ?bm] Suc.prems unfolding n by (auto simp: add.assoc)
  have "bits_of bm' = bits_of bm \<union> {?p..<?p + Suc k}"
    unfolding 1(3) set_bit_bits_of [OF lt] by auto
  then show ?case
    using 1(1,2) lt by (simp add: p Let_def)
qed simp

text \<open>
  The inodes of a group that are in use (counted from 0), and the invariant of its inode counters: the inodes below
  \<^verbatim>\<open>first_free_inode\<close> are in use, the others are free and counted.
\<close>

definition inode_bits :: "block_group_info \<Rightarrow> nat set" where
  "inode_bits bg = {k. 8 * bg_inode_bitmap bg + k \<in> bits_of (bg_bitmaps bg)}"

definition inode_wf :: "fs_info \<Rightarrow> block_group_info \<Rightarrow> bool" where
  "inode_wf i bg \<longleftrightarrow> 0 < unat (bg_first_free_inode bg)
     \<and> unat (bg_first_free_inode bg) + unat (bg_free_inodes bg) = Suc (unat (fi_inodes_per_group i))
     \<and> inode_bits bg = {..<unat (bg_first_free_inode bg) - 1}"

definition inodes_wf :: "fs_info \<Rightarrow> fs_aux_info \<Rightarrow> alloc_state \<Rightarrow> bool" where
  "inodes_wf i a st \<longleftrightarrow> st_wf i a st \<and> 0 < unat (fi_inodes_per_group i)
     \<and> unat (fi_inodes_per_group i) \<le> 8 * unat (fi_block_size i)
     \<and> length (st_bgs st) * unat (fi_inodes_per_group i) < 2 ^ 32 - 1
     \<and> (\<forall>n < length (st_bgs st). inode_wf i (st_bgs st ! n))"

text \<open>The numbers of the inodes in use; the first inode is number 1.\<close>

definition used_inodes :: "fs_info \<Rightarrow> alloc_state \<Rightarrow> nat set" where
  "used_inodes i st = (\<Union>n < length (st_bgs st). (\<lambda>k. Suc (n * unat (fi_inodes_per_group i) + k)) ` inode_bits (st_bgs st ! n))"

section \<open>Reserving inodes\<close>

lemma reserve_inodes_ok:
  assumes st: "inodes_wf i a st" and n: "n < length (st_bgs st)" and num: "num \<le> bg_free_inodes (st_bgs st ! n)"
  obtains bg where "reserve_inodes n num st = Inr (bg_first_free_inode (st_bgs st ! n), set_bg n bg st)"
    and "inode_wf i bg" and "bg_wf i bg" and "bg_used i bg = bg_used i (st_bgs st ! n)"
    and "bg_first_block bg = bg_first_block (st_bgs st ! n)" and "bg_free_blocks bg = bg_free_blocks (st_bgs st ! n)"
    and "bg_chunks bg = bg_chunks (st_bgs st ! n)" and "unat (bg_first_free_inode bg) = unat (bg_first_free_inode (st_bgs st ! n)) + unat num"
proof -
  let ?bg = "st_bgs st ! n" and ?bs = "unat (fi_block_size i)"
  let ?f = "bg_first_free_inode ?bg"
  have i: "?bs < 2 ^ 27" "unat (fi_blocks_per_group i) \<le> 8 * ?bs" "unat (fi_inodes_per_group i) \<le> 8 * ?bs"
    and b: "length (bg_bitmaps ?bg) = 2 * ?bs" "bg_inode_bitmap ?bg = ?bs"
    and wf: "bg_wf i ?bg" "0 < unat ?f" "unat ?f + unat (bg_free_inodes ?bg) = Suc (unat (fi_inodes_per_group i))"
      "inode_bits ?bg = {..<unat ?f - 1}"
    using st n by (auto simp: inodes_wf_def st_wf_def info_wf_def bg_wf_def inode_wf_def)
  have f: "unat (?f - 1) = unat ?f - 1" and nn: "unat num \<le> unat (bg_free_inodes ?bg)"
    using wf(2) num by (simp_all add: unat_minus_one word_le_nat_alt unat_gt_0)
  have fn: "unat (?f + num) = unat ?f + unat num" "unat (bg_free_inodes ?bg - num) = unat (bg_free_inodes ?bg) - unat num"
    using wf(3) i nn unat_add_lem [of ?f num] by (simp_all add: unat_sub num)
  have fit: "8 * ?bs + unat (?f - 1) + unat num \<le> 8 * length (bg_bitmaps ?bg)" "unat (?f - 1) + unat num < 2 ^ 32"
    using wf(2,3) i b(1) nn unfolding f by simp_all
  let ?r = "{8 * ?bs + unat (?f - 1)..<8 * ?bs + unat (?f - 1) + unat num}"
  obtain bm where bm: "set_inode_bits ?bs (unat num) (?f - 1) (bg_bitmaps ?bg) = Inr bm" "length bm = 2 * ?bs"
    "bits_of bm = bits_of (bg_bitmaps ?bg) \<union> ?r"
    using set_inode_bits_ok [of ?bs "?f - 1" "unat num" "bg_bitmaps ?bg"] fit b(1) by auto
  let ?bg' = "?bg\<lparr>bg_bitmaps := bm, bg_first_free_inode := ?f + num, bg_free_inodes := bg_free_inodes ?bg - num\<rparr>"
  have low: "bits_of bm \<inter> {..<unat (fi_blocks_per_group i)} = bits_of (bg_bitmaps ?bg) \<inter> {..<unat (fi_blocks_per_group i)}"
    using i(2) unfolding bm(3) by auto
  have "reserve_inodes n num st = Inr (?f, set_bg n ?bg' st)"
    using n num bm(1) b(2) by (simp add: reserve_inodes_def get_free_inodes_def get_bg_def not_less [symmetric])
  moreover have "inode_wf i ?bg'"
    using wf(2-4) nn b(2) bm(3) unfolding inode_wf_def by (auto simp: fn inode_bits_def f set_eq_iff)
  moreover have "bg_wf i ?bg'"
  proof -
    have "bits_of bm \<inter> {lo..<hi} = {}" if x: "(lo, hi) \<in> set (holes (bg_chunks ?bg))" for lo hi
    proof -
      obtain k where k: "Suc k < length (bg_chunks ?bg)" "holes (bg_chunks ?bg) ! k = (lo, hi)"
        using x by (auto simp: in_set_conv_nth less_diff_conv)
      have "hi \<le> unat (fi_blocks_per_group i)" "bits_of (bg_bitmaps ?bg) \<inter> {lo..<hi} = {}"
        using bg_wf_hole [OF wf(1) k] by blast+
      then show ?thesis
        using low by auto
    qed
    then show ?thesis
      using wf(1) bm(2) b low unfolding bg_wf_def by auto
  qed
  moreover have "bg_used i ?bg' = bg_used i ?bg"
    using low by (simp add: bg_used_def)
  ultimately show thesis
    by (intro that [of ?bg']) (simp_all add: fn)
qed

lemma reserve_inodes_full:
  "n < length (st_bgs st) \<Longrightarrow> bg_free_inodes (st_bgs st ! n) < num \<Longrightarrow> reserve_inodes n num st = Inr (EXT4_ALLOCATE_FAILED, st)"
  by (simp add: reserve_inodes_def get_free_inodes_def get_bg_def)

lemma inodes_wf_set:
  assumes "inodes_wf i a st" and "n < length (st_bgs st)" and "inode_wf i bg" and "bg_wf i bg"
    and "bg_first_block bg = bg_first_block (st_bgs st ! n)"
  shows "inodes_wf i a (set_bg n bg st)"
  using assms by (auto simp: inodes_wf_def st_wf_def set_bg_def nth_list_update)

lemma used_set:
  assumes "n < length (st_bgs st)" and "bg_used i bg = bg_used i (st_bgs st ! n)" and "bg_first_block bg = bg_first_block (st_bgs st ! n)"
  shows "used i (set_bg n bg st) = used i st"
  using assms by (auto simp: used_def set_bg_def nth_list_update split: if_splits)

lemma used_inodes_set:
  assumes "n < length (st_bgs st)" and "inode_bits bg = insert k (inode_bits (st_bgs st ! n))"
  shows "used_inodes i (set_bg n bg st) = insert (Suc (n * unat (fi_inodes_per_group i) + k)) (used_inodes i st)"
  using assms by (auto simp: used_inodes_def set_bg_def nth_list_update split: if_splits)

text \<open>In a group with free inodes, the first free one is taken; a group without is skipped.\<close>

definition takes_inode :: "fs_info \<Rightarrow> alloc_state \<Rightarrow> nat \<Rightarrow> block_group_info \<Rightarrow> bool" where
  "takes_inode i st n bg \<longleftrightarrow> n < length (st_bgs st) \<and> bg_free_inodes (st_bgs st ! n) \<noteq> 0
     \<and> (\<forall>m < n. bg_free_inodes (st_bgs st ! m) = 0) \<and> inode_wf i bg \<and> bg_wf i bg
     \<and> bg_used i bg = bg_used i (st_bgs st ! n) \<and> bg_first_block bg = bg_first_block (st_bgs st ! n)
     \<and> unat (bg_first_free_inode bg) = Suc (unat (bg_first_free_inode (st_bgs st ! n)))"

lemma first_free_not_failed:
  assumes "inodes_wf i a st" and "n < length (st_bgs st)"
  shows "bg_first_free_inode (st_bgs st ! n) \<noteq> EXT4_ALLOCATE_FAILED"
proof
  assume "bg_first_free_inode (st_bgs st ! n) = EXT4_ALLOCATE_FAILED"
  then have "unat (bg_first_free_inode (st_bgs st ! n)) = 2 ^ 32 - 1"
    by (simp add: EXT4_ALLOCATE_FAILED_def unsigned_minus_1_eq_mask mask_eq_exp_minus_1)
  moreover have "unat (bg_first_free_inode (st_bgs st ! n)) \<le> Suc (unat (fi_inodes_per_group i))"
    "unat (fi_inodes_per_group i) < 2 ^ 30"
    using assms by (auto simp: inodes_wf_def inode_wf_def st_wf_def info_wf_def)
  ultimately show False
    by simp
qed

lemma allocate_inode_from_ok:
  assumes "inodes_wf i a st" and "n + k = length (st_bgs st)" and "\<forall>m < n. bg_free_inodes (st_bgs st ! m) = 0"
  shows "if \<forall>m < length (st_bgs st). bg_free_inodes (st_bgs st ! m) = 0 then allocate_inode_from i k n st = Inr (EXT4_ALLOCATE_FAILED, st)
    else \<exists>m bg. takes_inode i st m bg
      \<and> allocate_inode_from i k n st = Inr (of_nat m * fi_inodes_per_group i + bg_first_free_inode (st_bgs st ! m), set_bg m bg st)"
  using assms(2,3)
proof (induction k arbitrary: n)
  case (Suc k)
  then have n: "n < length (st_bgs st)"
    by simp
  show ?case
  proof (cases "bg_free_inodes (st_bgs st ! n) = 0")
    case True
    then show ?thesis
      using Suc.IH [of "Suc n"] Suc.prems n reserve_inodes_full [of n st 1] by (simp add: less_Suc_eq)
  next
    case False
    then have "1 \<le> bg_free_inodes (st_bgs st ! n)"
      by (simp add: word_le_nat_alt unat_eq_zero [symmetric] Suc_le_eq)
    then obtain bg where "reserve_inodes n 1 st = Inr (bg_first_free_inode (st_bgs st ! n), set_bg n bg st)"
      "inode_wf i bg" "bg_wf i bg" "bg_used i bg = bg_used i (st_bgs st ! n)" "bg_first_block bg = bg_first_block (st_bgs st ! n)"
      "unat (bg_first_free_inode bg) = unat (bg_first_free_inode (st_bgs st ! n)) + unat (1 :: u32)"
      by (rule reserve_inodes_ok [OF assms(1) n])
    then have "takes_inode i st n bg \<and> allocate_inode_from i (Suc k) n st =
        Inr (of_nat n * fi_inodes_per_group i + bg_first_free_inode (st_bgs st ! n), set_bg n bg st)"
      using n False Suc.prems(2) first_free_not_failed [OF assms(1) n] by (simp add: takes_inode_def)
    moreover have "\<not> (\<forall>m < length (st_bgs st). bg_free_inodes (st_bgs st ! m) = 0)"
      using n False by blast
    ultimately show ?thesis
      by auto
  qed
qed simp

text \<open>The inodes of the groups that are full are in use.\<close>

lemma used_inodes_iff:
  assumes "inodes_wf i a st" and "k < unat (fi_inodes_per_group i)"
  shows "Suc (n * unat (fi_inodes_per_group i) + k) \<in> used_inodes i st \<longleftrightarrow>
    n < length (st_bgs st) \<and> Suc k < unat (bg_first_free_inode (st_bgs st ! n))"
proof
  assume "Suc (n * unat (fi_inodes_per_group i) + k) \<in> used_inodes i st"
  then obtain m j where m: "m < length (st_bgs st)" "j \<in> inode_bits (st_bgs st ! m)"
    "n * unat (fi_inodes_per_group i) + k = m * unat (fi_inodes_per_group i) + j"
    by (auto simp: used_inodes_def)
  moreover have "inode_bits (st_bgs st ! m) = {..<unat (bg_first_free_inode (st_bgs st ! m)) - 1}"
    "unat (bg_first_free_inode (st_bgs st ! m)) \<le> Suc (unat (fi_inodes_per_group i))"
    using assms m(1) by (auto simp: inodes_wf_def inode_wf_def)
  then have "j < unat (bg_first_free_inode (st_bgs st ! m)) - 1" "j < unat (fi_inodes_per_group i)"
    using m(2) by simp_all
  moreover from this have "n = m \<and> k = j"
    using digits_unique [OF m(3) assms(2)] by blast
  ultimately show "n < length (st_bgs st) \<and> Suc k < unat (bg_first_free_inode (st_bgs st ! n))"
    by auto
next
  assume n: "n < length (st_bgs st) \<and> Suc k < unat (bg_first_free_inode (st_bgs st ! n))"
  then have "k \<in> inode_bits (st_bgs st ! n)"
    using assms by (auto simp: inodes_wf_def inode_wf_def)
  then show "Suc (n * unat (fi_inodes_per_group i) + k) \<in> used_inodes i st"
    using n by (auto simp: used_inodes_def)
qed

lemma inode_number_cases:
  assumes "inodes_wf i a st" and "0 < x"
  obtains n k where "x = Suc (n * unat (fi_inodes_per_group i) + k)" and "k < unat (fi_inodes_per_group i)"
proof (rule that)
  let ?q = "unat (fi_inodes_per_group i)"
  show "x = Suc ((x - 1) div ?q * ?q + (x - 1) mod ?q)"
    using assms(2) by simp
  show "(x - 1) mod ?q < ?q"
    using assms(1) by (simp add: inodes_wf_def)
qed

lemma full_group:
  assumes "inodes_wf i a st" and "n < length (st_bgs st)"
  shows "bg_free_inodes (st_bgs st ! n) = 0 \<longleftrightarrow> unat (bg_first_free_inode (st_bgs st ! n)) = Suc (unat (fi_inodes_per_group i))"
proof -
  have "unat (bg_first_free_inode (st_bgs st ! n)) + unat (bg_free_inodes (st_bgs st ! n)) = Suc (unat (fi_inodes_per_group i))"
    using assms by (simp add: inodes_wf_def inode_wf_def)
  then show ?thesis
    by (metis add_cancel_right_right unat_eq_zero)
qed

lemma used_inodes_full:
  assumes "inodes_wf i a st"
  shows "used_inodes i st = {1..length (st_bgs st) * unat (fi_inodes_per_group i)} \<longleftrightarrow>
    (\<forall>n < length (st_bgs st). bg_free_inodes (st_bgs st ! n) = 0)" (is "?u = {1..?N * ?q} \<longleftrightarrow> ?full")
proof
  assume u: "?u = {1..?N * ?q}"
  show ?full
  proof (intro allI impI)
    fix n
    assume n: "n < ?N"
    have q: "0 < ?q" "unat (bg_first_free_inode (st_bgs st ! n)) \<le> Suc ?q"
      using assms n by (auto simp: inodes_wf_def inode_wf_def)
    have "n * ?q + ?q \<le> ?N * ?q"
      using mult_le_mono1 [of "Suc n" ?N ?q] n by simp
    then have "Suc (n * ?q + (?q - 1)) \<in> ?u"
      using q(1) unfolding u by auto
    then have "Suc (?q - 1) < unat (bg_first_free_inode (st_bgs st ! n))"
      using q(1) by (subst (asm) used_inodes_iff [OF assms]) simp_all
    then show "bg_free_inodes (st_bgs st ! n) = 0"
      using q full_group [OF assms n] by simp
  qed
next
  assume full: ?full
  have "x \<in> ?u \<longleftrightarrow> x \<in> {1..?N * ?q}" for x
  proof (cases "x = 0")
    case True
    then show ?thesis
      by (auto simp: used_inodes_def)
  next
    case False
    then obtain n k where x: "x = Suc (n * ?q + k)" "k < ?q"
      using inode_number_cases [OF assms, of x] by auto
    have "n < ?N \<longleftrightarrow> x \<le> ?N * ?q"
    proof (cases "n < ?N")
      case True
      then show ?thesis
        using mult_le_mono1 [of "Suc n" ?N ?q] x by simp
    next
      case f: False
      then have "?N * ?q \<le> n * ?q"
        by (intro mult_le_mono1) simp
      then show ?thesis
        using f x by linarith
    qed
    then show ?thesis
      using used_inodes_iff [OF assms x(2), of n] full_group [OF assms, of n] full x by auto
  qed
  then show "?u = {1..?N * ?q}"
    by blast
qed

lemma takes_inode_number:
  assumes "inodes_wf i a st" and "takes_inode i st m bg"
  defines "r \<equiv> of_nat m * fi_inodes_per_group i + bg_first_free_inode (st_bgs st ! m)"
  shows "unat r = Suc (m * unat (fi_inodes_per_group i) + (unat (bg_first_free_inode (st_bgs st ! m)) - 1))"
    and "unat r \<le> length (st_bgs st) * unat (fi_inodes_per_group i)" and "unat r \<notin> used_inodes i st"
proof -
  let ?N = "length (st_bgs st)" and ?q = "unat (fi_inodes_per_group i)" and ?f = "unat (bg_first_free_inode (st_bgs st ! m))"
  have m: "m < ?N" "?f \<noteq> Suc ?q"
    using assms(2) full_group [OF assms(1)] by (auto simp: takes_inode_def)
  have f: "0 < ?f" "?f \<le> ?q" and N: "?N * ?q < 2 ^ 32 - 1"
    using assms(1) m by (auto simp: inodes_wf_def inode_wf_def)
  have le: "m * ?q + ?q \<le> ?N * ?q"
    using mult_le_mono1 [of "Suc m" ?N ?q] m(1) by simp
  then have "m * ?q + ?f < 2 ^ 32"
    using f(2) N by simp
  moreover have "r = of_nat (m * ?q + ?f)"
    by (simp add: r_def)
  ultimately have r: "unat r = m * ?q + ?f"
    by (metis unat_of_nat_u32)
  then show r': "unat r = Suc (m * ?q + (?f - 1))" and "unat r \<le> ?N * ?q"
    using f le by simp_all
  show "unat r \<notin> used_inodes i st"
    unfolding r' using f by (subst used_inodes_iff [OF assms(1)]) simp_all
qed

lemma takes_inode_below:
  assumes "inodes_wf i a st" and "takes_inode i st m bg" and "0 < x"
    and "x < Suc (m * unat (fi_inodes_per_group i) + (unat (bg_first_free_inode (st_bgs st ! m)) - 1))"
  shows "x \<in> used_inodes i st"
proof -
  let ?N = "length (st_bgs st)" and ?q = "unat (fi_inodes_per_group i)" and ?f = "unat (bg_first_free_inode (st_bgs st ! m))"
  obtain n k where nk: "x = Suc (n * ?q + k)" "k < ?q"
    using inode_number_cases [OF assms(1,3)] by auto
  have m: "m < ?N" "?f \<le> Suc ?q"
    using assms(1,2) by (auto simp: takes_inode_def inodes_wf_def inode_wf_def)
  have "n \<le> m"
  proof (rule ccontr)
    assume "\<not> n \<le> m"
    then have "m * ?q + ?q \<le> n * ?q"
      using mult_le_mono1 [of "Suc m" n ?q] by simp
    then show False
      using assms(4) nk m by simp
  qed
  show ?thesis
  proof (cases "n = m")
    case True
    then show ?thesis
      using assms(4) nk m used_inodes_iff [OF assms(1) nk(2), of m] by simp
  next
    case False
    then have "bg_free_inodes (st_bgs st ! n) = 0" "n < ?N"
      using \<open>n \<le> m\<close> assms(2) m by (auto simp: takes_inode_def)
    then show ?thesis
      using full_group [OF assms(1), of n] nk used_inodes_iff [OF assms(1) nk(2), of n] by simp
  qed
qed

lemma allocate_inode_full:
  assumes "inodes_wf i a st" and "used_inodes i st = {1..length (st_bgs st) * unat (fi_inodes_per_group i)}"
  shows "allocate_inode i st = Inr (EXT4_ALLOCATE_FAILED, st)"
  using allocate_inode_from_ok [OF assms(1), of 0 "length (st_bgs st)"] used_inodes_full [OF assms(1)] assms(2)
  by (simp add: allocate_inode_def)

lemma allocate_inode_ok:
  assumes "inodes_wf i a st" and "used_inodes i st \<noteq> {1..length (st_bgs st) * unat (fi_inodes_per_group i)}"
  obtains r st' where "allocate_inode i st = Inr (r, st')" and "0 < unat r" and "unat r \<le> length (st_bgs st) * unat (fi_inodes_per_group i)"
    and "unat r \<notin> used_inodes i st" and "{1..<unat r} \<subseteq> used_inodes i st" and "used_inodes i st' = insert (unat r) (used_inodes i st)"
    and "inodes_wf i a st'" and "used i st' = used i st"
proof -
  have n: "\<not> (\<forall>m < length (st_bgs st). bg_free_inodes (st_bgs st ! m) = 0)"
    using used_inodes_full [OF assms(1)] assms(2) by blast
  have none: "\<forall>m < 0. bg_free_inodes (st_bgs st ! m) = 0"
    by simp
  obtain m bg where t: "takes_inode i st m bg" and run: "allocate_inode i st =
      Inr (of_nat m * fi_inodes_per_group i + bg_first_free_inode (st_bgs st ! m), set_bg m bg st)"
    using allocate_inode_from_ok [OF assms(1) add_0 none, folded allocate_inode_def] unfolding if_not_P [OF n] by blast
  let ?r = "of_nat m * fi_inodes_per_group i + bg_first_free_inode (st_bgs st ! m)"
  note r = takes_inode_number [OF assms(1) t]
  have pos: "0 < unat ?r" and sub: "{1..<unat ?r} \<subseteq> used_inodes i st"
    unfolding r(1) using takes_inode_below [OF assms(1) t] by auto
  have m: "m < length (st_bgs st)" "inode_wf i (st_bgs st ! m)"
    using assms(1) t by (auto simp: takes_inode_def inodes_wf_def)
  then have "inode_bits bg = insert (unat (bg_first_free_inode (st_bgs st ! m)) - 1) (inode_bits (st_bgs st ! m))"
    using t by (auto simp: takes_inode_def inode_wf_def)
  from used_inodes_set [OF m(1) this] have u: "used_inodes i (set_bg m bg st) = insert (unat ?r) (used_inodes i st)"
    unfolding r(1) .
  have "inodes_wf i a (set_bg m bg st)" "used i (set_bg m bg st) = used i st"
    using t inodes_wf_set [OF assms(1) m(1)] used_set [OF m(1)] by (auto simp: takes_inode_def)
  from that [OF run pos r(2,3) sub u this] show thesis .
qed

section \<open>The groups at the start\<close>

definition inode_fields :: "block_group_info \<Rightarrow> u32 \<times> u32 \<times> nat" where
  "inode_fields bg = (bg_first_free_inode bg, bg_free_inodes bg, bg_inode_bitmap bg)"

lemma reserve_blocks_inode_fields: "reserve_blocks force bg start num = Inr (ret, bg') \<Longrightarrow> inode_fields bg' = inode_fields bg"
  by (auto simp: reserve_blocks_def inode_fields_def rbind_def error_def Let_def split: sum.splits prod.splits if_splits)

lemma reserve_bg_chunk_inode_fields: "reserve_bg_chunk n bg start len = Inr bg' \<Longrightarrow> inode_fields bg' = inode_fields bg"
  by (auto simp: reserve_bg_chunk_def inode_fields_def rbind_def error_def Let_def split: sum.splits prod.splits if_splits)

lemma init_bg_inode_fields:
  assumes "init_bg force i a n = Inr (bg, block)"
  shows "inode_fields bg = (1, fi_inodes_per_group i, unat (fi_block_size i))"
  using assms unfolding init_bg_def Let_def
  by (auto simp: rbind_def error_def dest!: reserve_blocks_inode_fields reserve_bg_chunk_inode_fields split: sum.splits prod.splits if_splits)
    (simp_all add: inode_fields_def)

text \<open>What \<open>init_bg\<close> leaves of group \<open>n\<close>: exactly its header and the blocks beyond the end of the image are marked, and
  one hole reaches from the header to the end, without the last block of a full group.\<close>

definition group_started :: "fs_info \<Rightarrow> fs_aux_info \<Rightarrow> nat \<Rightarrow> block_group_info \<Rightarrow> bool" where
  "group_started i a n bg \<longleftrightarrow> unat (bg_first_block bg) = group_start i a (of_nat n)
     \<and> bits_of (bg_bitmaps bg) = {..<bg_header_size i a (of_nat n)} \<union> {group_size i a (of_nat n)..<unat (fi_blocks_per_group i)}
     \<and> holes (bg_chunks bg) = [(bg_header_size i a (of_nat n), min (group_size i a (of_nat n)) (unat (fi_blocks_per_group i) - 1))]"

lemma init_groups_ok:
  assumes i: "info_wf i" and k: "unat (ai_first_data_block a) + k * unat (fi_blocks_per_group i) < 2 ^ 32"
    and size: "\<And>n. n < k \<Longrightarrow> bg_header_size i a (of_nat n) < group_size i a (of_nat n)" and st: "st_bgs st = []"
  shows "\<exists>st'. init_groups force i a k st = Inr st' \<and> st_wf i a st' \<and> length (st_bgs st') = k \<and> st_heap st' = st_heap st
    \<and> (\<forall>n < k. inode_fields (st_bgs st' ! n) = (1, fi_inodes_per_group i, unat (fi_block_size i)) \<and> inode_bits (st_bgs st' ! n) = {})
    \<and> (\<forall>n < k. group_started i a n (st_bgs st' ! n))
    \<and> room st' = (\<Sum>n<k. min (group_size i a (of_nat n)) (unat (fi_blocks_per_group i) - 1) - bg_header_size i a (of_nat n))"
  using k size
proof (induction k)
  case 0
  then show ?case
    using i st by (auto simp: st_wf_def room_def)
next
  case (Suc k)
  let ?n = "of_nat k :: u32" and ?bpg = "unat (fi_blocks_per_group i)"
  have k: "unat (ai_first_data_block a) + k * ?bpg < 2 ^ 32"
    using Suc.prems(1) by simp
  have "k < 2 ^ 32"
    using Suc.prems(1) i by (auto simp: info_wf_def dest!: Nat.gr0_implies_Suc)
  then have n: "group_start i a ?n = unat (ai_first_data_block a) + k * ?bpg"
    by (simp add: group_start_def unat_of_nat_u32)
  obtain st1 where 1: "init_groups force i a k st = Inr st1" "st_wf i a st1" "length (st_bgs st1) = k" "st_heap st1 = st_heap st"
    "\<forall>n < k. inode_fields (st_bgs st1 ! n) = (1, fi_inodes_per_group i, unat (fi_block_size i)) \<and> inode_bits (st_bgs st1 ! n) = {}"
    "\<forall>n < k. group_started i a n (st_bgs st1 ! n)"
    "room st1 = (\<Sum>n<k. min (group_size i a (of_nat n)) (?bpg - 1) - bg_header_size i a (of_nat n))"
    using Suc.IH [OF k] Suc.prems(2) by auto
  have s: "bg_header_size i a ?n < group_size i a ?n"
    by (rule Suc.prems(2)) simp
  obtain bg block where 2: "init_bg force i a ?n = Inr (bg, block)" "bg_wf i bg" "unat (bg_first_block bg) = group_start i a ?n"
    "holes (bg_chunks bg) = [(bg_header_size i a ?n, min (group_size i a ?n) (?bpg - 1))]"
    "bits_of (bg_bitmaps bg) = {..<bg_header_size i a ?n} \<union> {group_size i a ?n..<?bpg}"
    by (rule init_bg_ok [OF i s, of force]) (use Suc.prems(1) n in simp)
  have f: "inode_fields bg = (1, fi_inodes_per_group i, unat (fi_block_size i))"
    by (rule init_bg_inode_fields [OF 2(1)])
  have "bg_header_size i a ?n \<le> ?bpg" "?bpg \<le> 8 * unat (fi_block_size i)"
    using s i by (auto simp: group_size_def info_wf_def)
  then have "inode_bits bg = {}"
    using f 2(5) by (auto simp: inode_bits_def inode_fields_def)
  moreover have "group_started i a k bg"
    using 2(3-5) by (simp add: group_started_def)
  ultimately show ?case
    using 1 2(1-4) f n Suc.prems(1)
    by (auto simp: sparse_file_add_def st_wf_def room_def group_room_def less_Suc_eq nth_append)
qed

lemma inode_wf_start:
  assumes "inode_fields bg = (1, fi_inodes_per_group i, n)" and "inode_bits bg = {}"
  shows "inode_wf i bg"
  using assms by (simp add: inode_wf_def inode_fields_def)

lemma block_allocator_init_gives:
  assumes i: "info_wf i" and k: "unat (ai_first_data_block a) + unat (ai_groups a) * unat (fi_blocks_per_group i) < 2 ^ 32"
    and q: "0 < unat (fi_inodes_per_group i)" "unat (fi_inodes_per_group i) \<le> 8 * unat (fi_block_size i)"
      "unat (ai_groups a) * unat (fi_inodes_per_group i) < 2 ^ 32 - 1"
    and size: "\<And>n. n < unat (ai_groups a) \<Longrightarrow> bg_header_size i a (of_nat n) < group_size i a (of_nat n)"
  obtains st' where "block_allocator_init force i a st = Inr st'" and "inodes_wf i a st'" and "length (st_bgs st') = unat (ai_groups a)"
    and "st_heap st' = st_heap st" and "used_inodes i st' = {}"
    and "\<forall>n < unat (ai_groups a). group_started i a n (st_bgs st' ! n)"
    and "room st' = (\<Sum>n<unat (ai_groups a). min (group_size i a (of_nat n)) (unat (fi_blocks_per_group i) - 1) - bg_header_size i a (of_nat n))"
proof -
  obtain st' where st': "init_groups force i a (unat (ai_groups a)) (st\<lparr>st_bgs := []\<rparr>) = Inr st'" "st_wf i a st'"
    "length (st_bgs st') = unat (ai_groups a)" "st_heap st' = st_heap st"
    "\<forall>n < unat (ai_groups a). inode_fields (st_bgs st' ! n) = (1, fi_inodes_per_group i, unat (fi_block_size i)) \<and> inode_bits (st_bgs st' ! n) = {}"
    "\<forall>n < unat (ai_groups a). group_started i a n (st_bgs st' ! n)"
    "room st' = (\<Sum>n<unat (ai_groups a). min (group_size i a (of_nat n)) (unat (fi_blocks_per_group i) - 1) - bg_header_size i a (of_nat n))"
    using init_groups_ok [OF i k size, of "st\<lparr>st_bgs := []\<rparr>" force] by auto
  have "inodes_wf i a st'" "used_inodes i st' = {}"
    using st' q inode_wf_start by (auto simp: inodes_wf_def used_inodes_def)
  with st' show thesis
    by (intro that [of st']) (simp_all add: block_allocator_init_def)
qed

end
