(* ===== verification/Ext4_Properties.thy ===== *)
theory Ext4_Properties
  imports Inode_Allocation
begin

text \<open>
  The properties of the ext4 allocator: backup superblocks, the bitmap and the layout of a block group,
  and the region lists of an allocation. The example group and heap at the start serve the witnesses.
\<close>

definition ex_info :: fs_info where
  "ex_info = \<lparr>fi_len = 6400, fi_block_size = 16, fi_blocks_per_group = 100,
     fi_flash_erase_block_size = 0, fi_flash_logical_block_size = 0, fi_inodes_per_group = 8, fi_inode_size = 2,
     fi_inodes = 32, fi_journal_blocks = 0, fi_feat_ro_compat = 0, fi_feat_compat = 0, fi_feat_incompat = 0,
     fi_bg_desc_reserve_blocks = 1, fi_label = None, fi_no_journal = 0, fi_block_device = False\<rparr>"

definition ex_aux :: fs_aux_info where
  "ex_aux = \<lparr>ai_first_data_block = 1, ai_len_blocks = 350, ai_inode_table_blocks = 1, ai_groups = 4,
     ai_bg_desc_blocks = 2, ai_default_i_flags = 0, ai_blocks_per_ind = 4, ai_blocks_per_dind = 16, ai_blocks_per_tind = 256\<rparr>"

definition ex_bg :: block_group_info where
  "ex_bg = \<lparr>bg_first_block = 1, bg_header_blocks = 7, bg_data_blocks_used = 0, bg_has_superblock = True,
     bg_bitmaps = 0x7F # replicate 31 0, bg_inode_bitmap = 16, bg_inode_table = None, bg_free_blocks = 93,
     bg_free_inodes = 8, bg_first_free_inode = 1, bg_flags = 1, bg_used_dirs = 0, bg_max_chunk_count = 2,
     bg_chunks = [\<lparr>c_block = 7, c_len = 0, c_bg = 0\<rparr>, \<lparr>c_block = 99, c_len = 0, c_bg = 0\<rparr>]\<rparr>"

definition ex_heap :: heap where
  "ex_heap = [Some \<lparr>r_block = 10, r_len = 3, r_bg = 0, r_next = Some 1, r_prev = None\<rparr>,
     Some \<lparr>r_block = 50, r_len = 2, r_bg = 0, r_next = None, r_prev = Some 0\<rparr>]"

definition ex_alloc :: block_allocation where
  "ex_alloc = create_allocation\<lparr>ba_list := \<lparr>rl_first = Some 0, rl_last = Some 1, rl_iter = Some 0, rl_partial_iter = 0\<rparr>\<rparr>"

lemma ex_heap_wf: "list_wf ex_heap (ba_list ex_alloc) [0, 1]" "list_wf ex_heap (ba_oob_list ex_alloc) []"
  by (simp_all add: list_wf_def ex_heap_def ex_alloc_def live_def cell_def create_allocation_def empty_list_def)

lemma ex_alloc_iter: "rl_iter (ba_list ex_alloc) = Some 0" "rl_partial_iter (ba_list ex_alloc) = 0"
  by (simp_all add: ex_alloc_def)

lemma ex_heap_len: "r_len (cell ex_heap 0) = 3" "r_len (cell ex_heap 1) = 2"
  by (simp_all add: ex_heap_def cell_def)

section \<open>Block groups\<close>

text \<open>C17 Backup superblocks: \<open>ext4_bg_has_super_block\<close> returns for every block group (the loop of
  \<open>is_power_of\<close> ends), and the answer is yes exactly when the feature sparse_super is off, for groups 0 and 1,
  and for the powers of 3, 5 and 7.\<close>

theorem has_super_block_iff:
  "ext4_bg_has_super_block i bg = Inr (if bit (fi_feat_ro_compat i) 0
     then sint bg = 0 \<or> (\<exists>k. sint bg = 3 ^ k) \<or> (\<exists>k. sint bg = 5 ^ k) \<or> (\<exists>k. sint bg = 7 ^ k) else True)"
  by (simp add: ext4_bg_has_super_block_eq backup_group_def)

text \<open>C4 Reserving blocks: for a range inside the bitmap, \<open>reserve_blocks\<close> (which fills whole bytes in the
  middle) succeeds exactly when every block of the range was free. It then sets the bits of the range and no
  other bit, and takes the blocks off the counter. Otherwise it reports an error, the counter is unchanged, and the bits it
  changed lie in the range.\<close>

theorem reserve_blocks_range:
  assumes "unat start + unat num \<le> 8 * length (bg_bitmaps bg)" and "8 * length (bg_bitmaps bg) < 2 ^ 31"
  shows "\<exists>bm. length bm = length (bg_bitmaps bg) \<and>
    (if bits_of (bg_bitmaps bg) \<inter> {unat start..<unat start + unat num} = {}
     then bits_of bm = bits_of (bg_bitmaps bg) \<union> {unat start..<unat start + unat num}
       \<and> reserve_blocks force bg start num = Inr (0, bg\<lparr>bg_bitmaps := bm, bg_free_blocks := bg_free_blocks bg - num\<rparr>)
     else bits_of (bg_bitmaps bg) \<subseteq> bits_of bm \<and> bits_of bm \<subseteq> bits_of (bg_bitmaps bg) \<union> {unat start..<unat start + unat num}
       \<and> reserve_blocks force bg start num = error force (-1, bg\<lparr>bg_bitmaps := bm\<rparr>))"
proof -
  obtain failed bm where "reserve_blocks force bg start num =
      (if failed then error force (-1, bg\<lparr>bg_bitmaps := bm\<rparr>)
       else Inr (0, bg\<lparr>bg_bitmaps := bm, bg_free_blocks := bg_free_blocks bg - num\<rparr>))"
    and "length bm = length (bg_bitmaps bg)"
    and "bits_of (bg_bitmaps bg) \<subseteq> bits_of bm" "bits_of bm \<subseteq> bits_of (bg_bitmaps bg) \<union> {unat start..<unat start + unat num}"
    and "if failed then bits_of (bg_bitmaps bg) \<inter> {unat start..<unat start + unat num} \<noteq> {}
      else bits_of (bg_bitmaps bg) \<inter> {unat start..<unat start + unat num} = {}
        \<and> bits_of bm = bits_of (bg_bitmaps bg) \<union> {unat start..<unat start + unat num}"
    by (rule reserve_blocks_cases [OF refl assms])
  then show ?thesis
    by (intro exI [of _ bm]) (auto split: if_splits)
qed

theorem reserve_blocks_range_witness:
  "\<exists>bm. length bm = 32 \<and> bits_of bm = bits_of (bg_bitmaps ex_bg) \<union> {20..<50}
    \<and> reserve_blocks False ex_bg 20 30 = Inr (0, ex_bg\<lparr>bg_bitmaps := bm, bg_free_blocks := 63\<rparr>)"
proof -
  have len: "length (bg_bitmaps ex_bg) = 32" and free: "bg_free_blocks ex_bg - 30 = 63"
    by (simp_all add: ex_bg_def)
  have "bits_of (bg_bitmaps ex_bg) \<inter> {20..<50} = {}"
    by (auto simp: bits_of_def ex_bg_def nth_Cons')
  then show ?thesis
    using reserve_blocks_range [of 20 30 ex_bg False] unfolding len free by simp
qed

text \<open>C10 The layout of a new block group: when the header is smaller than the group, \<open>init_bg\<close> succeeds, with
  or without \<^verbatim>\<open>force\<close>. The group satisfies the invariant of the allocator (chunks in order, free holes between them, a free
  counter that agrees with the bitmap); exactly the header and the blocks beyond the end of the image are marked; and there is
  one hole, from the header to the end of the group, which leaves out the last block of a full group.\<close>

theorem init_bg_layout:
  assumes "info_wf i" and "bg_header_size i a n < group_size i a n"
    and "group_start i a n + unat (fi_blocks_per_group i) < 2 ^ 32"
  shows "\<exists>bg block. init_bg force i a n = Inr (bg, block) \<and> bg_wf i bg
    \<and> unat (bg_first_block bg) = group_start i a n
    \<and> bits_of (bg_bitmaps bg) = {..<bg_header_size i a n} \<union> {group_size i a n..<unat (fi_blocks_per_group i)}
    \<and> holes (bg_chunks bg) = [(bg_header_size i a n, min (group_size i a n) (unat (fi_blocks_per_group i) - 1))]"
  using init_bg_ok [OF assms, of force] by metis

theorem init_bg_layout_witness:
  "\<exists>bg block. init_bg False ex_info ex_aux 3 = Inr (bg, block) \<and> bg_wf ex_info bg
    \<and> unat (bg_first_block bg) = 301 \<and> bits_of (bg_bitmaps bg) = {..<7} \<union> {49..<100}
    \<and> holes (bg_chunks bg) = [(7, 49)]"
proof -
  have "bg_header_size ex_info ex_aux 3 = 7" "group_start ex_info ex_aux 3 = 301" "group_size ex_info ex_aux 3 = 49"
    by (simp_all add: bg_header_size_def group_start_def group_size_def backup_group_def ex_info_def ex_aux_def)
  moreover have "info_wf ex_info" "unat (fi_blocks_per_group ex_info) = 100"
    by (simp_all add: info_wf_def ex_info_def)
  ultimately show ?thesis
    using init_bg_layout [of ex_info ex_aux 3 False] by simp
qed

section \<open>Region lists\<close>

text \<open>C12 The blocks of an allocation: over a list of regions that ends in NULL, \<open>get_block\<close> from its start
  returns the \<open>k\<close>-th block of the concatenated regions, and EXT4_ALLOCATE_FAILED beyond the end;
  \<open>block_allocation_len\<close> and \<open>block_allocation_num_regions\<close> return the number of blocks and of regions.\<close>

theorem allocation_blocks:
  assumes "list_wf h (ba_list al) as" and "rl_iter (ba_list al) = rl_first (ba_list al)" and "rl_partial_iter (ba_list al) = 0"
  shows "get_block h al k = Inr (if unat k < length (blocks h as) then blocks h as ! unat k else EXT4_ALLOCATE_FAILED)
    \<and> block_allocation_len h al = Inr (of_nat (length (blocks h as)))
    \<and> block_allocation_num_regions h al = Inr (of_nat (length as))"
  using get_block_ok [of h al as k] block_allocation_len_ok [of h al as] block_allocation_num_regions_ok [of h al as]
    list_wf_path [OF assms(1)] assms(2,3) by simp_all

theorem allocation_blocks_witness:
  "get_block ex_heap ex_alloc 3 = Inr 50 \<and> block_allocation_len ex_heap ex_alloc = Inr 5
    \<and> block_allocation_num_regions ex_heap ex_alloc = Inr 2"
proof -
  have "blocks ex_heap [0, 1] = [10, 11, 12, 50, 51]"
    by (simp add: region_blocks_def ex_heap_def cell_def upt_rec)
  moreover have "rl_iter (ba_list ex_alloc) = rl_first (ba_list ex_alloc)"
    by (simp add: ex_alloc_def)
  ultimately show ?thesis
    using allocation_blocks [OF ex_heap_wf(1), of 3] ex_alloc_iter by simp
qed

text \<open>C15 Reserving out-of-band blocks inside a region: when fewer blocks are asked for than the first region of the
  allocation has, \<open>reserve_oob_blocks\<close> succeeds, the blocks move from the start of the main list to the end of
  the out-of-band list, in order, and no block is lost or duplicated.\<close>

theorem reserve_oob_blocks_moves:
  assumes "list_wf h (ba_list al) (a # as)" and "list_wf h (ba_oob_list al) bs" and "set (a # as) \<inter> set bs = {}"
    and "rl_iter (ba_list al) = Some a" and "rl_partial_iter (ba_list al) = 0" and "0 < n" and "n < r_len (cell h a)"
  shows "\<exists>al' h' as' bs'. reserve_oob_blocks al n h = Inr (0, al', h')
    \<and> path h' (rl_first (ba_list al')) as' None \<and> rl_iter (ba_list al') = rl_first (ba_list al')
    \<and> list_wf h' (ba_oob_list al') bs'
    \<and> blocks h' as' = drop (unat n) (blocks h (a # as)) \<and> blocks h' bs' = blocks h bs @ take (unat n) (blocks h (a # as))"
  by (rule reserve_oob_within [OF assms]) metis

theorem reserve_oob_blocks_moves_witness:
  "\<exists>al' h' as' bs'. reserve_oob_blocks ex_alloc 1 ex_heap = Inr (0, al', h')
    \<and> path h' (rl_first (ba_list al')) as' None \<and> rl_iter (ba_list al') = rl_first (ba_list al')
    \<and> list_wf h' (ba_oob_list al') bs'
    \<and> blocks h' as' = drop 1 (blocks ex_heap [0, 1]) \<and> blocks h' bs' = blocks ex_heap [] @ take 1 (blocks ex_heap [0, 1])"
  using reserve_oob_blocks_moves [OF ex_heap_wf(1) ex_heap_wf(2) _ ex_alloc_iter, of 1] ex_heap_len
  by (simp del: blocks_simps)

text \<open>C32 Out-of-band blocks at a region boundary: when exactly the blocks of the first region are asked for,
  \<open>reserve_oob_blocks\<close> keeps that region in the main list and moves all the other regions to the
  out-of-band list. The main list is left with the blocks that should have moved.\<close>

theorem reserve_oob_blocks_boundary:
  assumes "list_wf h (ba_list al) (a # b # as)" and "list_wf h (ba_oob_list al) bs" and "set (a # b # as) \<inter> set bs = {}"
    and "rl_iter (ba_list al) = Some a" and "rl_partial_iter (ba_list al) = 0"
    and "0 < r_len (cell h a)" and "0 < r_len (cell h b)"
  shows "\<exists>al' h'. reserve_oob_blocks al (r_len (cell h a)) h = Inr (0, al', h')
    \<and> list_wf h' (ba_list al') [a] \<and> list_wf h' (ba_oob_list al') (bs @ b # as) \<and> same_data h h'"
  by (rule reserve_oob_boundary [OF assms]) metis

theorem reserve_oob_blocks_boundary_witness:
  "\<exists>al' h'. reserve_oob_blocks ex_alloc 3 ex_heap = Inr (0, al', h')
    \<and> list_wf h' (ba_list al') [0] \<and> list_wf h' (ba_oob_list al') [1] \<and> same_data ex_heap h'"
  using reserve_oob_blocks_boundary [OF ex_heap_wf(1) ex_heap_wf(2) _ ex_alloc_iter] ex_heap_len by simp

text \<open>C34 Advancing over a region: advancing the main list by exactly the blocks of its current region
  reports success and leaves the allocation as it was, so that the next \<open>get_block\<close> starts at the same block again.\<close>

theorem advance_blocks_stays:
  assumes "live h a" and "rl_iter (ba_list al) = Some a" and "rl_partial_iter (ba_list al) = 0"
    and "0 < sint (r_len (cell h a))"
  shows "advance_blocks h al (r_len (cell h a)) = Inr (0, al)"
proof -
  have "advance_loop h None 0 0 = Some (Inr (0, 0))" for h
    by (subst advance_loop.simps) simp
  moreover have "advance_loop h p 0 0 = Some (Inr (0, 0))" for p
    by (subst advance_loop.simps) simp
  ultimately have "advance_loop h (Some a) 0 (r_len (cell h a)) = Some (Inr (0, 0))"
    using assms(1,4) by (subst advance_loop.simps) simp
  moreover have "(ba_list al)\<lparr>rl_partial_iter := 0\<rparr> = ba_list al"
    using assms(3) by simp
  ultimately show ?thesis
    using assms(2,3) by (simp add: advance_blocks_def advance_list_ptr_def)
qed

theorem advance_blocks_stays_witness: "advance_blocks ex_heap ex_alloc 3 = Inr (0, ex_alloc)"
  using advance_blocks_stays [of ex_heap 0 ex_alloc] ex_alloc_iter ex_heap_len by (simp add: ex_heap_def live_def)

text \<open>C16 Releasing an allocation: \<open>free_alloc\<close> returns and makes no access to a freed region; afterwards the regions
  of the two lists are free, and every other region is still allocated and unchanged.\<close>

theorem free_alloc_safe:
  assumes "list_wf h (ba_list al) as" and "list_wf h (ba_oob_list al) bs" and "set as \<inter> set bs = {}"
  shows "\<exists>h'. free_alloc al h = Inr h' \<and> (\<forall>b. live h' b \<longleftrightarrow> live h b \<and> b \<notin> set as \<union> set bs)
    \<and> (\<forall>b. live h' b \<longrightarrow> cell h' b = cell h b)"
  by (rule free_alloc_ok [OF list_wf_path [OF assms(1)] list_wf_path [OF assms(2)] assms(3)]) metis

theorem free_alloc_safe_witness:
  "\<exists>h'. free_alloc ex_alloc ex_heap = Inr h' \<and> (\<forall>b. live h' b \<longleftrightarrow> live ex_heap b \<and> b \<notin> {0, 1})
    \<and> (\<forall>b. live h' b \<longrightarrow> cell h' b = cell ex_heap b)"
  using free_alloc_safe [OF ex_heap_wf] by simp

end
