(* ===== verification/Allocation_Properties.thy ===== *)
theory Allocation_Properties
  imports Ext4_Properties
begin

text \<open>
  The properties of the allocator as a whole: blocks and inodes given out by \<^verbatim>\<open>allocate.c\<close>, starting from the groups
  that \<open>block_allocator_init\<close> creates.
\<close>

definition ex_start :: alloc_state where
  "ex_start = \<lparr>st_bgs = [], st_heap = [], st_sparse = []\<rparr>"

lemma ex_sizes:
  "info_wf ex_info" "unat (ai_groups ex_aux) = 4" "unat (fi_blocks_per_group ex_info) = 100" "unat (fi_inodes_per_group ex_info) = 8"
  "unat (fi_block_size ex_info) = 16" "unat (ai_first_data_block ex_aux) = 1"
  by (simp_all add: info_wf_def ex_info_def ex_aux_def)

lemma ex_groups: "bg_header_size ex_info ex_aux n = 7"
  "group_size ex_info ex_aux 0 = 100" "group_size ex_info ex_aux 1 = 100" "group_size ex_info ex_aux 2 = 100" "group_size ex_info ex_aux 3 = 49"
  by (simp_all add: bg_header_size_def group_start_def group_size_def backup_group_def ex_info_def ex_aux_def)

lemma ex_groups_fit: "n < 4 \<Longrightarrow> bg_header_size ex_info ex_aux (of_nat n) < group_size ex_info ex_aux (of_nat n)"
  by (auto simp: less_Suc_eq numeral_eq_Suc ex_groups [unfolded numeral_eq_Suc, simplified] ex_groups)

lemma ex_room: "(\<Sum>n<4. min (group_size ex_info ex_aux (of_nat n)) (100 - 1) - bg_header_size ex_info ex_aux (of_nat n)) = 318"
  by (simp add: numeral_eq_Suc lessThan_Suc ex_groups [unfolded numeral_eq_Suc, simplified] ex_groups)

lemma ex_state:
  obtains st where "block_allocator_init False ex_info ex_aux ex_start = Inr st" and "inodes_wf ex_info ex_aux st"
    and "length (st_bgs st) = 4" and "used_inodes ex_info st = {}" and "room st = 318" and "st_heap st = []"
  by (rule block_allocator_init_gives [of ex_info ex_aux False ex_start])
    (use ex_sizes ex_groups_fit ex_room in \<open>simp_all add: ex_start_def\<close>)

lemma inodes_wf_st_wf: "inodes_wf i a st \<Longrightarrow> st_wf i a st"
  by (simp add: inodes_wf_def)

section \<open>Blocks\<close>

text \<open>C1 Allocating blocks: when the holes between the chunks hold enough blocks, \<open>allocate_blocks\<close> returns, with an allocation
  whose regions hold exactly \<open>len\<close> different blocks, none of which was in use before. These blocks, and no others, are in
  use afterwards, the invariant of the allocator holds, the regions of earlier allocations are untouched, and there are \<open>len\<close>
  fewer blocks left. A request for no blocks is not covered: there \<open>allocate_blocks\<close> finds no region and returns NULL. The loop that collects regions and the one that looks for the last of them both end.\<close>

theorem allocate_blocks_ok:
  assumes "st_wf i a st" and "0 < len" and "unat len \<le> room st"
  shows "\<exists>al st' as. allocate_blocks force len st = Inr (Some al, st') \<and> list_wf (st_heap st') (ba_list al) as
    \<and> rl_iter (ba_list al) = rl_first (ba_list al) \<and> rl_partial_iter (ba_list al) = 0
    \<and> st_wf i a st' \<and> fresh_blocks i st st' as (unat len) \<and> room st' + unat len = room st
    \<and> heap_kept (st_heap st) (st_heap st') []"
  using allocate_blocks_gives [OF assms, of force] by metis

theorem allocate_blocks_ok_witness:
  "\<exists>st al st' as. block_allocator_init False ex_info ex_aux ex_start = Inr st \<and> allocate_blocks False 200 st = Inr (Some al, st')
    \<and> list_wf (st_heap st') (ba_list al) as \<and> fresh_blocks ex_info st st' as 200 \<and> room st' = 118"
proof -
  obtain st where st: "block_allocator_init False ex_info ex_aux ex_start = Inr st" "inodes_wf ex_info ex_aux st" "room st = 318"
    by (rule ex_state)
  then show ?thesis
    using allocate_blocks_ok [OF inodes_wf_st_wf [OF st(2)], of 200 False] by auto
qed

text \<open>C19 Running out of space: when the holes hold fewer blocks than asked for, \<open>allocate_blocks\<close> ends in the error path
  (\<^verbatim>\<open>error\<close> without \<^verbatim>\<open>force\<close> leaves through \<^verbatim>\<open>longjmp\<close>) and never gives out a block twice instead.\<close>

theorem allocate_blocks_out_of_space:
  assumes "st_wf i a st" and "room st < unat len"
  shows "allocate_blocks False len st = Inl Longjmp"
  using best_fit_loop_full [OF assms, of None "[]"] by (simp add: allocate_blocks_def ext4_allocate_best_fit_def)

theorem allocate_blocks_out_of_space_witness:
  "\<exists>st. block_allocator_init False ex_info ex_aux ex_start = Inr st \<and> allocate_blocks False 319 st = Inl Longjmp"
proof -
  obtain st where st: "block_allocator_init False ex_info ex_aux ex_start = Inr st" "inodes_wf ex_info ex_aux st" "room st = 318"
    by (rule ex_state)
  then show ?thesis
    using allocate_blocks_out_of_space [OF inodes_wf_st_wf [OF st(2)], of 319] by auto
qed

text \<open>C14 One step of best fit: while there is a free block in a hole, \<open>ext4_allocate_best_fit_partial\<close> returns a new region
  of at most \<open>len\<close> blocks that were free. No hole would have given more of the blocks asked for: a request that fits in
  a hole is not split, and one that fits in none takes a largest hole.\<close>

theorem best_fit_partial_largest:
  assumes "st_wf i a st" and "0 < len" and "0 < room st"
  shows "\<exists>st' r. ext4_allocate_best_fit_partial force len st = Inr (Some (length (st_heap st)), st')
    \<and> st_heap st' = st_heap st @ [Some r] \<and> st_wf i a st' \<and> 0 < r_len r \<and> r_len r \<le> len
    \<and> (\<forall>x \<in> set (group_holes 0 (st_bgs st)). min (unat len) (hole_size x) \<le> unat (r_len r))
    \<and> used i st \<inter> {unat (r_block r)..<unat (r_block r) + unat (r_len r)} = {}
    \<and> used i st' = used i st \<union> {unat (r_block r)..<unat (r_block r) + unat (r_len r)}"
proof (rule best_fit_partial_ok [OF assms, of force], goal_cases)
  case (1 st' b m n)
  then show ?case
    by (intro exI [of _ st'] exI [of _ "\<lparr>r_block = b, r_len = m, r_bg = n, r_next = None, r_prev = None\<rparr>"]) simp
qed

theorem best_fit_partial_largest_witness:
  "\<exists>st st' r. block_allocator_init False ex_info ex_aux ex_start = Inr st
    \<and> ext4_allocate_best_fit_partial False 10 st = Inr (Some 0, st') \<and> st_heap st' = [Some r] \<and> 0 < r_len r \<and> r_len r \<le> 10"
proof -
  obtain st where st: "block_allocator_init False ex_info ex_aux ex_start = Inr st" "inodes_wf ex_info ex_aux st" "room st = 318" "st_heap st = []"
    by (rule ex_state)
  then show ?thesis
    using best_fit_partial_largest [OF inodes_wf_st_wf [OF st(2)], of 10 False] by auto
qed

text \<open>C36 Not the smallest region that fits: with one hole too small for the request followed by two that are larger than it,
  in increasing order, the search ends at the last and largest hole. A hole larger than the request makes the search
  minimise only while no hole or a larger hole is remembered; here a smaller one is, so that each hole is replaced by the next,
  larger one. The comment of \<open>allocate_blocks\<close> says that a request goes into the smallest contiguous region that it fits in.\<close>

theorem best_fit_takes_larger:
  assumes "\<And>bg. bg \<in> set bgs \<Longrightarrow> ordered (bg_chunks bg)" and "group_holes 0 bgs = [x, y, z]"
    and "0 < hole_size x" and "hole_size x < unat len" and "unat len < hole_size y" and "hole_size y < hole_size z" and "hole_size z < 2 ^ 32"
  shows "\<exists>f. scan_groups len 0 bgs nothing_found = (False, f) \<and> at_hole f z"
proof -
  have "unat (f_allocate_len (here w f)) = hole_size w" "f_minimize (here w f) = f_minimize f" if "hole_size w < 2 ^ 32" for w f
    using at_here [OF that, of f] by (auto simp: here_def split: prod.splits)
  then have "pick (unat len) [x, y, z] nothing_found = (False, here z (here y (here x nothing_found)))"
    using assms(3-7) by (simp add: nothing_found_def unat_eq_zero [symmetric])
  then show ?thesis
    using scan_groups_pick [of bgs len 0 nothing_found] assms(1,2,7) at_here [of z] by simp
qed

definition ex_chunks :: "chunk list" where
  "ex_chunks = [\<lparr>c_block = 7, c_len = 0, c_bg = 0\<rparr>, \<lparr>c_block = 12, c_len = 1, c_bg = 0\<rparr>,
     \<lparr>c_block = 33, c_len = 1, c_bg = 0\<rparr>, \<lparr>c_block = 64, c_len = 36, c_bg = 0\<rparr>]"

theorem best_fit_takes_larger_witness:
  "\<exists>f. scan_groups 10 0 [ex_bg\<lparr>bg_chunks := ex_chunks\<rparr>] nothing_found = (False, f) \<and> at_hole f (0, 2, 34, 64)"
  by (rule best_fit_takes_larger [where x = "(0, 0, 7, 12)" and y = "(0, 1, 13, 33)"])
    (auto simp: ex_chunks_def ordered_def c_end_def hole_size_def)

text \<open>C11 Starting the allocator: let the parameters be well formed (\<open>info_wf\<close>), let all blocks and inodes have 32 bit
  numbers, let every group have at least one inode and at most as many as a bitmap block has bits, and let every group be larger
  than its header. Then \<open>block_allocator_init\<close> succeeds with one group per \<^verbatim>\<open>aux_info.groups\<close>, the invariants of blocks and
  inodes hold and no inode is in use. Group \<open>n\<close> starts at its first block, the blocks marked in its bitmap are exactly its header
  and those beyond the end of the image, and the one hole that can be allocated from reaches from the header to the end of the
  group, without the last block of a full group. The number of blocks that can be allocated is the sum of these holes.\<close>

theorem block_allocator_init_ok:
  assumes "info_wf i" and "unat (ai_first_data_block a) + unat (ai_groups a) * unat (fi_blocks_per_group i) < 2 ^ 32"
    and "0 < unat (fi_inodes_per_group i)" and "unat (fi_inodes_per_group i) \<le> 8 * unat (fi_block_size i)"
    and "unat (ai_groups a) * unat (fi_inodes_per_group i) < 2 ^ 32 - 1"
    and "\<And>n. n < unat (ai_groups a) \<Longrightarrow> bg_header_size i a (of_nat n) < group_size i a (of_nat n)"
  shows "\<exists>st'. block_allocator_init force i a st = Inr st' \<and> inodes_wf i a st' \<and> length (st_bgs st') = unat (ai_groups a)
    \<and> used_inodes i st' = {} \<and> st_heap st' = st_heap st
    \<and> (\<forall>n < unat (ai_groups a). let bg = st_bgs st' ! n; header = bg_header_size i a (of_nat n);
          stop = group_size i a (of_nat n); bpg = unat (fi_blocks_per_group i) in
        unat (bg_first_block bg) = group_start i a (of_nat n)
        \<and> bits_of (bg_bitmaps bg) = {..<header} \<union> {stop..<bpg}
        \<and> holes (bg_chunks bg) = [(header, min stop (bpg - 1))])
    \<and> room st' = (\<Sum>n<unat (ai_groups a).
        min (group_size i a (of_nat n)) (unat (fi_blocks_per_group i) - 1) - bg_header_size i a (of_nat n))"
proof (rule block_allocator_init_gives [OF assms, of force st], goal_cases)
  case (2 st')
  then show ?case
    by (intro exI [of _ st']) (simp add: group_started_def)
qed

theorem block_allocator_init_ok_witness:
  "\<exists>st. block_allocator_init False ex_info ex_aux ex_start = Inr st \<and> inodes_wf ex_info ex_aux st \<and> room st = 318
    \<and> bits_of (bg_bitmaps (st_bgs st ! 3)) = {..<7} \<union> {49..<100} \<and> holes (bg_chunks (st_bgs st ! 3)) = [(7, 49)]"
proof -
  obtain st where st: "block_allocator_init False ex_info ex_aux ex_start = Inr st" "inodes_wf ex_info ex_aux st" "room st = 318"
    "\<forall>n < 4. bits_of (bg_bitmaps (st_bgs st ! n)) = {..<7} \<union> {group_size ex_info ex_aux (of_nat n)..<100}
      \<and> holes (bg_chunks (st_bgs st ! n)) = [(7, min (group_size ex_info ex_aux (of_nat n)) 99)]"
    using block_allocator_init_ok [of ex_info ex_aux False ex_start] ex_sizes ex_groups_fit ex_room ex_groups(1)
    by (auto simp: Let_def)
  then show ?thesis
    using st(4) [rule_format, of 3] ex_groups(5) by auto
qed

text \<open>C35 Appending out-of-band blocks: \<open>append_oob_allocation\<close> allocates \<open>len\<close> blocks and returns 0, but only the first
  region it allocated joins the list, since \<open>region_list_append\<close> clears the link that the loop follows next. The blocks of
  the other regions stay in use and belong to no list.\<close>

theorem append_oob_first_only:
  assumes "st_wf i a st" and "0 < len" and "unat len \<le> room st" and "list_wf (st_heap st) (ba_oob_list al) bs"
  shows "\<exists>al' st' c cs. append_oob_allocation force al len st = Inr (0, al', st') \<and> fresh_blocks i st st' (c # cs) (unat len)
    \<and> list_wf (st_heap st') (ba_oob_list al') (bs @ [c]) \<and> ba_list al' = ba_list al \<and> set (bs @ [c]) \<inter> set cs = {}"
proof -
  obtain q st1 as where 1: "best_fit_loop force len None None st = Some (Inr (q, st1))"
    "dlist (st_heap st1) None q as None" "fresh_blocks i st st1 as (unat len)"
    "heap_kept (st_heap st) (st_heap st1) []" "\<forall>b \<in> set as. length (st_heap st) \<le> b"
    using best_fit_loop_ok [OF assms(1,3), of None "[]" force] by auto
  have "as \<noteq> []"
    using 1(3) assms(2) by (auto simp: fresh_blocks_def blocks_def unat_eq_zero)
  then obtain c cs where as: "as = c # cs" and q: "q = Some c" and c: "live (st_heap st1) c"
    using 1(2) by (cases as) auto
  have old: "b < length (st_heap st)" if "b \<in> set bs" for b
    using list_wf_live [OF assms(4) that] by (simp add: live_def)
  have oob: "list_wf (st_heap st1) (ba_oob_list al) bs"
    using 1(4) list_wf_live [OF assms(4)] by (intro list_wf_frame [OF assms(4)]) (auto simp: heap_kept_def same_data_def)
  have cb: "c \<notin> set bs" "set bs \<inter> set cs = {}" "c \<notin> set cs"
    using 1(5) old path_distinct [OF dlist_path [OF 1(2)]] by (fastforce simp: as)+
  obtain l' h' where 2: "region_list_append (ba_oob_list al) (Some c) (st_heap st1) = Inr (l', h')"
    "list_wf h' l' (bs @ [c])" "same_data (st_heap st1) h'"
    by (rule region_list_append_ok [OF oob c cb(1)])
  have n: "live h' c" "r_next (cell h' c) = None"
    using 2(2) by (auto simp: list_wf_def)
  have "append_oob_loop (Some c) (ba_oob_list al) (st_heap st1) = Some (Inr (l', h'))"
    using 2(1) n by (subst append_oob_loop.simps) (simp add: append_oob_loop.simps)
  then have "append_oob_allocation force al len st = Inr (0, al\<lparr>ba_oob_list := l'\<rparr>, st1\<lparr>st_heap := h'\<rparr>)"
    using 1(1) by (simp add: append_oob_allocation_def ext4_allocate_best_fit_def q)
  moreover have "blocks h' as = blocks (st_heap st1) as"
    by (rule blocks_same_data [OF 2(3) dlist_path [OF 1(2)]])
  then have "fresh_blocks i st (st1\<lparr>st_heap := h'\<rparr>) (c # cs) (unat len)"
    using 1(3) by (simp add: fresh_blocks_def as)
  ultimately show ?thesis
    using 2(2) cb by fastforce
qed

theorem append_oob_first_only_witness:
  "\<exists>st al st' c cs. block_allocator_init False ex_info ex_aux ex_start = Inr st
    \<and> append_oob_allocation False create_allocation 200 st = Inr (0, al, st')
    \<and> fresh_blocks ex_info st st' (c # cs) 200 \<and> list_wf (st_heap st') (ba_oob_list al) [c]"
proof -
  obtain st where st: "block_allocator_init False ex_info ex_aux ex_start = Inr st" "inodes_wf ex_info ex_aux st" "room st = 318"
    by (rule ex_state)
  have "list_wf (st_heap st) (ba_oob_list create_allocation) []"
    by (simp add: list_wf_def create_allocation_def empty_list_def)
  from append_oob_first_only [OF inodes_wf_st_wf [OF st(2)] _ _ this, of 200 False] show ?thesis
    using st by auto
qed

section \<open>Inodes\<close>

text \<open>C8 Allocating an inode: \<open>allocate_inode\<close> returns the smallest inode number that is not in use, marks that inode and no
  other, and leaves the blocks in use and both invariants as they are. It returns EXT4_ALLOCATE_FAILED, with an unchanged state, exactly
  when every inode of every group is in use.\<close>

theorem allocate_inode_first:
  assumes "inodes_wf i a st"
  shows "if used_inodes i st = {1..length (st_bgs st) * unat (fi_inodes_per_group i)} then allocate_inode i st = Inr (EXT4_ALLOCATE_FAILED, st)
    else \<exists>r st'. allocate_inode i st = Inr (r, st') \<and> r \<noteq> EXT4_ALLOCATE_FAILED \<and> 0 < unat r \<and> unat r \<notin> used_inodes i st \<and> {1..<unat r} \<subseteq> used_inodes i st
      \<and> used_inodes i st' = insert (unat r) (used_inodes i st) \<and> inodes_wf i a st' \<and> used i st' = used i st"
proof (cases "used_inodes i st = {1..length (st_bgs st) * unat (fi_inodes_per_group i)}")
  case True
  then show ?thesis
    using allocate_inode_full [OF assms True] by simp
next
  case False
  obtain r st' where 1: "allocate_inode i st = Inr (r, st')" "0 < unat r" "unat r \<le> length (st_bgs st) * unat (fi_inodes_per_group i)"
    "unat r \<notin> used_inodes i st" "{1..<unat r} \<subseteq> used_inodes i st" "used_inodes i st' = insert (unat r) (used_inodes i st)"
    "inodes_wf i a st'" "used i st' = used i st"
    by (rule allocate_inode_ok [OF assms False])
  have "unat r < 2 ^ 32 - 1"
    using 1(3) assms by (simp add: inodes_wf_def)
  then have "r \<noteq> EXT4_ALLOCATE_FAILED"
    by (auto simp: EXT4_ALLOCATE_FAILED_def unsigned_minus_1_eq_mask mask_eq_exp_minus_1)
  then show ?thesis
    using False 1 by simp
qed

theorem allocate_inode_first_witness:
  "\<exists>st st'. block_allocator_init False ex_info ex_aux ex_start = Inr st \<and> allocate_inode ex_info st = Inr (1, st')
    \<and> used_inodes ex_info st' = {1}"
proof -
  obtain st where st: "block_allocator_init False ex_info ex_aux ex_start = Inr st" "inodes_wf ex_info ex_aux st"
    "length (st_bgs st) = 4" "used_inodes ex_info st = {}"
    by (rule ex_state)
  have "{1..length (st_bgs st) * unat (fi_inodes_per_group ex_info)} \<noteq> {}"
    using st(3) ex_sizes by simp
  then obtain r st' where 1: "allocate_inode ex_info st = Inr (r, st')" "0 < unat r" "{1..<unat r} = {}" "used_inodes ex_info st' = {unat r}"
    using allocate_inode_first [OF st(2)] st(4) by auto
  from 1(2,3) have "unat r = 1"
    by auto
  then have "r = 1"
    by (metis unat_1 word_unat_eq_iff)
  then show ?thesis
    using st(1) 1 by auto
qed

end
