(* ===== verification/Spec2Isabelle.thy ===== *)
theory Spec2Isabelle
  imports Record_Properties Lookup3 Sha1 Crc16 Allocation_Properties
begin

text \<open>
  Header to be completed.
\<close>

end
